(* ===== verification/Prelude.thy ===== *)
theory Prelude
  imports Complex_Main "HOL-Library.Word" "HOL-Library.Char_ord" "HOL-Library.List_Lexorder"
    "HOL-Library.Product_Lexorder" "HOL-Library.AList"
begin

section \<open>Prelude\<close>

text \<open>
  Shared vocabulary of the development: results as sums, a state monad with errors (used for
  SQL statements, where the state is the database, and for the asynchronous Rust code, where
  the state is the process and its database), relational tables as lists of rows, and a
  locale for transition systems with an invariant. The collections \<open>esm\<close> (equations of the
  monad) and \<open>rows\<close> (equations and facts of table operations) feed the component proofs.
\<close>

named_theorems esm \<open>unfolding and splitting facts of the error state monad\<close>
named_theorems rows \<open>facts about tables as lists of rows\<close>

subsection \<open>Results\<close>

text \<open>\<open>Result<T, E>\<close> of Rust, and any SQL function that may raise: \<open>Inl\<close> is the error.\<close>

definition res_bind :: "'e + 'a \<Rightarrow> ('a \<Rightarrow> 'e + 'b) \<Rightarrow> 'e + 'b" where
  "res_bind m f = (case m of Inl e \<Rightarrow> Inl e | Inr x \<Rightarrow> f x)"

definition guard_res :: "bool \<Rightarrow> 'e \<Rightarrow> 'e + unit" where
  "guard_res b e = (if b then Inr () else Inl e)"

lemma res_bind_simps [simp]:
  "res_bind (Inl e) f = Inl e"
  "res_bind (Inr x) f = f x"
  by (simp_all add: res_bind_def)

lemma res_bind_eq_Inr: "res_bind m f = Inr y \<longleftrightarrow> (\<exists>x. m = Inr x \<and> f x = Inr y)"
  by (cases m) auto

lemma res_bind_eq_Inl:
  "res_bind m f = Inl e \<longleftrightarrow> m = Inl e \<or> (\<exists>x. m = Inr x \<and> f x = Inl e)"
  by (cases m) auto

lemma guard_res_eq [simp]:
  "guard_res b e = Inr u \<longleftrightarrow> b"
  "guard_res b e = Inl e' \<longleftrightarrow> \<not> b \<and> e' = e"
  "guard_res True e = Inr ()"
  "guard_res False e = Inl e"
  by (auto simp: guard_res_def)

text \<open>\<open>Option::map(f).transpose()?\<close>: validate an optional value when it is there.\<close>

definition traverse_option :: "('a \<Rightarrow> 'e + 'b) \<Rightarrow> 'a option \<Rightarrow> 'e + 'b option" where
  "traverse_option f x =
     (case x of None \<Rightarrow> Inr None | Some v \<Rightarrow> res_bind (f v) (\<lambda>y. Inr (Some y)))"

lemma traverse_option_simps [simp]:
  "traverse_option f None = Inr None"
  "traverse_option f (Some v) = res_bind (f v) (\<lambda>y. Inr (Some y))"
  by (simp_all add: traverse_option_def)

text \<open>\<open>Iterator::map(f).collect::<Result<Vec<_>>>()\<close>: the first error wins.\<close>

fun traverse_list :: "('a \<Rightarrow> 'e + 'b) \<Rightarrow> 'a list \<Rightarrow> 'e + 'b list" where
  "traverse_list f [] = Inr []"
| "traverse_list f (x # xs) =
     res_bind (f x) (\<lambda>y. res_bind (traverse_list f xs) (\<lambda>ys. Inr (y # ys)))"

lemma traverse_list_Inr_iff:
  "traverse_list f xs = Inr ys \<longleftrightarrow> list_all2 (\<lambda>x y. f x = Inr y) xs ys"
proof (induction xs arbitrary: ys)
  case Nil
  then show ?case by auto
next
  case (Cons x xs)
  then show ?case by (cases ys) (auto simp: res_bind_eq_Inr)
qed

subsection \<open>A state monad with errors\<close>

type_synonym ('s, 'e, 'a) esm = "'s \<Rightarrow> ('e + 'a) \<times> 's"

definition ereturn :: "'a \<Rightarrow> ('s, 'e, 'a) esm" where
  "ereturn x = (\<lambda>s. (Inr x, s))"

definition eraise :: "'e \<Rightarrow> ('s, 'e, 'a) esm" where
  "eraise e = (\<lambda>s. (Inl e, s))"

definition ebind :: "('s, 'e, 'a) esm \<Rightarrow> ('a \<Rightarrow> ('s, 'e, 'b) esm) \<Rightarrow> ('s, 'e, 'b) esm" where
  "ebind m f = (\<lambda>s. case m s of (Inl e, s') \<Rightarrow> (Inl e, s') | (Inr x, s') \<Rightarrow> f x s')"

definition eseq :: "('s, 'e, 'a) esm \<Rightarrow> ('s, 'e, 'b) esm \<Rightarrow> ('s, 'e, 'b) esm" where
  "eseq m k = ebind m (\<lambda>_. k)"

definition eassert :: "bool \<Rightarrow> 'e \<Rightarrow> ('s, 'e, unit) esm" where
  "eassert b e = (if b then ereturn () else eraise e)"

definition elift :: "'e + 'a \<Rightarrow> ('s, 'e, 'a) esm" where
  "elift r = (\<lambda>s. (r, s))"

definition egets :: "('s \<Rightarrow> 'a) \<Rightarrow> ('s, 'e, 'a) esm" where
  "egets f = (\<lambda>s. (Inr (f s), s))"

definition emodify :: "('s \<Rightarrow> 's) \<Rightarrow> ('s, 'e, unit) esm" where
  "emodify f = (\<lambda>s. (Inr (), f s))"

text \<open>A \<open>FOR row IN \<dots> LOOP\<close> over an already selected list, counting the iterations that
  report success.\<close>

fun ecount :: "('a \<Rightarrow> ('s, 'e, bool) esm) \<Rightarrow> 'a list \<Rightarrow> ('s, 'e, int) esm" where
  "ecount f [] = ereturn 0"
| "ecount f (x # xs) = ebind (f x) (\<lambda>b. ebind (ecount f xs)
     (\<lambda>n. ereturn (if b then n + 1 else n)))"

lemma ebind_apply [esm]:
  "ebind m f s = (case m s of (Inl e, s') \<Rightarrow> (Inl e, s') | (Inr x, s') \<Rightarrow> f x s')"
  by (simp add: ebind_def)

lemma esm_apply [esm]:
  "ereturn x s = (Inr x, s)"
  "eraise e s = (Inl e, s)"
  "eassert b e s = (if b then (Inr (), s) else (Inl e, s))"
  "elift r s = (r, s)"
  "egets f s = (Inr (f s), s)"
  "emodify g s = (Inr (), g s)"
  "eseq m k s = ebind m (\<lambda>_. k) s"
  by (simp_all add: ereturn_def eraise_def eassert_def elift_def egets_def emodify_def eseq_def)

lemma ebind_Inr_iff:
  "ebind m f s = (Inr y, t) \<longleftrightarrow> (\<exists>x u. m s = (Inr x, u) \<and> f x u = (Inr y, t))"
  by (auto simp: ebind_apply split: prod.splits sum.splits)

lemma eseq_Inr_iff:
  "eseq m k s = (Inr y, t) \<longleftrightarrow> (\<exists>x u. m s = (Inr x, u) \<and> k u = (Inr y, t))"
  by (auto simp: eseq_def ebind_Inr_iff)

lemma esm_Inr_iff:
  "ereturn x s = (Inr y, t) \<longleftrightarrow> y = x \<and> t = s"
  "eraise e s = (Inr y, t) \<longleftrightarrow> False"
  "eassert b e s = (Inr u, t) \<longleftrightarrow> b \<and> t = s"
  "elift r s = (Inr y, t) \<longleftrightarrow> r = Inr y \<and> t = s"
  "egets f s = (Inr y, t) \<longleftrightarrow> y = f s \<and> t = s"
  "emodify g s = (Inr u, t) \<longleftrightarrow> t = g s"
  by (auto simp: esm_apply)

lemmas esm_success = ebind_Inr_iff eseq_Inr_iff esm_Inr_iff

text \<open>\<open>establishes P m Q\<close>: started where \<open>P\<close> holds, a successful run of \<open>m\<close> ends where
  \<open>Q\<close> holds of the result and the state.\<close>

definition establishes ::
    "('s \<Rightarrow> bool) \<Rightarrow> ('s, 'e, 'a) esm \<Rightarrow> ('a \<Rightarrow> 's \<Rightarrow> bool) \<Rightarrow> bool" where
  "establishes P m Q \<longleftrightarrow> (\<forall>s x t. P s \<longrightarrow> m s = (Inr x, t) \<longrightarrow> Q x t)"

lemma establishesI:
  "(\<And>s x t. P s \<Longrightarrow> m s = (Inr x, t) \<Longrightarrow> Q x t) \<Longrightarrow> establishes P m Q"
  by (simp add: establishes_def)

lemma establishesD: "establishes P m Q \<Longrightarrow> P s \<Longrightarrow> m s = (Inr x, t) \<Longrightarrow> Q x t"
  by (auto simp: establishes_def)

lemma establishes_ebind:
  assumes "establishes P m Q" and "\<And>x. establishes (Q x) (f x) R"
  shows "establishes P (ebind m f) R"
  using assms unfolding establishes_def ebind_Inr_iff by blast

lemma establishes_eseq:
  assumes "establishes P m (\<lambda>_. Q)" and "establishes Q k R"
  shows "establishes P (eseq m k) R"
  using assms unfolding eseq_def by (auto intro: establishes_ebind)

lemma establishes_ecount:
  assumes "\<And>x. x \<in> set xs \<Longrightarrow> establishes P (f x) (\<lambda>_. P)"
  shows "establishes P (ecount f xs) (\<lambda>_. P)"
  using assms
proof (induction xs)
  case Nil
  then show ?case by (simp add: establishes_def esm_success)
next
  case (Cons x xs)
  have "establishes P (f x) (\<lambda>_. P)" and rest: "establishes P (ecount f xs) (\<lambda>_. P)"
    using Cons by simp_all
  moreover have "establishes P (ereturn y) (\<lambda>_. P)" for y :: int
    by (simp add: establishes_def esm_success)
  ultimately show ?case
    unfolding ecount.simps by (intro establishes_ebind [where Q = "\<lambda>_. P"])
qed

lemma ecount_bounds:
  "ecount f xs s = (Inr n, t) \<Longrightarrow> 0 \<le> n \<and> n \<le> int (length xs)"
proof (induction xs arbitrary: s n t)
  case Nil
  then show ?case by (simp add: esm_success)
next
  case (Cons x xs)
  then show ?case by (fastforce simp: esm_success split: if_splits)
qed

subsection \<open>Tables as lists of rows\<close>

text \<open>\<open>UPDATE \<dots> SET f WHERE P\<close>, \<open>DELETE \<dots> WHERE P\<close> and a primary-key lookup.\<close>

definition update_where :: "('r \<Rightarrow> bool) \<Rightarrow> ('r \<Rightarrow> 'r) \<Rightarrow> 'r list \<Rightarrow> 'r list" where
  "update_where P f rs = map (\<lambda>r. if P r then f r else r) rs"

definition delete_where :: "('r \<Rightarrow> bool) \<Rightarrow> 'r list \<Rightarrow> 'r list" where
  "delete_where P rs = filter (\<lambda>r. \<not> P r) rs"

definition find_row :: "('r \<Rightarrow> 'k) \<Rightarrow> 'k \<Rightarrow> 'r list \<Rightarrow> 'r option" where
  "find_row key k rs = find (\<lambda>r. key r = k) rs"

lemma find_row_SomeD: "find_row key k rs = Some r \<Longrightarrow> r \<in> set rs \<and> key r = k"
  by (auto simp: find_row_def find_Some_iff)

lemma find_row_None_iff: "find_row key k rs = None \<longleftrightarrow> k \<notin> key ` set rs"
  by (auto simp: find_row_def find_None_iff)

lemma find_row_eq_Some:
  assumes "distinct (map key rs)"
  shows "find_row key k rs = Some r \<longleftrightarrow> r \<in> set rs \<and> key r = k"
  using assms
proof (induction rs)
  case Nil
  then show ?case by (simp add: find_row_def)
next
  case (Cons x xs)
  then show ?case by (auto simp: find_row_def)
qed

lemma distinct_keyD:
  assumes "distinct (map key rs)" and "r \<in> set rs" and "r' \<in> set rs" and "key r = key r'"
  shows "r = r'"
  using assms by (auto simp: distinct_map dest: inj_onD)

lemma set_update_where [rows]:
  "set (update_where P f rs) = {r. r \<in> set rs \<and> \<not> P r} \<union> f ` {r. r \<in> set rs \<and> P r}"
  by (auto simp: update_where_def)

lemma map_update_where [rows]:
  "(\<And>r. P r \<Longrightarrow> g (f r) = g r) \<Longrightarrow> map g (update_where P f rs) = map g rs"
  by (auto simp: update_where_def)

lemma image_update_where [rows]:
  assumes "\<And>r. P r \<Longrightarrow> g (f r) = g r"
  shows "g ` set (update_where P f rs) = g ` set rs"
proof -
  have "map g (update_where P f rs) = map g rs" using assms by (rule map_update_where)
  then show ?thesis by (metis list.set_map)
qed

lemma set_delete_where [rows]: "set (delete_where P rs) = {r. r \<in> set rs \<and> \<not> P r}"
  by (auto simp: delete_where_def)

lemma distinct_map_delete_where [rows]:
  "distinct (map g rs) \<Longrightarrow> distinct (map g (delete_where P rs))"
  by (auto simp: delete_where_def distinct_map_filter)

lemma find_row_update_where [rows]:
  assumes "\<And>r. P r \<Longrightarrow> key (f r) = key r"
  shows "find_row key k (update_where P f rs) =
    map_option (\<lambda>r. if P r then f r else r) (find_row key k rs)"
proof (induction rs)
  case Nil
  then show ?case by (simp add: find_row_def update_where_def)
next
  case (Cons x xs)
  then show ?case using assms by (auto simp: find_row_def update_where_def)
qed

subsection \<open>Transition systems\<close>

text \<open>An invariant that holds initially and is kept by every step holds in every reachable
  state; a relation between the states of one step that is reflexive and transitive holds
  between the ends of every execution.\<close>

locale transition_system =
  fixes start :: "'s \<Rightarrow> bool"
    and step :: "'s \<Rightarrow> 's \<Rightarrow> bool"
    and good :: "'s \<Rightarrow> bool"
  assumes start_good: "start s \<Longrightarrow> good s"
    and step_good: "step s t \<Longrightarrow> good s \<Longrightarrow> good t"
begin

lemma steps_good: "step\<^sup>*\<^sup>* s t \<Longrightarrow> good s \<Longrightarrow> good t"
  by (induction rule: rtranclp_induct) (auto intro: step_good)

lemma reachable_good: "start s \<Longrightarrow> step\<^sup>*\<^sup>* s t \<Longrightarrow> good t"
  by (blast intro: start_good steps_good)

lemma steps_related:
  assumes "step\<^sup>*\<^sup>* s t" and "good s"
    and "\<And>u. R u u"
    and "\<And>u v w. R u v \<Longrightarrow> R v w \<Longrightarrow> R u w"
    and "\<And>u v. good u \<Longrightarrow> step u v \<Longrightarrow> R u v"
  shows "R s t"
  using assms(1)
proof (induction rule: rtranclp_induct)
  case base
  then show ?case using assms(3) by blast
next
  case (step u v)
  have "good u" using step.hyps(1) assms(2) by (rule steps_good)
  then show ?case using step.IH step.hyps(2) assms(4,5) by blast
qed

end

end
