(* ===== verification/Json.thy ===== *)
theory Json
  imports Prelude
begin

section \<open>JSON values\<close>

text \<open>
  The JSON documents that cross the Rust/SQL boundary (\<open>types::Json\<close>, \<open>types::JsonObject\<close>,
  \<open>jsonb\<close> columns). An object is the association list of its entries in ascending key order,
  the order of \<open>serde_json::Map\<close> (a \<open>BTreeMap\<close>); equality of \<open>jsonb\<close> does not depend on that order.
  A number is \<open>JInt\<close> when PostgreSQL renders
  it without a fractional part and \<open>JDec\<close> when it renders it with one: \<open>jsonb\<close> keeps the scale
  of \<open>5.0\<close>, compares it equal to \<open>5\<close>, but a cast of its text to \<open>bigint\<close> fails.
\<close>

datatype json =
    JNull
  | JBool bool
  | JInt int
  | JDec rat
  | JStr string
  | JArr "json list"
  | JObj "(string \<times> json) list"

type_synonym json_object = "(string \<times> json) list"

text \<open>\<open>serde_json::Map::insert\<close>: keep ascending key order, replace an existing entry.\<close>

fun json_insert :: "string \<Rightarrow> json \<Rightarrow> json_object \<Rightarrow> json_object" where
  "json_insert k v [] = [(k, v)]"
| "json_insert k v ((k', v') # kvs) =
     (if k = k' then (k, v) # kvs
      else if k < k' then (k, v) # (k', v') # kvs
      else (k', v') # json_insert k v kvs)"

text \<open>\<open>jsonb\<close> equality compares numbers by value and objects by their entries whatever the order of
  the keys: the normal form writes integral decimals as integers and an object's entries in ascending
  key order, one entry per key.\<close>

definition sorted_object :: "json_object \<Rightarrow> json_object" where
  "sorted_object kvs = foldr (\<lambda>(k, v). json_insert k v) kvs []"

primrec jnorm :: "json \<Rightarrow> json" where
  "jnorm JNull = JNull"
| "jnorm (JBool b) = JBool b"
| "jnorm (JInt i) = JInt i"
| "jnorm (JDec q) = (if of_int \<lfloor>q\<rfloor> = q then JInt \<lfloor>q\<rfloor> else JDec q)"
| "jnorm (JStr s) = JStr s"
| "jnorm (JArr xs) = JArr (map jnorm xs)"
| "jnorm (JObj kvs) = JObj (sorted_object (map (map_prod id jnorm) kvs))"

definition jsonb_eq :: "json \<Rightarrow> json \<Rightarrow> bool" where
  "jsonb_eq a b \<longleftrightarrow> jnorm a = jnorm b"

text \<open>\<open>IS DISTINCT FROM\<close> on nullable \<open>jsonb\<close> values.\<close>

definition jsonb_distinct :: "json option \<Rightarrow> json option \<Rightarrow> bool" where
  "jsonb_distinct a b \<longleftrightarrow> map_option jnorm a \<noteq> map_option jnorm b"

lemma jsonb_eq_refl [simp]: "jsonb_eq a a"
  by (simp add: jsonb_eq_def)

lemma jsonb_eq_sym: "jsonb_eq a b \<Longrightarrow> jsonb_eq b a"
  by (simp add: jsonb_eq_def)

lemma jsonb_eq_trans: "jsonb_eq a b \<Longrightarrow> jsonb_eq b c \<Longrightarrow> jsonb_eq a c"
  by (simp add: jsonb_eq_def)

lemma jsonb_distinct_refl [simp]: "\<not> jsonb_distinct a a"
  by (simp add: jsonb_distinct_def)

subsection \<open>Objects\<close>

fun is_object :: "json \<Rightarrow> bool" where
  "is_object (JObj _) = True"
| "is_object _ = False"

fun is_number :: "json \<Rightarrow> bool" where
  "is_number (JInt _) = True"
| "is_number (JDec _) = True"
| "is_number _ = False"

fun is_string :: "json \<Rightarrow> bool" where
  "is_string (JStr _) = True"
| "is_string _ = False"

fun object_keys :: "json \<Rightarrow> string list" where
  "object_keys (JObj kvs) = map fst kvs"
| "object_keys _ = []"

text \<open>The operator \<open>->\<close>; \<open>None\<close> is SQL \<open>NULL\<close>.\<close>

fun jget :: "string \<Rightarrow> json \<Rightarrow> json option" where
  "jget k (JObj kvs) = map_of kvs k"
| "jget k _ = None"

text \<open>The operator \<open>?\<close>.\<close>

definition jhas :: "string \<Rightarrow> json \<Rightarrow> bool" where
  "jhas k j \<longleftrightarrow> jget k j \<noteq> None"

text \<open>The value of a JSON number, and the text of a JSON string.\<close>

fun jnumber :: "json \<Rightarrow> rat option" where
  "jnumber (JInt i) = Some (of_int i)"
| "jnumber (JDec q) = Some q"
| "jnumber _ = None"

fun jtext :: "json \<Rightarrow> string option" where
  "jtext (JStr s) = Some s"
| "jtext _ = None"

definition json_insert_option :: "string \<Rightarrow> json option \<Rightarrow> json_object \<Rightarrow> json_object" where
  "json_insert_option k v m = (case v of None \<Rightarrow> m | Some x \<Rightarrow> json_insert k x m)"

lemma map_of_json_insert [simp]: "map_of (json_insert k v m) = (map_of m)(k \<mapsto> v)"
  by (induction k v m rule: json_insert.induct) (auto simp: fun_eq_iff)

lemma set_keys_json_insert [simp]: "fst ` set (json_insert k v m) = insert k (fst ` set m)"
  by (induction k v m rule: json_insert.induct) auto

lemma sorted_json_insert:
  "sorted_wrt (<) (map fst m) \<Longrightarrow> sorted_wrt (<) (map fst (json_insert k v m))"
proof (induction k v m rule: json_insert.induct)
  case (1 k v)
  then show ?case by simp
next
  case (2 k v k' v' kvs)
  have "k' < k \<or> k \<le> k'" by auto
  then show ?case using 2
    by (auto simp: image_iff dest: less_trans)
qed

lemma sorted_object_simps [simp]:
  "sorted_object [] = []"
  "sorted_object ((k, v) # kvs) = json_insert k v (sorted_object kvs)"
  by (simp_all add: sorted_object_def)

lemma map_of_sorted_object [simp]: "map_of (sorted_object kvs) = map_of kvs"
  by (induction kvs) auto

lemma sorted_sorted_object: "sorted_wrt (<) (map fst (sorted_object kvs))"
  by (induction kvs) (auto intro: sorted_json_insert)

text \<open>A list of entries in strictly ascending key order is determined by its lookup function.\<close>

lemma sorted_entries_unique:
  fixes m m' :: "('k :: linorder \<times> 'v) list"
  assumes "sorted_wrt (<) (map fst m)" and "sorted_wrt (<) (map fst m')" and eq: "map_of m = map_of m'"
  shows "m = m'"
proof -
  have d: "distinct (map fst m)" "distinct (map fst m')"
    using assms(1,2) by (simp_all add: strict_sorted_iff)
  have "dom (map_of m) = dom (map_of m')" using eq by simp
  then have "set (map fst m) = set (map fst m')" by (simp add: dom_map_of_conv_image_fst)
  then have keys: "map fst m = map fst m'"
    using assms(1,2) by (metis strict_sorted_equal)
  have snds: "map (the \<circ> map_of m) (map fst m) = map snd m"
    if "distinct (map fst m)" for m :: "('k \<times> 'v) list"
    using that by (auto intro!: nth_equalityI simp: map_of_eq_Some_iff in_set_conv_nth)
  have "map snd m = map snd m'" using snds [OF d(1)] snds [OF d(2)] keys eq by simp
  then show ?thesis using keys by (metis zip_map_fst_snd)
qed

text \<open>Objects are equal exactly when they have equal values under the same keys: neither the order of
  the keys nor the scale of a number counts.\<close>

lemma jsonb_eq_objects:
  "jsonb_eq (JObj kvs) (JObj kvs') \<longleftrightarrow>
    (\<forall>k. map_option jnorm (map_of kvs k) = map_option jnorm (map_of kvs' k))"
proof -
  have lookup: "map_of (map (map_prod id jnorm) m) k = map_option jnorm (map_of m k)" for m k
    by (induction m) auto
  have "jsonb_eq (JObj kvs) (JObj kvs') \<longleftrightarrow>
      map_of (map (map_prod id jnorm) kvs) = map_of (map (map_prod id jnorm) kvs')"
    unfolding jsonb_eq_def
    by (auto intro: sorted_entries_unique sorted_sorted_object dest: arg_cong [where f = map_of])
  then show ?thesis by (simp add: fun_eq_iff lookup)
qed

lemma jsonb_eq_reordered:
  assumes "distinct (map fst kvs)" and "distinct (map fst kvs')" and "set kvs = set kvs'"
  shows "jsonb_eq (JObj kvs) (JObj kvs')"
  using map_of_inject_set [OF assms(1,2)] assms(3) by (simp add: jsonb_eq_objects)

lemma map_of_json_insert_option [simp]:
  "map_of (json_insert_option k v m) k' =
    (if k' = k \<and> v \<noteq> None then v else map_of m k')"
  by (cases v) (auto simp: json_insert_option_def)

lemma set_keys_json_insert_option:
  "fst ` set (json_insert_option k v m) = (if v = None then {} else {k}) \<union> fst ` set m"
  by (cases v) (auto simp: json_insert_option_def)

lemma jhas_object_keys: "jhas k j \<longleftrightarrow> k \<in> set (object_keys j)"
  by (cases j) (auto simp: jhas_def map_of_eq_None_iff image_iff)

lemma object_keys_nonempty_iff: "is_object j \<Longrightarrow> (object_keys j = []) = (j = JObj [])"
  by (cases j) auto

text \<open>The first key outside an allowed set, in the object's key order: the body of each
  \<open>SELECT keys.key INTO unknown_key FROM jsonb_object_keys(\<dots>) WHERE \<dots> LIMIT 1\<close>.\<close>

definition unknown_key :: "string list \<Rightarrow> json \<Rightarrow> string option" where
  "unknown_key allowed j = find (\<lambda>k. k \<notin> set allowed) (object_keys j)"

lemma unknown_key_None_iff:
  "unknown_key allowed j = None \<longleftrightarrow> set (object_keys j) \<subseteq> set allowed"
  by (auto simp: unknown_key_def find_None_iff)

end
