(* ===== verification/Types.thy ===== *)
theory Types
  imports Json
begin

section \<open>Public types and errors\<close>

text \<open>
  \<open>src/types.rs\<close>, \<open>src/error.rs\<close> and \<open>src/workflow.rs\<close>: identifiers, durations, retry and
  cancellation policies, queue policies, task states and snapshots, the crate's error type and
  the mapping of SQLSTATE codes to it, and the typed workflow identities.
\<close>

subsection \<open>Identifiers\<close>

text \<open>A UUID is an opaque ordered identifier; \<open>TaskId\<close> and \<open>RunId\<close> are distinct wrappers
  of it. Rows and SQL arguments carry the bare UUID.\<close>

type_synonym uuid = nat

datatype TaskId = TaskId (task_uuid: uuid)
datatype RunId = RunId (run_uuid: uuid)

definition TaskId_from_uuid :: "uuid \<Rightarrow> TaskId" where
  "TaskId_from_uuid value = TaskId value"

definition TaskId_into_uuid :: "TaskId \<Rightarrow> uuid" where
  "TaskId_into_uuid self = task_uuid self"

definition RunId_from_uuid :: "uuid \<Rightarrow> RunId" where
  "RunId_from_uuid value = RunId value"

definition RunId_into_uuid :: "RunId \<Rightarrow> uuid" where
  "RunId_into_uuid self = run_uuid self"

subsection \<open>Machine numbers\<close>

type_synonym u32 = "32 word"
type_synonym u64 = "64 word"

abbreviation i32_max :: int where "i32_max \<equiv> 2147483647"
abbreviation i64_max :: int where "i64_max \<equiv> 9223372036854775807"

definition i32_try_from :: "int \<Rightarrow> int option" where
  "i32_try_from x = (if - 2147483648 \<le> x \<and> x \<le> i32_max then Some x else None)"

definition i64_try_from :: "int \<Rightarrow> int option" where
  "i64_try_from x = (if - 9223372036854775808 \<le> x \<and> x \<le> i64_max then Some x else None)"

definition u32_try_from :: "int \<Rightarrow> int option" where
  "u32_try_from x = (if 0 \<le> x \<and> x < 2 ^ 32 then Some x else None)"

definition u64_try_from :: "int \<Rightarrow> int option" where
  "u64_try_from x = (if 0 \<le> x \<and> x < 2 ^ 64 then Some x else None)"

definition checked_add_u64 :: "u64 \<Rightarrow> u64 \<Rightarrow> u64 option" where
  "checked_add_u64 a b = (if uint a + uint b < 2 ^ 64 then Some (a + b) else None)"

lemma checked_add_u64_Some:
  "checked_add_u64 a b = Some c \<Longrightarrow> uint c = uint a + uint b"
  by (auto simp: checked_add_u64_def uint_word_ariths split: if_splits)

text \<open>An \<open>f64\<close>: a finite double is the rational it denotes.\<close>

datatype f64 = F64 rat | F64_NaN | F64_Infinity | F64_NegInfinity

fun f64_is_finite :: "f64 \<Rightarrow> bool" where
  "f64_is_finite (F64 _) = True"
| "f64_is_finite _ = False"

text \<open>\<open>std::time::Duration\<close>: whole seconds and nanoseconds below one second.\<close>

record duration =
  as_secs :: u64
  subsec_nanos :: u32

definition duration_valid :: "duration \<Rightarrow> bool" where
  "duration_valid d \<longleftrightarrow> subsec_nanos d < 1000000000"

text \<open>The exact length of a duration, in nanoseconds.\<close>

definition duration_nanos :: "duration \<Rightarrow> int" where
  "duration_nanos d = uint (as_secs d) * 1000000000 + uint (subsec_nanos d)"

subsection \<open>Policies\<close>

datatype RetryStrategy =
    Fixed duration
  | Exponential duration f64 "duration option"
  | NoRetry

definition RetryStrategy_fixed :: "duration \<Rightarrow> RetryStrategy" where
  "RetryStrategy_fixed delay = Fixed delay"

definition RetryStrategy_exponential ::
    "duration \<Rightarrow> f64 \<Rightarrow> duration option \<Rightarrow> RetryStrategy" where
  "RetryStrategy_exponential initial_delay factor max_delay =
     Exponential initial_delay factor max_delay"

definition RetryStrategy_none :: RetryStrategy where
  "RetryStrategy_none = NoRetry"

record CancellationPolicy =
  max_duration :: "duration option"
  max_delay :: "duration option"

definition CancellationPolicy_new :: CancellationPolicy where
  "CancellationPolicy_new = \<lparr>max_duration = None, max_delay = None\<rparr>"

definition with_max_duration :: "CancellationPolicy \<Rightarrow> duration \<Rightarrow> CancellationPolicy" where
  "with_max_duration self d = self\<lparr>max_duration := Some d\<rparr>"

definition with_max_delay :: "CancellationPolicy \<Rightarrow> duration \<Rightarrow> CancellationPolicy" where
  "with_max_delay self d = self\<lparr>max_delay := Some d\<rparr>"

record SpawnConfig =
  max_attempts :: "u32 option"
  retry_strategy :: "RetryStrategy option"
  headers :: "json_object option"
  cancellation :: "CancellationPolicy option"
  idempotency_key :: "string option"

definition SpawnConfig_default :: SpawnConfig where
  "SpawnConfig_default = \<lparr>max_attempts = None, retry_strategy = None, headers = None,
     cancellation = None, idempotency_key = None\<rparr>"

record SpawnResult =
  spawned_task_id :: uuid
  spawned_created :: bool

record QueuePolicyOptions =
  opt_cleanup_ttl :: "duration option"
  opt_cleanup_limit :: "u32 option"

definition QueuePolicyOptions_new :: QueuePolicyOptions where
  "QueuePolicyOptions_new = \<lparr>opt_cleanup_ttl = None, opt_cleanup_limit = None\<rparr>"

definition with_cleanup_ttl :: "QueuePolicyOptions \<Rightarrow> duration \<Rightarrow> QueuePolicyOptions" where
  "with_cleanup_ttl self ttl = self\<lparr>opt_cleanup_ttl := Some ttl\<rparr>"

definition with_cleanup_limit :: "QueuePolicyOptions \<Rightarrow> u32 \<Rightarrow> QueuePolicyOptions" where
  "with_cleanup_limit self limit = self\<lparr>opt_cleanup_limit := Some limit\<rparr>"

text \<open>The decoded policy keeps its whole-second TTL and its \<open>u32\<close> limit as integers.\<close>

record QueuePolicy =
  policy_queue_name :: string
  policy_cleanup_ttl :: int
  policy_cleanup_limit :: int

record QueueCleanup =
  cleanup_queue_name :: string
  cleanup_tasks_deleted :: int

subsection \<open>Task states and snapshots\<close>

datatype TaskState = Pending | Running | Sleeping | Completed | Failed | Cancelled

text \<open>The text of a state, as persisted (and as \<open>serde(rename_all = "lowercase")\<close> writes it).\<close>

fun state_text :: "TaskState \<Rightarrow> string" where
  "state_text Pending = ''pending''"
| "state_text Running = ''running''"
| "state_text Sleeping = ''sleeping''"
| "state_text Completed = ''completed''"
| "state_text Failed = ''failed''"
| "state_text Cancelled = ''cancelled''"

fun state_terminal :: "TaskState \<Rightarrow> bool" where
  "state_terminal Completed = True"
| "state_terminal Failed = True"
| "state_terminal Cancelled = True"
| "state_terminal _ = False"

abbreviation state_active :: "TaskState \<Rightarrow> bool" where
  "state_active s \<equiv> \<not> state_terminal s"

lemma state_active_iff: "state_active s \<longleftrightarrow> s = Pending \<or> s = Running \<or> s = Sleeping"
  by (cases s) auto

datatype TaskResultSnapshot =
    Snap_Pending
  | Snap_Running
  | Snap_Sleeping
  | Snap_Completed json
  | Snap_Failed json
  | Snap_Cancelled

fun snapshot_is_terminal :: "TaskResultSnapshot \<Rightarrow> bool" where
  "snapshot_is_terminal (Snap_Completed _) = True"
| "snapshot_is_terminal (Snap_Failed _) = True"
| "snapshot_is_terminal Snap_Cancelled = True"
| "snapshot_is_terminal _ = False"

record ClaimedTask =
  claimed_run_id :: uuid
  claimed_task_id :: uuid
  claimed_task_name :: string
  claimed_attempt :: int
  claimed_params :: json
  claimed_headers :: "json_object option"

subsection \<open>Errors\<close>

text \<open>The part of \<open>sqlx::Error\<close> the crate distinguishes: a database error carries its SQLSTATE
  (when the driver reports one) and its message.\<close>

datatype sqlx_error =
    Sqlx_Database "string option" string
  | Sqlx_Io
  | Sqlx_Tls
  | Sqlx_PoolTimedOut
  | Sqlx_Other string

text \<open>\<open>Error_Task\<close> carries the texts of the boxed error and of its chain of sources.\<close>

datatype error =
    Error_Database sqlx_error
  | Error_InvalidOptions string
  | Error_MissingQueueName
  | Error_QueueNameTooLong string nat
  | Error_TaskNotFound uuid
  | Error_TaskNameMismatch uuid string string
  | Error_TaskFailed json
  | Error_Suspended
  | Error_Cancelled
  | Error_FailedRun
  | Error_LeaseLost
  | Error_IdempotencyConflict
  | Error_Timeout string
  | Error_InvalidTaskHeaders string
  | Error_Serialization string
  | Error_Task "string list"
  | Error_Other string

text \<open>\<open>Error::task\<close>.\<close>

definition Error_task :: "string list \<Rightarrow> error" where
  "Error_task chain = Error_Task chain"

fun is_suspended :: "error \<Rightarrow> bool" where
  "is_suspended Error_Suspended = True"
| "is_suspended _ = False"

fun is_cancelled :: "error \<Rightarrow> bool" where
  "is_cancelled Error_Cancelled = True"
| "is_cancelled _ = False"

fun is_failed_run :: "error \<Rightarrow> bool" where
  "is_failed_run Error_FailedRun = True"
| "is_failed_run _ = False"

fun is_lease_lost :: "error \<Rightarrow> bool" where
  "is_lease_lost Error_LeaseLost = True"
| "is_lease_lost _ = False"

definition map_sqlx_error :: "sqlx_error \<Rightarrow> error" where
  "map_sqlx_error e =
     (case e of
        Sqlx_Database code msg \<Rightarrow>
          (if code = Some ''ST001'' then Error_Cancelled
           else if code = Some ''ST002'' then Error_FailedRun
           else if code = Some ''ST003'' then Error_LeaseLost
           else if code = Some ''ST004'' then Error_IdempotencyConflict
           else Error_Database e)
      | _ \<Rightarrow> Error_Database e)"

lemma map_sqlx_error_cases:
  "map_sqlx_error e \<in> {Error_Cancelled, Error_FailedRun, Error_LeaseLost,
     Error_IdempotencyConflict, Error_Database e}"
  by (cases e) (simp_all add: map_sqlx_error_def)

subsection \<open>Workflow identities\<close>

record Step =
  step_name :: string

record KeyedStep =
  keyed_step :: Step
  keyed_key :: string

record Sleep =
  sleep_name :: string

definition Step_new :: "string \<Rightarrow> Step" where
  "Step_new name = \<lparr>step_name = name\<rparr>"

definition Step_keyed :: "Step \<Rightarrow> string \<Rightarrow> KeyedStep" where
  "Step_keyed self key = \<lparr>keyed_step = self, keyed_key = key\<rparr>"

definition Sleep_new :: "string \<Rightarrow> Sleep" where
  "Sleep_new name = \<lparr>sleep_name = name\<rparr>"

end
