(* ===== verification/Metrics.thy ===== *)
theory Metrics
  imports Types
begin

section \<open>Queue metrics\<close>

text \<open>
  \<open>src/metrics.rs\<close>: saturating 64-bit counters shared by the clones of a queue handle, and the
  execution guard \<open>TaskExecution\<close> that records one bounded outcome when it is finished and an
  unhandled execution when it is dropped unfinished.
\<close>

record QueueMetrics =
  claimed_runs :: u64
  claim_errors :: u64
  executions :: u64
  completed_executions :: u64
  failed_executions :: u64
  lease_lost_executions :: u64
  cancelled_executions :: u64
  suspended_executions :: u64
  unhandled_executions :: u64
  execution_duration_nanoseconds :: u64

definition QueueMetrics_new :: QueueMetrics where
  "QueueMetrics_new = \<lparr>claimed_runs = 0, claim_errors = 0, executions = 0,
     completed_executions = 0, failed_executions = 0, lease_lost_executions = 0,
     cancelled_executions = 0, suspended_executions = 0, unhandled_executions = 0,
     execution_duration_nanoseconds = 0\<rparr>"

text \<open>\<open>u64::saturating_add\<close>, \<open>QueueMetrics::increment\<close> and \<open>u64::try_from(x).unwrap_or(MAX)\<close>.\<close>

definition increment :: "u64 \<Rightarrow> u64 \<Rightarrow> u64" where
  "increment counter value =
     (if uint counter + uint value < 2 ^ 64 then counter + value else - 1)"

definition clamp_u64 :: "int \<Rightarrow> u64" where
  "clamp_u64 n = (if n < 2 ^ 64 then word_of_int n else - 1)"

definition record_claimed :: "nat \<Rightarrow> QueueMetrics \<Rightarrow> QueueMetrics" where
  "record_claimed count m = m\<lparr>claimed_runs := increment (claimed_runs m) (clamp_u64 (int count))\<rparr>"

definition record_claim_error :: "QueueMetrics \<Rightarrow> QueueMetrics" where
  "record_claim_error m = m\<lparr>claim_errors := increment (claim_errors m) 1\<rparr>"

datatype ExecutionOutcome =
    Outcome_Completed | Outcome_Failed | Outcome_LeaseLost | Outcome_Cancelled | Outcome_Suspended

definition add_elapsed :: "int \<Rightarrow> QueueMetrics \<Rightarrow> QueueMetrics" where
  "add_elapsed elapsed m = m\<lparr>execution_duration_nanoseconds :=
     increment (execution_duration_nanoseconds m) (clamp_u64 elapsed)\<rparr>"

definition bump_outcome :: "ExecutionOutcome \<Rightarrow> QueueMetrics \<Rightarrow> QueueMetrics" where
  "bump_outcome out m =
     (case out of
        Outcome_Completed \<Rightarrow> m\<lparr>completed_executions := increment (completed_executions m) 1\<rparr>
      | Outcome_Failed \<Rightarrow> m\<lparr>failed_executions := increment (failed_executions m) 1\<rparr>
      | Outcome_LeaseLost \<Rightarrow> m\<lparr>lease_lost_executions := increment (lease_lost_executions m) 1\<rparr>
      | Outcome_Cancelled \<Rightarrow> m\<lparr>cancelled_executions := increment (cancelled_executions m) 1\<rparr>
      | Outcome_Suspended \<Rightarrow> m\<lparr>suspended_executions := increment (suspended_executions m) 1\<rparr>)"

text \<open>\<open>TaskExecution::finish\<close> records and marks the guard finished; dropping the guard then
  records nothing more. \<open>elapsed\<close> is the guard's own measurement in nanoseconds.\<close>

record TaskExecution =
  execution_elapsed :: int
  execution_finished :: bool

definition TaskExecution_start :: "int \<Rightarrow> TaskExecution" where
  "TaskExecution_start elapsed = \<lparr>execution_elapsed = elapsed, execution_finished = False\<rparr>"

definition record_outcome :: "TaskExecution \<Rightarrow> ExecutionOutcome \<Rightarrow> QueueMetrics \<Rightarrow> QueueMetrics" where
  "record_outcome self out m =
     add_elapsed (execution_elapsed self)
       (bump_outcome out (m\<lparr>executions := increment (executions m) 1\<rparr>))"

definition drop_execution :: "TaskExecution \<Rightarrow> QueueMetrics \<Rightarrow> QueueMetrics" where
  "drop_execution self m =
     (if execution_finished self then m
      else add_elapsed (execution_elapsed self)
        (m\<lparr>executions := increment (executions m) 1,
           unhandled_executions := increment (unhandled_executions m) 1\<rparr>))"

definition finish_execution ::
    "TaskExecution \<Rightarrow> ExecutionOutcome \<Rightarrow> QueueMetrics \<Rightarrow> QueueMetrics" where
  "finish_execution self out m =
     drop_execution (self\<lparr>execution_finished := True\<rparr>) (record_outcome self out m)"

subsection \<open>Facts\<close>

lemma uint_u64_max [simp]: "uint (- 1 :: u64) = 18446744073709551615"
  by (simp add: unsigned_minus_1_eq_mask mask_eq_exp_minus_1)

lemma uint_increment: "uint (increment c v) = min (uint c + uint v) (2 ^ 64 - 1)"
proof (cases "uint c + uint v < 2 ^ 64")
  case True
  then have "uint (c + v) = uint c + uint v"
    by (simp add: uint_word_ariths)
  with True show ?thesis by (simp add: increment_def min_def)
next
  case False
  then show ?thesis by (simp add: increment_def)
qed

lemma increment_mono: "uint c \<le> uint (increment c v)"
proof -
  have "uint c < 2 ^ 64" using uint_lt2p [of c] by simp
  then show ?thesis by (simp add: uint_increment)
qed

lemma uint_clamp_u64: "0 \<le> n \<Longrightarrow> uint (clamp_u64 n) = min n (2 ^ 64 - 1)"
  by (simp add: clamp_u64_def unsigned_of_int take_bit_int_eq_self min_def)

lemma finish_execution_eq:
  "finish_execution (TaskExecution_start el) out m =
    add_elapsed el (bump_outcome out (m\<lparr>executions := increment (executions m) 1\<rparr>))"
  by (simp add: finish_execution_def TaskExecution_start_def record_outcome_def drop_execution_def)

text \<open>The six counters an execution can end in, in one list.\<close>

definition ended_counters :: "QueueMetrics \<Rightarrow> u64 list" where
  "ended_counters m = [completed_executions m, failed_executions m, lease_lost_executions m,
     cancelled_executions m, suspended_executions m, unhandled_executions m]"

definition ended_total :: "QueueMetrics \<Rightarrow> int" where
  "ended_total m = sum_list (map uint (ended_counters m))"

text \<open>The accounting identity between the total and the per-outcome counters, valid until a
  counter saturates.\<close>

definition metrics_balanced :: "QueueMetrics \<Rightarrow> bool" where
  "metrics_balanced m \<longleftrightarrow> ended_total m = uint (executions m)"

lemma uint_increment_1: "uint c < 2 ^ 64 - 1 \<Longrightarrow> uint (increment c 1) = uint c + 1"
  by (simp add: uint_increment)

lemma ended_counters_bounded:
  assumes "metrics_balanced m" and "uint (executions m) < 2 ^ 64 - 1" and "c \<in> set (ended_counters m)"
  shows "uint c < 2 ^ 64 - 1"
proof -
  have "uint c \<le> ended_total m"
    using assms(3) by (auto simp: ended_total_def ended_counters_def)
  with assms(1,2) show ?thesis by (simp add: metrics_balanced_def)
qed

lemma add_elapsed_counters [simp]:
  "ended_counters (add_elapsed el m) = ended_counters m"
  "executions (add_elapsed el m) = executions m"
  "claimed_runs (add_elapsed el m) = claimed_runs m"
  "claim_errors (add_elapsed el m) = claim_errors m"
  by (simp_all add: add_elapsed_def ended_counters_def)

lemma bump_outcome_fields [simp]:
  "executions (bump_outcome out m) = executions m"
  "unhandled_executions (bump_outcome out m) = unhandled_executions m"
  "claimed_runs (bump_outcome out m) = claimed_runs m"
  "claim_errors (bump_outcome out m) = claim_errors m"
  by (cases out; simp add: bump_outcome_def)+

lemma ended_claims [simp]:
  "claimed_runs (drop_execution (TaskExecution_start el) m) = claimed_runs m"
  "claimed_runs (finish_execution (TaskExecution_start el) out m) = claimed_runs m"
  by (simp add: drop_execution_def TaskExecution_start_def, simp add: finish_execution_eq)

lemma finish_execution_balanced:
  assumes "metrics_balanced m" and "uint (executions m) < 2 ^ 64 - 1"
  shows "metrics_balanced (finish_execution (TaskExecution_start el) out m)
    \<and> uint (executions (finish_execution (TaskExecution_start el) out m)) = uint (executions m) + 1"
proof -
  have "\<forall>c\<in>set (ended_counters m). uint (increment c 1) = uint c + 1"
    using ended_counters_bounded [OF assms] by (blast intro: uint_increment_1)
  then show ?thesis using assms
    by (cases out) (simp_all add: finish_execution_eq metrics_balanced_def ended_total_def
        ended_counters_def bump_outcome_def uint_increment_1 add_elapsed_def)
qed

lemma drop_execution_balanced:
  assumes "metrics_balanced m" and "uint (executions m) < 2 ^ 64 - 1"
  shows "metrics_balanced (drop_execution (TaskExecution_start el) m)
    \<and> uint (executions (drop_execution (TaskExecution_start el) m)) = uint (executions m) + 1"
proof -
  have "\<forall>c\<in>set (ended_counters m). uint (increment c 1) = uint c + 1"
    using ended_counters_bounded [OF assms] by (blast intro: uint_increment_1)
  then show ?thesis using assms
    by (simp add: drop_execution_def TaskExecution_start_def metrics_balanced_def ended_total_def
        ended_counters_def uint_increment_1 add_elapsed_def)
qed

end
