(* ===== verification/Policy.thy ===== *)
theory Policy
  imports Types
begin

section \<open>PostgreSQL and the retry and cancellation policies\<close>

text \<open>
  The pure SQL functions of task submission: \<open>default_retry_strategy\<close>, \<open>retry_delay_seconds\<close>,
  \<open>validate_cancellation_policy\<close> and \<open>cancellation_due\<close> (\<open>sql/steda.sql\<close>). What they and the
  later theories use of the PostgreSQL server itself is collected in the record \<open>pg\<close>, a
  parameter of every SQL definition: the readings of \<open>clock_timestamp()\<close>, the values of
  \<open>uuidv7()\<close>, the match of \<open>'^[[:space:]]*$'\<close>, the rows other sessions hold locked
  (\<open>SKIP LOCKED\<close>), the rows past a \<open>LIMIT\<close> whose predicate the plan still evaluates, double-precision arithmetic and the text of a timestamp. Timestamps are
  microseconds, intervals are numbers of microseconds, and finite doubles are rationals.
\<close>

record pg =
  pg_clock :: "nat \<Rightarrow> int"
  pg_uuid :: "nat \<Rightarrow> uuid"
  pg_blank :: "string \<Rightarrow> bool"
  pg_locked :: "nat \<Rightarrow> uuid \<Rightarrow> bool"
  pg_scans :: "nat \<Rightarrow> uuid \<Rightarrow> bool"
  pg_float8 :: "rat \<Rightarrow> rat option"
  pg_mul :: "rat \<Rightarrow> rat \<Rightarrow> rat option"
  pg_power :: "rat \<Rightarrow> int \<Rightarrow> rat option"
  pg_interval :: "rat \<Rightarrow> int"
  pg_timestamp_text :: "int \<Rightarrow> string"

text \<open>An error raised by the server: its SQLSTATE and its message (for a formatted message, the
  format).\<close>

datatype sql_error = SqlError (sql_state: string) (sql_message: string)

definition raise_exception :: "string \<Rightarrow> sql_error" where
  "raise_exception msg = SqlError ''P0001'' msg"

definition numeric_value_out_of_range :: sql_error where
  "numeric_value_out_of_range = SqlError ''22003'' ''value out of range''"

definition invalid_text_representation :: sql_error where
  "invalid_text_representation = SqlError ''22P02'' ''invalid input syntax''"

lemmas sql_error_defs =
  raise_exception_def numeric_value_out_of_range_def invalid_text_representation_def

subsection \<open>Retry strategies\<close>

definition default_retry_strategy :: json where
  "default_retry_strategy =
     JObj [(''baseSeconds'', JDec 30), (''factor'', JDec 2), (''kind'', JStr ''exponential''),
       (''maxSeconds'', JDec 3600)]"

definition maximum_delay_seconds :: rat where
  "maximum_delay_seconds = 2147483647"

text \<open>\<open>(strategy ->> key)::double precision\<close> under the function's exception handler.\<close>

definition strategy_number :: "pg \<Rightarrow> string \<Rightarrow> json \<Rightarrow> sql_error + rat" where
  "strategy_number pg key strategy =
     (case Option.bind (jget key strategy) jnumber of
        Some q \<Rightarrow>
          (case pg_float8 pg q of
             Some d \<Rightarrow> Inr d
           | None \<Rightarrow> Inl (raise_exception ''retry strategy contains an invalid number''))
      | None \<Rightarrow> Inl (raise_exception ''retry strategy contains an invalid number''))"

definition has_number :: "string \<Rightarrow> json \<Rightarrow> bool" where
  "has_number key strategy \<longleftrightarrow> (case jget key strategy of Some v \<Rightarrow> is_number v | None \<Rightarrow> False)"

definition delay_in_range :: "rat \<Rightarrow> bool" where
  "delay_in_range d \<longleftrightarrow> 0 \<le> d \<and> d \<le> maximum_delay_seconds"

definition fixed_delay :: "pg \<Rightarrow> json \<Rightarrow> sql_error + rat" where
  "fixed_delay pg strategy =
     (if unknown_key [''kind'', ''baseSeconds''] strategy \<noteq> None
      then Inl (raise_exception ''fixed retry strategy does not support key %'')
      else if \<not> jhas ''baseSeconds'' strategy
      then Inl (raise_exception ''fixed retry strategy requires baseSeconds'')
      else if \<not> has_number ''baseSeconds'' strategy
      then Inl (raise_exception ''retry baseSeconds must be a JSON number'')
      else res_bind (strategy_number pg ''baseSeconds'' strategy) (\<lambda>base_seconds.
        if \<not> delay_in_range base_seconds
        then Inl (raise_exception
          ''retry baseSeconds must be finite and between 0 and 2147483647 seconds'')
        else Inr base_seconds))"

text \<open>\<open>least(base_seconds * power(retry_factor, exponent), max_seconds)\<close>, where an arithmetic
  range error (overflow or underflow) of the power or of the product yields \<open>max_seconds\<close>.\<close>

definition backoff :: "pg \<Rightarrow> rat \<Rightarrow> rat \<Rightarrow> rat \<Rightarrow> int \<Rightarrow> rat" where
  "backoff pg base_seconds retry_factor max_seconds exponent =
     (case Option.bind (pg_power pg retry_factor exponent) (pg_mul pg base_seconds) of
        Some d \<Rightarrow> min d max_seconds
      | None \<Rightarrow> max_seconds)"

definition exponential_delay :: "pg \<Rightarrow> json \<Rightarrow> int \<Rightarrow> sql_error + rat" where
  "exponential_delay pg strategy attempt =
     (if unknown_key [''kind'', ''baseSeconds'', ''factor'', ''maxSeconds''] strategy \<noteq> None
      then Inl (raise_exception ''exponential retry strategy does not support key %'')
      else if \<not> jhas ''baseSeconds'' strategy
      then Inl (raise_exception ''exponential retry strategy requires baseSeconds'')
      else if \<not> jhas ''factor'' strategy
      then Inl (raise_exception ''exponential retry strategy requires factor'')
      else if \<not> has_number ''baseSeconds'' strategy
      then Inl (raise_exception ''retry baseSeconds must be a JSON number'')
      else if \<not> has_number ''factor'' strategy
      then Inl (raise_exception ''retry factor must be a JSON number'')
      else if jhas ''maxSeconds'' strategy \<and> \<not> has_number ''maxSeconds'' strategy
      then Inl (raise_exception ''retry maxSeconds must be a JSON number'')
      else
        res_bind (strategy_number pg ''baseSeconds'' strategy) (\<lambda>base_seconds.
        res_bind (strategy_number pg ''factor'' strategy) (\<lambda>retry_factor.
        res_bind (if jhas ''maxSeconds'' strategy then strategy_number pg ''maxSeconds'' strategy
                  else Inr maximum_delay_seconds) (\<lambda>max_seconds.
          if \<not> delay_in_range base_seconds
          then Inl (raise_exception
            ''retry baseSeconds must be finite and between 0 and 2147483647 seconds'')
          else if retry_factor \<le> 0
          then Inl (raise_exception ''retry factor must be finite and greater than zero'')
          else if \<not> delay_in_range max_seconds
          then Inl (raise_exception
            ''retry maxSeconds must be finite and between 0 and 2147483647 seconds'')
          else if base_seconds = 0 \<or> max_seconds = 0 then Inr 0
          else Inr (backoff pg base_seconds retry_factor max_seconds (attempt - 1))))))"

definition retry_delay_seconds :: "pg \<Rightarrow> json \<Rightarrow> int \<Rightarrow> sql_error + rat" where
  "retry_delay_seconds pg strategy attempt =
     (if \<not> is_object strategy
      then Inl (raise_exception ''retry strategy must be a JSON object'')
      else if attempt < 1
      then Inl (raise_exception ''retry attempt must be at least 1'')
      else case Option.bind (jget ''kind'' strategy) jtext of
          None \<Rightarrow> Inl (raise_exception ''retry strategy kind must be a string'')
        | Some retry_kind \<Rightarrow>
            if list_all (\<lambda>c. c = CHR '' '') retry_kind
            then Inl (raise_exception ''retry strategy kind must be provided'')
            else if retry_kind = ''none'' then
              (if unknown_key [''kind''] strategy \<noteq> None
               then Inl (raise_exception ''retry strategy kind none does not support key %'')
               else Inr 0)
            else if retry_kind = ''fixed'' then fixed_delay pg strategy
            else if retry_kind = ''exponential'' then exponential_delay pg strategy attempt
            else Inl (raise_exception ''unsupported retry strategy kind %''))"

subsection \<open>Cancellation policies\<close>

definition cancellation_seconds_ok :: "json \<Rightarrow> bool" where
  "cancellation_seconds_ok v =
     (case jnumber v of
        None \<Rightarrow> False
      | Some q \<Rightarrow> of_int \<lfloor>q\<rfloor> = q \<and> 0 \<le> q \<and> q \<le> of_int i64_max)"

definition check_cancellation_key :: "string \<Rightarrow> json \<Rightarrow> sql_error + unit" where
  "check_cancellation_key key c =
     (case jget key c of
        None \<Rightarrow> Inr ()
      | Some v \<Rightarrow>
          if \<not> is_number v
          then Inl (raise_exception ''cancellation % must be a whole number of seconds'')
          else if \<not> cancellation_seconds_ok v
          then Inl (raise_exception
            ''cancellation % must be a whole number between 0 and 9223372036854775807 seconds'')
          else Inr ())"

definition validate_cancellation_policy :: "json option \<Rightarrow> sql_error + json option" where
  "validate_cancellation_policy c =
     (case c of
        None \<Rightarrow> Inr None
      | Some j \<Rightarrow>
          if j = JNull then Inr None
          else if \<not> is_object j
          then Inl (raise_exception ''cancellation policy must be a JSON object'')
          else if j = JObj []
          then Inl (raise_exception ''cancellation policy must define maxDelay or maxDuration'')
          else if unknown_key [''maxDelay'', ''maxDuration''] j \<noteq> None
          then Inl (raise_exception ''cancellation policy does not support key %'')
          else
            res_bind (check_cancellation_key ''maxDelay'' j) (\<lambda>_.
            res_bind (check_cancellation_key ''maxDuration'' j) (\<lambda>_. Inr (Some j))))"

text \<open>\<open>(policy ->> key)::bigint\<close>: the text of a whole JSON number is a valid \<open>bigint\<close> when it is
  in range; a number with a fractional part, even a zero one, has a text that \<open>bigint\<close> rejects.
  JSON \<open>null\<close> is SQL \<open>NULL\<close>. Stored policies hold numbers only.\<close>

fun json_bigint :: "json \<Rightarrow> sql_error + int option" where
  "json_bigint (JInt i) =
     (if - 9223372036854775808 \<le> i \<and> i \<le> i64_max then Inr (Some i)
      else Inl numeric_value_out_of_range)"
| "json_bigint JNull = Inr None"
| "json_bigint _ = Inl invalid_text_representation"

definition deadline_due :: "string \<Rightarrow> json \<Rightarrow> int \<Rightarrow> int \<Rightarrow> sql_error + bool" where
  "deadline_due key policy since observed_at =
     (case jget key policy of
        None \<Rightarrow> Inr False
      | Some v \<Rightarrow> res_bind (json_bigint v) (\<lambda>limit.
          case limit of
            None \<Rightarrow> Inr False
          | Some s \<Rightarrow> Inr (observed_at - since \<ge> s * 1000000)))"

definition cancellation_due ::
    "json option \<Rightarrow> int \<Rightarrow> int option \<Rightarrow> int \<Rightarrow> sql_error + bool" where
  "cancellation_due c enqueue_at first_started_at observed_at =
     (case c of
        None \<Rightarrow> Inr False
      | Some policy \<Rightarrow>
          (case first_started_at of
             None \<Rightarrow> deadline_due ''maxDelay'' policy enqueue_at observed_at
           | Some started \<Rightarrow> deadline_due ''maxDuration'' policy started observed_at))"

subsection \<open>Facts about retry delays\<close>

text \<open>Double-precision powers and products of non-negative numbers are non-negative.\<close>

definition pg_nonneg :: "pg \<Rightarrow> bool" where
  "pg_nonneg pg \<longleftrightarrow>
     (\<forall>f n p. 0 < f \<longrightarrow> pg_power pg f n = Some p \<longrightarrow> 0 \<le> p)
   \<and> (\<forall>a b c. 0 \<le> a \<longrightarrow> 0 \<le> b \<longrightarrow> pg_mul pg a b = Some c \<longrightarrow> 0 \<le> c)"

lemma backoff_in_range:
  assumes "pg_nonneg pg" and "delay_in_range b" and "0 < f" and "delay_in_range m"
  shows "delay_in_range (backoff pg b f m n)"
proof (cases "Option.bind (pg_power pg f n) (pg_mul pg b)")
  case None
  then show ?thesis using assms(4) by (simp add: backoff_def)
next
  case (Some d)
  then obtain p where "pg_power pg f n = Some p" and "pg_mul pg b p = Some d"
    by (auto simp: bind_eq_Some_conv)
  moreover have "0 \<le> b" using assms(2) by (simp add: delay_in_range_def)
  ultimately have "0 \<le> d" using assms(1,3) unfolding pg_nonneg_def by blast
  then show ?thesis using Some assms(4) by (simp add: backoff_def delay_in_range_def min_def)
qed

lemma fixed_delay_in_range: "fixed_delay pg s = Inr d \<Longrightarrow> delay_in_range d"
  by (auto simp: fixed_delay_def res_bind_eq_Inr split: if_splits)

text \<open>The attempt number plays no part in the validation of an exponential strategy.\<close>

definition exponential_params :: "pg \<Rightarrow> json \<Rightarrow> rat \<Rightarrow> rat \<Rightarrow> rat \<Rightarrow> bool" where
  "exponential_params pg s b f m \<longleftrightarrow>
     unknown_key [''kind'', ''baseSeconds'', ''factor'', ''maxSeconds''] s = None
   \<and> jhas ''baseSeconds'' s \<and> jhas ''factor'' s
   \<and> has_number ''baseSeconds'' s \<and> has_number ''factor'' s
   \<and> (jhas ''maxSeconds'' s \<longrightarrow> has_number ''maxSeconds'' s)
   \<and> strategy_number pg ''baseSeconds'' s = Inr b \<and> strategy_number pg ''factor'' s = Inr f
   \<and> (if jhas ''maxSeconds'' s then strategy_number pg ''maxSeconds'' s
      else Inr maximum_delay_seconds) = Inr m
   \<and> delay_in_range b \<and> 0 < f \<and> delay_in_range m"

lemma exponential_delay_Inr:
  "exponential_delay pg s a = Inr d \<longleftrightarrow>
    (\<exists>b f m. exponential_params pg s b f m
      \<and> ((b = 0 \<or> m = 0) \<and> d = 0 \<or> b \<noteq> 0 \<and> m \<noteq> 0 \<and> d = backoff pg b f m (a - 1)))"
  unfolding exponential_delay_def exponential_params_def
  by (auto simp: res_bind_eq_Inr not_le split: if_splits)

lemma exponential_delay_every_attempt:
  assumes "pg_nonneg pg" and "exponential_delay pg s a = Inr d"
  shows "\<exists>d'. exponential_delay pg s a' = Inr d' \<and> delay_in_range d'"
proof -
  from assms(2) obtain b f m where p: "exponential_params pg s b f m"
    unfolding exponential_delay_Inr by blast
  let ?d = "if b = 0 \<or> m = 0 then 0 else backoff pg b f m (a' - 1)"
  have "delay_in_range b" "0 < f" "delay_in_range m"
    using p by (simp_all add: exponential_params_def)
  then have "delay_in_range ?d"
    using backoff_in_range [OF assms(1)]
    by (simp add: delay_in_range_def maximum_delay_seconds_def)
  moreover have "exponential_delay pg s a' = Inr ?d"
    using p unfolding exponential_delay_Inr by auto
  ultimately show ?thesis by blast
qed

lemma retry_delay_seconds_cases:
  "retry_delay_seconds pg s a = Inr d \<longleftrightarrow>
    is_object s \<and> 1 \<le> a \<and>
    (Option.bind (jget ''kind'' s) jtext = Some ''none'' \<and> unknown_key [''kind''] s = None \<and> d = 0
     \<or> Option.bind (jget ''kind'' s) jtext = Some ''fixed'' \<and> fixed_delay pg s = Inr d
     \<or> Option.bind (jget ''kind'' s) jtext = Some ''exponential'' \<and> exponential_delay pg s a = Inr d)"
  by (auto simp: retry_delay_seconds_def split: option.splits)

lemma retry_delay_every_attempt:
  assumes "pg_nonneg pg" and "retry_delay_seconds pg s a = Inr d" and "1 \<le> a'"
  shows "\<exists>d'. retry_delay_seconds pg s a' = Inr d' \<and> delay_in_range d'"
proof -
  have zero: "delay_in_range 0" by (simp add: delay_in_range_def maximum_delay_seconds_def)
  show ?thesis
    using assms(2,3) zero exponential_delay_every_attempt [OF assms(1)] fixed_delay_in_range
    unfolding retry_delay_seconds_cases by (fastforce simp: retry_delay_seconds_cases)
qed

subsection \<open>Facts about cancellation deadlines\<close>

text \<open>A policy all of whose numbers are whole JSON integers, which is what Rust sends.\<close>

definition whole_policy :: "json option \<Rightarrow> bool" where
  "whole_policy c =
     (case c of
        None \<Rightarrow> True
      | Some j \<Rightarrow> (\<forall>k v. jget k j = Some v \<longrightarrow> (\<exists>i. v = JInt i \<and> 0 \<le> i \<and> i \<le> i64_max)))"

lemma deadline_due_whole:
  assumes "whole_policy (Some j)"
  shows "deadline_due key j since obs =
    Inr (case jget key j of Some (JInt s) \<Rightarrow> obs - since \<ge> s * 1000000 | _ \<Rightarrow> False)"
proof (cases "jget key j")
  case None
  then show ?thesis by (simp add: deadline_due_def)
next
  case (Some v)
  then obtain i where "v = JInt i" "0 \<le> i" "i \<le> i64_max"
    using assms by (auto simp: whole_policy_def)
  then show ?thesis using Some by (simp add: deadline_due_def)
qed

lemma cancellation_due_whole:
  assumes "whole_policy c"
  shows "\<exists>b. cancellation_due c enq started obs = Inr b"
  using assms by (auto simp: cancellation_due_def deadline_due_whole split: option.splits)

text \<open>Once due, a deadline stays due at every later observation.\<close>

lemma cancellation_due_mono:
  assumes "cancellation_due c enq started obs = Inr True" and "obs \<le> obs'"
  shows "cancellation_due c enq started obs' = Inr True"
  using assms
  by (auto simp: cancellation_due_def deadline_due_def res_bind_eq_Inr split: option.splits)

end
