(* ===== verification/Postgres.thy ===== *)
theory Postgres
  imports Policy
begin

section \<open>Queue storage\<close>

text \<open>
  The tables of \<open>sql/steda.sql\<close>: the registry \<open>steda.queues\<close> and, per queue, \<open>tasks_<queue>\<close>,
  \<open>runs_<queue>\<close> and \<open>checkpoints_<queue>\<close>, with their \<open>CHECK\<close>, \<open>UNIQUE\<close>, primary-key and
  foreign-key constraints. A statement is a function of the database that returns a result or an
  error; every write checks the constraints of the tables it writes, and a transaction checks the
  deferred foreign key \<open>tasks(id, last_attempt_run)\<close> before it commits and leaves the tables
  untouched when it fails. The \<open>created_at\<close> columns, which no function reads, are left out. Each function call is one atomic transaction: PostgreSQL's row locks
  (\<open>FOR UPDATE\<close> in run-then-task order) serialise the calls that touch the same task, and rows
  locked by other sessions are skipped through \<open>pg_locked\<close> where the code says \<open>SKIP LOCKED\<close>.
\<close>

subsection \<open>Rows\<close>

record task_row =
  t_id :: uuid
  t_name :: string
  t_params :: json
  t_headers :: "json option"
  t_retry_strategy :: json
  t_initial_max_attempts :: int
  t_max_attempts :: int
  t_cancellation :: "json option"
  t_enqueue_at :: int
  t_first_started_at :: "int option"
  t_state :: TaskState
  t_attempts :: int
  t_last_attempt_run :: uuid
  t_cancelled_at :: "int option"
  t_idempotency_key :: "string option"

record run_row =
  r_id :: uuid
  r_task_id :: uuid
  r_attempt :: int
  r_state :: TaskState
  r_claimed_by :: "string option"
  r_claim_expires_at :: "int option"
  r_available_at :: int
  r_started_at :: "int option"
  r_completed_at :: "int option"
  r_failed_at :: "int option"
  r_result :: "json option"
  r_failure_reason :: "json option"

record checkpoint_row =
  c_task_id :: uuid
  c_name :: string
  c_state :: json

record queue_row =
  q_name :: string
  q_cleanup_ttl :: int
  q_cleanup_limit :: int

record store =
  tasks :: "task_row list"
  runs :: "run_row list"
  checkpoints :: "checkpoint_row list"

text \<open>\<open>seq\<close> counts the values drawn from the server's clock and identifier generator.\<close>

record db =
  queues :: "queue_row list"
  storage :: "(string \<times> store) list"
  seq :: nat

type_synonym 'a sql = "(db, sql_error, 'a) esm"

definition empty_store :: store where
  "empty_store = \<lparr>tasks = [], runs = [], checkpoints = []\<rparr>"

definition empty_db :: db where
  "empty_db = \<lparr>queues = [], storage = [], seq = 0\<rparr>"

subsection \<open>Constraints\<close>

definition check_violation :: sql_error where
  "check_violation = SqlError ''23514'' ''check constraint violated''"

definition unique_violation :: sql_error where
  "unique_violation = SqlError ''23505'' ''unique constraint violated''"

definition foreign_key_violation :: sql_error where
  "foreign_key_violation = SqlError ''23503'' ''foreign key constraint violated''"

definition undefined_table :: sql_error where
  "undefined_table = SqlError ''42P01'' ''relation does not exist''"

definition name_check :: "pg \<Rightarrow> string \<Rightarrow> bool" where
  "name_check pg s \<longleftrightarrow> \<not> pg_blank pg s \<and> length s \<le> 1024"

definition task_check :: "pg \<Rightarrow> task_row \<Rightarrow> bool" where
  "task_check pg t \<longleftrightarrow>
     name_check pg (t_name t)
   \<and> (case t_headers t of None \<Rightarrow> True | Some h \<Rightarrow> is_object h)
   \<and> (case retry_delay_seconds pg (t_retry_strategy t) 1 of Inl _ \<Rightarrow> False | Inr d \<Rightarrow> 0 \<le> d)
   \<and> 1 \<le> t_initial_max_attempts t
   \<and> t_initial_max_attempts t \<le> t_max_attempts t
   \<and> 0 \<le> t_attempts t
   \<and> (t_state t = Cancelled \<longrightarrow> t_cancelled_at t \<noteq> None)
   \<and> (case t_idempotency_key t of None \<Rightarrow> True | Some k \<Rightarrow> name_check pg k)"

definition run_check :: "pg \<Rightarrow> run_row \<Rightarrow> bool" where
  "run_check pg r \<longleftrightarrow>
     1 \<le> r_attempt r
   \<and> (r_state r = Completed \<longrightarrow> r_completed_at r \<noteq> None \<and> r_result r \<noteq> None)
   \<and> (r_state r = Failed \<longrightarrow> r_failed_at r \<noteq> None \<and> r_failure_reason r \<noteq> None)
   \<and> (r_state r = Running \<and> (\<exists>w\<in>set_option (r_claimed_by r). \<not> pg_blank pg w)
        \<and> r_claim_expires_at r \<noteq> None
      \<or> r_state r \<noteq> Running \<and> r_claimed_by r = None \<and> r_claim_expires_at r = None)"

text \<open>\<open>runs_<queue>_one_active_run_index\<close>: one pending, running or sleeping run per task.\<close>

definition active_tasks :: "run_row list \<Rightarrow> uuid list" where
  "active_tasks rs = map r_task_id (filter (\<lambda>r. state_active (r_state r)) rs)"

definition tasks_violation :: "pg \<Rightarrow> task_row list \<Rightarrow> sql_error option" where
  "tasks_violation pg ts =
     (if \<not> list_all (task_check pg) ts then Some check_violation
      else if \<not> distinct (map t_id ts)
        \<or> \<not> distinct (filter (\<lambda>k. k \<noteq> None) (map t_idempotency_key ts)) then Some unique_violation
      else None)"

definition runs_violation :: "pg \<Rightarrow> task_row list \<Rightarrow> run_row list \<Rightarrow> sql_error option" where
  "runs_violation pg ts rs =
     (if \<not> list_all (run_check pg) rs then Some check_violation
      else if \<not> distinct (map r_id rs)
        \<or> \<not> distinct (map (\<lambda>r. (r_task_id r, r_attempt r)) rs)
        \<or> \<not> distinct (active_tasks rs) then Some unique_violation
      else if \<not> set (map r_task_id rs) \<subseteq> set (map t_id ts) then Some foreign_key_violation
      else None)"

definition checkpoints_violation ::
    "pg \<Rightarrow> task_row list \<Rightarrow> checkpoint_row list \<Rightarrow> sql_error option" where
  "checkpoints_violation pg ts cs =
     (if \<not> list_all (\<lambda>c. name_check pg (c_name c)) cs then Some check_violation
      else if \<not> distinct (map (\<lambda>c. (c_task_id c, c_name c)) cs) then Some unique_violation
      else if \<not> set (map c_task_id cs) \<subseteq> set (map t_id ts) then Some foreign_key_violation
      else None)"

definition store_violation :: "pg \<Rightarrow> store \<Rightarrow> sql_error option" where
  "store_violation pg s =
     (case tasks_violation pg (tasks s) of
        Some e \<Rightarrow> Some e
      | None \<Rightarrow>
          (case runs_violation pg (tasks s) (runs s) of
             Some e \<Rightarrow> Some e
           | None \<Rightarrow> checkpoints_violation pg (tasks s) (checkpoints s)))"

text \<open>The deferred foreign key: every task points at one of its own runs.\<close>

definition last_run_exists :: "store \<Rightarrow> bool" where
  "last_run_exists s \<longleftrightarrow>
     list_all (\<lambda>t. list_ex (\<lambda>r. r_task_id r = t_id t \<and> r_id r = t_last_attempt_run t) (runs s)) (tasks s)"

subsection \<open>Statements\<close>

definition current_time :: "pg \<Rightarrow> int sql" where
  "current_time pg = (\<lambda>db. (Inr (pg_clock pg (seq db)), db\<lparr>seq := Suc (seq db)\<rparr>))"

definition uuidv7 :: "pg \<Rightarrow> uuid sql" where
  "uuidv7 pg = (\<lambda>db. (Inr (pg_uuid pg (seq db)), db\<lparr>seq := Suc (seq db)\<rparr>))"

text \<open>The rows other sessions hold locked at this point.\<close>

definition locked_rows :: "pg \<Rightarrow> (uuid \<Rightarrow> bool) sql" where
  "locked_rows pg = egets (\<lambda>db. pg_locked pg (seq db))"

text \<open>The rows past its \<open>LIMIT\<close> on which the plan of the next statement still evaluates the
  predicate (all of them when it sorts, none when it follows an ordered index).\<close>

definition scanned_rows :: "pg \<Rightarrow> (uuid \<Rightarrow> bool) sql" where
  "scanned_rows pg = egets (\<lambda>db. pg_scans pg (seq db))"

definition query :: "string \<Rightarrow> (store \<Rightarrow> 'a) \<Rightarrow> 'a sql" where
  "query q f = (\<lambda>db.
     case map_of (storage db) q of
       None \<Rightarrow> (Inl undefined_table, db)
     | Some s \<Rightarrow> (Inr (f s), db))"

definition put_store :: "string \<Rightarrow> store \<Rightarrow> db \<Rightarrow> db" where
  "put_store q s db = db\<lparr>storage := AList.update q s (storage db)\<rparr>"

definition write_store :: "pg \<Rightarrow> string \<Rightarrow> (store \<Rightarrow> store) \<Rightarrow> unit sql" where
  "write_store pg q g = (\<lambda>db.
     case map_of (storage db) q of
       None \<Rightarrow> (Inl undefined_table, db)
     | Some s \<Rightarrow>
         (case store_violation pg (g s) of
            Some e \<Rightarrow> (Inl e, db)
          | None \<Rightarrow> (Inr (), put_store q (g s) db)))"

definition update_runs :: "pg \<Rightarrow> string \<Rightarrow> (run_row \<Rightarrow> bool) \<Rightarrow> (run_row \<Rightarrow> run_row) \<Rightarrow> unit sql" where
  "update_runs pg q P f = write_store pg q (\<lambda>s. s\<lparr>runs := update_where P f (runs s)\<rparr>)"

definition update_tasks :: "pg \<Rightarrow> string \<Rightarrow> (task_row \<Rightarrow> bool) \<Rightarrow> (task_row \<Rightarrow> task_row) \<Rightarrow> unit sql" where
  "update_tasks pg q P f = write_store pg q (\<lambda>s. s\<lparr>tasks := update_where P f (tasks s)\<rparr>)"

definition insert_run :: "pg \<Rightarrow> string \<Rightarrow> run_row \<Rightarrow> unit sql" where
  "insert_run pg q r = write_store pg q (\<lambda>s. s\<lparr>runs := runs s @ [r]\<rparr>)"

definition select_run :: "string \<Rightarrow> uuid \<Rightarrow> run_row option sql" where
  "select_run q i = query q (\<lambda>s. find_row r_id i (runs s))"

definition select_task :: "string \<Rightarrow> uuid \<Rightarrow> task_row option sql" where
  "select_task q i = query q (\<lambda>s. find_row t_id i (tasks s))"

definition new_run :: "uuid \<Rightarrow> uuid \<Rightarrow> int \<Rightarrow> TaskState \<Rightarrow> int \<Rightarrow> run_row" where
  "new_run i tid att st available = \<lparr>r_id = i, r_task_id = tid, r_attempt = att, r_state = st,
     r_claimed_by = None, r_claim_expires_at = None, r_available_at = available,
     r_started_at = None, r_completed_at = None, r_failed_at = None, r_result = None,
     r_failure_reason = None\<rparr>"

text \<open>\<open>integer\<close> addition raises outside the 32-bit range.\<close>

definition int4_add :: "int \<Rightarrow> int \<Rightarrow> int sql" where
  "int4_add a b = (if - 2147483648 \<le> a + b \<and> a + b \<le> i32_max then ereturn (a + b)
     else eraise numeric_value_out_of_range)"

definition run_txn :: "'a sql \<Rightarrow> 'a sql" where
  "run_txn m = (\<lambda>db.
     case m db of
       (Inl e, db') \<Rightarrow> (Inl e, db\<lparr>seq := seq db'\<rparr>)
     | (Inr x, db') \<Rightarrow>
         if list_all (\<lambda>(q, s). last_run_exists s) (storage db') then (Inr x, db')
         else (Inl foreign_key_violation, db\<lparr>seq := seq db'\<rparr>))"

end
