(* ===== verification/Invariants.thy ===== *)
theory Invariants
  imports Postgres
begin

section \<open>The storage invariant\<close>

text \<open>
  What the functions of \<open>sql/steda.sql\<close> keep true of a queue's tables: the declared constraints
  (\<open>store_ok\<close>), the agreement of every logical task with its runs (\<open>task_consistent\<close>: the run a
  task points at carries the task's state and attempt number, and every other run of the task is
  a failed earlier attempt), and that all identifiers were drawn from the server's generator. The
  lemmas say which single writes keep the constraints and which pairs of writes keep the agreement.
\<close>

definition store_ok :: "pg \<Rightarrow> store \<Rightarrow> bool" where
  "store_ok pg s \<longleftrightarrow> store_violation pg s = None"

lemma store_ok_iff:
  "store_ok pg s \<longleftrightarrow>
     (\<forall>t\<in>set (tasks s). task_check pg t) \<and> distinct (map t_id (tasks s))
   \<and> distinct (filter (\<lambda>k. k \<noteq> None) (map t_idempotency_key (tasks s)))
   \<and> (\<forall>r\<in>set (runs s). run_check pg r) \<and> distinct (map r_id (runs s))
   \<and> distinct (map (\<lambda>r. (r_task_id r, r_attempt r)) (runs s)) \<and> distinct (active_tasks (runs s))
   \<and> r_task_id ` set (runs s) \<subseteq> t_id ` set (tasks s)
   \<and> (\<forall>c\<in>set (checkpoints s). name_check pg (c_name c))
   \<and> distinct (map (\<lambda>c. (c_task_id c, c_name c)) (checkpoints s))
   \<and> c_task_id ` set (checkpoints s) \<subseteq> t_id ` set (tasks s)"
  unfolding store_ok_def store_violation_def tasks_violation_def runs_violation_def
    checkpoints_violation_def list_all_iff
  by (simp split: option.splits) blast

definition runs_of :: "uuid \<Rightarrow> run_row list \<Rightarrow> run_row list" where
  "runs_of tid rs = filter (\<lambda>r. r_task_id r = tid) rs"

definition authoritative :: "task_row \<Rightarrow> run_row \<Rightarrow> bool" where
  "authoritative t r \<longleftrightarrow>
     r_id r = t_last_attempt_run t \<and> r_attempt r = t_attempts t
   \<and> (r_state r = t_state t \<or> t_state t = Cancelled \<and> r_state r = Failed)"

definition superseded :: "task_row \<Rightarrow> run_row \<Rightarrow> bool" where
  "superseded t r \<longleftrightarrow>
     r_id r \<noteq> t_last_attempt_run t \<and> r_state r = Failed \<and> r_attempt r < t_attempts t"

definition task_consistent :: "task_row \<Rightarrow> run_row list \<Rightarrow> bool" where
  "task_consistent t rs \<longleftrightarrow>
     (\<exists>r\<in>set rs. authoritative t r) \<and> (\<forall>r\<in>set rs. authoritative t r \<or> superseded t r)
   \<and> t_attempts t \<le> t_max_attempts t \<and> t_max_attempts t \<le> i32_max"

definition ids_drawn :: "pg \<Rightarrow> nat \<Rightarrow> store \<Rightarrow> bool" where
  "ids_drawn pg n s \<longleftrightarrow>
     t_id ` set (tasks s) \<subseteq> pg_uuid pg ` {..<n} \<and> r_id ` set (runs s) \<subseteq> pg_uuid pg ` {..<n}"

definition store_inv :: "pg \<Rightarrow> nat \<Rightarrow> store \<Rightarrow> bool" where
  "store_inv pg n s \<longleftrightarrow>
     store_ok pg s \<and> (\<forall>t\<in>set (tasks s). task_consistent t (runs_of (t_id t) (runs s)))
   \<and> ids_drawn pg n s"

lemma store_inv_empty: "store_inv pg n empty_store"
  by (simp add: store_inv_def store_ok_iff ids_drawn_def empty_store_def active_tasks_def)

lemma ids_drawn_mono: "ids_drawn pg n s \<Longrightarrow> n \<le> m \<Longrightarrow> ids_drawn pg m s"
  unfolding ids_drawn_def by (meson image_mono lessThan_subset_iff order_trans)

lemma store_inv_mono: "store_inv pg n s \<Longrightarrow> n \<le> m \<Longrightarrow> store_inv pg m s"
  unfolding store_inv_def by (blast intro: ids_drawn_mono)

lemma store_inv_last_run: "store_inv pg n s \<Longrightarrow> last_run_exists s"
  by (fastforce simp: store_inv_def task_consistent_def authoritative_def last_run_exists_def
      list_all_iff list_ex_iff runs_of_def)

subsection \<open>Looking rows up\<close>

lemma set_runs_of: "set (runs_of tid rs) = {r. r \<in> set rs \<and> r_task_id r = tid}"
  by (auto simp: runs_of_def)

lemma store_inv_task_unique:
  "store_inv pg n s \<Longrightarrow> t \<in> set (tasks s) \<Longrightarrow> t' \<in> set (tasks s) \<Longrightarrow> t_id t = t_id t' \<Longrightarrow> t = t'"
  unfolding store_inv_def store_ok_iff by (blast intro: distinct_keyD)

lemma store_inv_run_unique:
  "store_inv pg n s \<Longrightarrow> r \<in> set (runs s) \<Longrightarrow> r' \<in> set (runs s) \<Longrightarrow> r_id r = r_id r' \<Longrightarrow> r = r'"
  unfolding store_inv_def store_ok_iff by (blast intro: distinct_keyD)

lemma store_inv_run_task:
  assumes "store_inv pg n s" and "r \<in> set (runs s)"
  obtains t where "t \<in> set (tasks s)" and "t_id t = r_task_id r"
    and "authoritative t r \<or> superseded t r"
proof -
  from assms have "r_task_id r \<in> t_id ` set (tasks s)"
    unfolding store_inv_def store_ok_iff by blast
  then obtain t where t: "t \<in> set (tasks s)" "t_id t = r_task_id r" by auto
  then have "authoritative t r \<or> superseded t r"
    using assms by (auto simp: store_inv_def task_consistent_def set_runs_of)
  with t show thesis by (rule that)
qed

lemma store_inv_authoritative:
  assumes "store_inv pg n s" and "t \<in> set (tasks s)"
  obtains r where "r \<in> set (runs s)" and "r_task_id r = t_id t" and "authoritative t r"
  using assms by (auto simp: store_inv_def task_consistent_def set_runs_of)

lemma active_run_authoritative:
  "authoritative t r \<or> superseded t r \<Longrightarrow> state_active (r_state r) \<Longrightarrow>
    authoritative t r \<and> r_state r = t_state t"
  by (auto simp: authoritative_def superseded_def)

subsection \<open>Single writes that keep the constraints\<close>

lemma active_tasks_update:
  assumes "\<And>r. r \<in> set rs \<Longrightarrow> P r \<Longrightarrow> r_task_id (f r) = r_task_id r
      \<and> (state_active (r_state (f r)) \<longrightarrow> state_active (r_state r))"
    and "distinct (active_tasks rs)"
  shows "distinct (active_tasks (update_where P f rs))
    \<and> set (active_tasks (update_where P f rs)) \<subseteq> set (active_tasks rs)"
  using assms
proof (induction rs)
  case Nil
  then show ?case by (simp add: active_tasks_def update_where_def)
next
  case (Cons r rs)
  from Cons.prems(2) have d: "distinct (active_tasks rs)"
    by (auto simp: active_tasks_def split: if_splits)
  have "distinct (active_tasks (update_where P f rs))
      \<and> set (active_tasks (update_where P f rs)) \<subseteq> set (active_tasks rs)"
    using Cons.IH Cons.prems(1) d by simp
  moreover have "P r \<Longrightarrow> r_task_id (f r) = r_task_id r
      \<and> (state_active (r_state (f r)) \<longrightarrow> state_active (r_state r))"
    using Cons.prems(1) [of r] by simp
  moreover have "active_tasks (x # xs) =
      (if state_active (r_state x) then [r_task_id x] else []) @ active_tasks xs" for x xs
    by (simp add: active_tasks_def)
  moreover have "update_where P f (r # rs) = (if P r then f r else r) # update_where P f rs"
    by (simp add: update_where_def)
  ultimately show ?case using Cons.prems(2) by (auto split: if_splits)
qed

definition keeps_run_identity :: "(run_row \<Rightarrow> run_row) \<Rightarrow> bool" where
  "keeps_run_identity f \<longleftrightarrow>
     (\<forall>r. r_id (f r) = r_id r \<and> r_task_id (f r) = r_task_id r \<and> r_attempt (f r) = r_attempt r)"

definition keeps_task_identity :: "(task_row \<Rightarrow> task_row) \<Rightarrow> bool" where
  "keeps_task_identity g \<longleftrightarrow>
     (\<forall>t. t_id (g t) = t_id t \<and> t_idempotency_key (g t) = t_idempotency_key t)"

lemma store_ok_update_runs:
  assumes "store_ok pg s" and "keeps_run_identity f"
    and "\<And>r. r \<in> set (runs s) \<Longrightarrow> P r \<Longrightarrow>
      run_check pg (f r) \<and> (state_active (r_state (f r)) \<longrightarrow> state_active (r_state r))"
  shows "store_ok pg (s\<lparr>runs := update_where P f (runs s)\<rparr>)"
proof -
  have "distinct (active_tasks (update_where P f (runs s)))"
    using active_tasks_update [of "runs s" P f] assms
    by (auto simp: store_ok_iff keeps_run_identity_def)
  moreover have "map r_id (update_where P f (runs s)) = map r_id (runs s)"
    "map (\<lambda>r. (r_task_id r, r_attempt r)) (update_where P f (runs s)) =
      map (\<lambda>r. (r_task_id r, r_attempt r)) (runs s)"
    using assms(2) by (simp_all add: keeps_run_identity_def map_update_where)
  ultimately show ?thesis using assms
    unfolding store_ok_iff by (auto simp: set_update_where keeps_run_identity_def)
qed

lemma store_ok_update_tasks:
  assumes "store_ok pg s" and "keeps_task_identity g"
    and "\<And>t. t \<in> set (tasks s) \<Longrightarrow> P t \<Longrightarrow> task_check pg (g t)"
  shows "store_ok pg (s\<lparr>tasks := update_where P g (tasks s)\<rparr>)"
proof -
  have "map t_id (update_where P g (tasks s)) = map t_id (tasks s)"
    "map t_idempotency_key (update_where P g (tasks s)) = map t_idempotency_key (tasks s)"
    using assms(2) by (simp_all add: keeps_task_identity_def map_update_where)
  moreover from this(1) have "t_id ` set (update_where P g (tasks s)) = t_id ` set (tasks s)"
    by (metis list.set_map)
  ultimately show ?thesis using assms unfolding store_ok_iff by (auto simp: set_update_where)
qed

lemma store_ok_insert_run:
  assumes "store_ok pg s" and "run_check pg r"
    and "r_id r \<notin> r_id ` set (runs s)"
    and "r_task_id r \<in> t_id ` set (tasks s)"
    and "\<And>r'. r' \<in> set (runs s) \<Longrightarrow> r_task_id r' = r_task_id r \<Longrightarrow>
      r_attempt r' < r_attempt r \<and> state_terminal (r_state r')"
  shows "store_ok pg (s\<lparr>runs := runs s @ [r]\<rparr>)"
proof -
  have "(r_task_id r, r_attempt r) \<notin> (\<lambda>r. (r_task_id r, r_attempt r)) ` set (runs s)"
    using assms(5) by fastforce
  moreover have "r_task_id r \<notin> set (active_tasks (runs s))"
    using assms(5) by (fastforce simp: active_tasks_def)
  ultimately show ?thesis using assms(1-4)
    unfolding store_ok_iff by (simp add: active_tasks_def)
qed

lemma store_ok_insert_task:
  assumes "store_ok pg s" and "task_check pg t"
    and "t_id t \<notin> t_id ` set (tasks s)"
    and "t_idempotency_key t = None \<or> t_idempotency_key t \<notin> t_idempotency_key ` set (tasks s)"
  shows "store_ok pg (s\<lparr>tasks := tasks s @ [t]\<rparr>)"
  using assms unfolding store_ok_iff by auto

subsection \<open>Writes that keep tasks and runs in agreement\<close>

lemma runs_of_update_where:
  assumes "keeps_run_identity f"
  shows "runs_of tid (update_where P f rs) = update_where P f (runs_of tid rs)"
proof (induction rs)
  case Nil
  then show ?case by (simp add: runs_of_def update_where_def)
next
  case (Cons r rs)
  then show ?case using assms
    by (auto simp: runs_of_def update_where_def keeps_run_identity_def)
qed

lemma update_where_cong_id: "(\<And>r. r \<in> set rs \<Longrightarrow> \<not> P r) \<Longrightarrow> update_where P f rs = rs"
  by (simp add: update_where_def map_idI)

lemma runs_of_append: "runs_of tid (rs @ [r]) = runs_of tid rs @ (if r_task_id r = tid then [r] else [])"
  by (simp add: runs_of_def)

text \<open>A pair of updates, one of runs and one of tasks, keeps every task consistent when it changes
  each task and its authoritative run alike and leaves the superseded runs alone.\<close>

lemma consistent_after_update:
  assumes con: "task_consistent t (runs_of (t_id t) rs)"
    and id: "keeps_run_identity f"
    and t': "t_id t' = t_id t" "t_last_attempt_run t' = t_last_attempt_run t"
      "t_attempts t' = t_attempts t" "t_max_attempts t' = t_max_attempts t"
    and auth: "\<And>r. r \<in> set rs \<Longrightarrow> r_task_id r = t_id t \<Longrightarrow> authoritative t r \<Longrightarrow>
      authoritative t' (if P r then f r else r)"
    and sup: "\<And>r. r \<in> set rs \<Longrightarrow> r_task_id r = t_id t \<Longrightarrow> superseded t r \<Longrightarrow> \<not> P r"
  shows "task_consistent t' (runs_of (t_id t') (update_where P f rs))"
proof -
  have each: "authoritative t' (if P r then f r else r) \<or> superseded t' (if P r then f r else r)"
    if "r \<in> set (runs_of (t_id t) rs)" for r
  proof -
    have r: "r \<in> set rs" "r_task_id r = t_id t" using that by (auto simp: set_runs_of)
    have "authoritative t r \<or> superseded t r" using con that by (auto simp: task_consistent_def)
    moreover have "superseded t' r" if "superseded t r" using that t' by (simp add: superseded_def)
    ultimately show ?thesis using auth [OF r] sup [OF r] by auto
  qed
  from con obtain r where "r \<in> set (runs_of (t_id t) rs)" "authoritative t r"
    by (auto simp: task_consistent_def)
  then have "\<exists>r'\<in>set (update_where P f (runs_of (t_id t) rs)). authoritative t' r'"
    using auth [of r] unfolding update_where_def set_map set_runs_of by blast
  moreover have "\<forall>r'\<in>set (update_where P f (runs_of (t_id t) rs)).
      authoritative t' r' \<or> superseded t' r'"
    using each unfolding update_where_def set_map by blast
  ultimately show ?thesis using con t'
    by (simp add: task_consistent_def runs_of_update_where [OF id])
qed

text \<open>A fresh run appended to a task whose runs have all failed supersedes them.\<close>

lemma consistent_after_new_run:
  assumes failed: "\<And>r. r \<in> set (runs_of tid rs) \<Longrightarrow>
      r_state r = Failed \<and> r_attempt r < r_attempt new \<and> r_id r \<noteq> r_id new"
    and new: "r_task_id new = tid"
    and t': "t_last_attempt_run t' = r_id new" "t_attempts t' = r_attempt new"
      "t_state t' = r_state new" "r_attempt new \<le> t_max_attempts t'" "t_max_attempts t' \<le> i32_max"
  shows "task_consistent t' (runs_of tid (rs @ [new]))"
  using assms by (auto simp: task_consistent_def authoritative_def superseded_def runs_of_append)

text \<open>Replacing one task row, with its runs, keeps the invariant when the new row agrees with the
  task's runs and the runs of every other task are untouched.\<close>

lemma store_inv_replace_task:
  assumes inv: "store_inv pg n s" and ok: "store_ok pg s'" and ids: "ids_drawn pg m s'"
    and ts: "tasks s' = update_where (\<lambda>t. t_id t = tid) g (tasks s)"
    and id: "\<And>t. t_id (g t) = t_id t"
    and other: "\<And>i. i \<noteq> tid \<Longrightarrow> runs_of i (runs s') = runs_of i (runs s)"
    and con: "\<And>t. t \<in> set (tasks s) \<Longrightarrow> t_id t = tid \<Longrightarrow>
      task_consistent (g t) (runs_of tid (runs s'))"
  shows "store_inv pg m s'"
proof -
  have "task_consistent t (runs_of (t_id t) (runs s'))" if t: "t \<in> set (tasks s')" for t
  proof (cases "t_id t = tid")
    case True
    then obtain t0 where "t0 \<in> set (tasks s)" "t_id t0 = tid" "t = g t0"
      using t id unfolding ts set_update_where by auto
    with con True show ?thesis by simp
  next
    case False
    then have "t \<in> set (tasks s)" using t id unfolding ts set_update_where by auto
    with inv False show ?thesis by (simp add: store_inv_def other)
  qed
  with ok ids show ?thesis by (simp add: store_inv_def)
qed

lemma runs_of_update_other:
  assumes "keeps_run_identity f" and "\<And>r. r \<in> set rs \<Longrightarrow> P r \<Longrightarrow> r_task_id r = tid" and "i \<noteq> tid"
  shows "runs_of i (update_where P f rs) = runs_of i rs"
  unfolding runs_of_update_where [OF assms(1)]
  by (rule update_where_cong_id) (use assms(2,3) in \<open>auto simp: set_runs_of\<close>)

subsection \<open>The database\<close>

text \<open>The registry row constraints (\<open>steda.queues\<close>) and the agreement of registry and storage:
  a queue is registered exactly when its tables exist.\<close>

definition queue_check :: "queue_row \<Rightarrow> bool" where
  "queue_check q \<longleftrightarrow> 0 \<le> q_cleanup_ttl q \<and> 1 \<le> q_cleanup_limit q"

definition db_inv :: "pg \<Rightarrow> db \<Rightarrow> bool" where
  "db_inv pg db \<longleftrightarrow>
     distinct (map fst (storage db)) \<and> distinct (map q_name (queues db))
   \<and> fst ` set (storage db) = q_name ` set (queues db)
   \<and> (\<forall>r\<in>set (queues db). queue_check r)
   \<and> (\<forall>(q, s)\<in>set (storage db). store_inv pg (seq db) s)"

lemma db_inv_empty: "db_inv pg empty_db"
  by (simp add: db_inv_def empty_db_def)

lemma db_inv_store: "db_inv pg db \<Longrightarrow> map_of (storage db) q = Some s \<Longrightarrow> store_inv pg (seq db) s"
  by (auto simp: db_inv_def dest: map_of_SomeD)

lemma db_inv_tick: "db_inv pg db \<Longrightarrow> seq db \<le> n \<Longrightarrow> db_inv pg (db\<lparr>seq := n\<rparr>)"
  by (auto simp: db_inv_def intro: store_inv_mono)

lemma put_store_simps [simp]:
  "seq (put_store q s db) = seq db"
  "queues (put_store q s db) = queues db"
  "map_of (storage (put_store q s db)) q = Some s"
  "put_store q s' (put_store q s db) = put_store q s' db"
  "put_store q s (db\<lparr>seq := n\<rparr>) = (put_store q s db)\<lparr>seq := n\<rparr>"
  by (simp_all add: put_store_def update_conv')

lemma put_store_other: "p \<noteq> q \<Longrightarrow> map_of (storage (put_store q s db)) p = map_of (storage db) p"
  by (simp add: put_store_def update_conv')

lemma set_storage_update:
  assumes "distinct (map fst al)"
  shows "set (AList.update q s al) = {(p, u). (p, u) \<in> set al \<and> p \<noteq> q} \<union> {(q, s)}"
  using assms
proof (induction al)
  case (Cons a al)
  then show ?case by (cases a) (force simp: image_iff)
qed simp

lemma db_inv_put:
  assumes inv: "db_inv pg db" and q: "map_of (storage db) q = Some s0"
    and s: "store_inv pg n s" and n: "seq db \<le> n"
  shows "db_inv pg ((put_store q s db)\<lparr>seq := n\<rparr>)"
proof -
  have d: "distinct (map fst (storage db))" using inv by (simp add: db_inv_def)
  have keys: "fst ` set (AList.update q s (storage db)) = fst ` set (storage db)"
    using map_of_SomeD [OF q] by (force simp: dom_update)
  have "\<forall>(p, u)\<in>set (AList.update q s (storage db)). store_inv pg n u"
    using inv s n unfolding set_storage_update [OF d]
    by (auto simp: db_inv_def intro: store_inv_mono)
  with inv keys show ?thesis
    by (simp add: db_inv_def put_store_def distinct_update)
qed

subsection \<open>Statements\<close>

lemma query_success:
  "query q f db = (Inr x, db') \<longleftrightarrow>
     (\<exists>s. map_of (storage db) q = Some s \<and> x = f s \<and> db' = db)"
  by (auto simp: query_def split: option.splits)

lemma write_store_success:
  "write_store pg q g db = (Inr u, db') \<longleftrightarrow>
     (\<exists>s. map_of (storage db) q = Some s \<and> store_ok pg (g s) \<and> db' = put_store q (g s) db)"
  by (auto simp: write_store_def store_ok_def split: option.splits)

lemma write_store_apply:
  "map_of (storage db) q = Some s \<Longrightarrow> store_ok pg (g s) \<Longrightarrow>
    write_store pg q g db = (Inr (), put_store q (g s) db)"
  by (simp add: write_store_def store_ok_def)

lemma current_time_success:
  "current_time pg db = (Inr now, db') \<longleftrightarrow>
     now = pg_clock pg (seq db) \<and> db' = db\<lparr>seq := Suc (seq db)\<rparr>"
  by (auto simp: current_time_def)

lemma uuidv7_success:
  "uuidv7 pg db = (Inr i, db') \<longleftrightarrow> i = pg_uuid pg (seq db) \<and> db' = db\<lparr>seq := Suc (seq db)\<rparr>"
  by (auto simp: uuidv7_def)

lemma int4_add_success:
  "int4_add a b db = (Inr c, db') \<longleftrightarrow>
     c = a + b \<and> - 2147483648 \<le> c \<and> c \<le> i32_max \<and> db' = db"
  by (auto simp: int4_add_def esm_apply)

lemmas sql_success = esm_success query_success write_store_success current_time_success
  uuidv7_success int4_add_success

text \<open>The same facts for a statement followed by the rest of a function.\<close>

lemma sql_steps:
  "ebind (query q f) k db = (Inr y, db') \<longleftrightarrow>
     (\<exists>s. map_of (storage db) q = Some s \<and> k (f s) db = (Inr y, db'))"
  "ebind (current_time pg) k' db = (Inr y, db') \<longleftrightarrow>
     k' (pg_clock pg (seq db)) (db\<lparr>seq := Suc (seq db)\<rparr>) = (Inr y, db')"
  "ebind (uuidv7 pg) k'' db = (Inr y, db') \<longleftrightarrow>
     k'' (pg_uuid pg (seq db)) (db\<lparr>seq := Suc (seq db)\<rparr>) = (Inr y, db')"
  "ebind (elift r) h db = (Inr y, db') \<longleftrightarrow> (\<exists>x. r = Inr x \<and> h x db = (Inr y, db'))"
  "ebind (egets g) h' db = (Inr y, db') \<longleftrightarrow> h' (g db) db = (Inr y, db')"
  "ebind (ereturn x) h'' db = (Inr y, db') \<longleftrightarrow> h'' x db = (Inr y, db')"
  "ebind (int4_add a b) h3 db = (Inr y, db') \<longleftrightarrow>
     - 2147483648 \<le> a + b \<and> a + b \<le> i32_max \<and> h3 (a + b) db = (Inr y, db')"
  "eseq (write_store pg q w) m db = (Inr y, db') \<longleftrightarrow>
     (\<exists>s. map_of (storage db) q = Some s \<and> store_ok pg (w s) \<and> m (put_store q (w s) db) = (Inr y, db'))"
  "eseq (eassert c e) m db = (Inr y, db') \<longleftrightarrow> c \<and> m db = (Inr y, db')"
  unfolding ebind_Inr_iff eseq_Inr_iff sql_success by auto

lemmas statement_defs = select_run_def select_task_def update_runs_def update_tasks_def
  insert_run_def

text \<open>A fresh identifier is not among those drawn before.\<close>

lemma fresh_run_id:
  assumes "inj (pg_uuid pg)" and "store_inv pg n s" and "n \<le> m"
  shows "pg_uuid pg m \<notin> r_id ` set (runs s)"
proof
  assume "pg_uuid pg m \<in> r_id ` set (runs s)"
  then have "pg_uuid pg m \<in> pg_uuid pg ` {..<n}"
    using assms(2) unfolding store_inv_def ids_drawn_def by blast
  then obtain k where "k < n" and "pg_uuid pg m = pg_uuid pg k" by blast
  with injD [OF assms(1), of m k] assms(3) show False by simp
qed

end
