(* ===== verification/RunControl.thy ===== *)
theory RunControl
  imports Invariants
begin

section \<open>Run lifecycle, failure, cancellation and retry\<close>

text \<open>
  The attempt-scoped transitions of \<open>sql/steda.sql\<close>: \<open>lock_attempt_context\<close>,
  \<open>lock_running_attempt\<close>, \<open>complete_run\<close>, \<open>schedule_run\<close>, \<open>fail_run\<close>, \<open>cancel_task\<close> and
  \<open>retry_task\<close>, one definition each, statement by statement.
\<close>

definition sql_validate_queue_name :: "pg \<Rightarrow> string \<Rightarrow> unit sql" where
  "sql_validate_queue_name pg queue_name =
     eseq (eassert (\<not> pg_blank pg queue_name) (raise_exception ''Queue name must be provided''))
       (eassert (length queue_name \<le> 33)
         (raise_exception ''Queue name % is too long (max 33 bytes).''))"

record attempt_context =
  x_task_id :: uuid
  x_attempt :: int
  x_run_state :: TaskState
  x_failure_reason :: "json option"
  x_claimed_by :: "string option"
  x_claim_expires_at :: "int option"
  x_task_state :: TaskState
  x_authoritative_run_id :: uuid
  x_observed_at :: int
  x_enqueue_at :: int
  x_first_started_at :: "int option"
  x_cancellation :: "json option"
  x_retry_strategy :: json
  x_max_attempts :: int

definition attempt_context_of :: "run_row \<Rightarrow> task_row \<Rightarrow> int \<Rightarrow> attempt_context" where
  "attempt_context_of r t now = \<lparr>x_task_id = r_task_id r, x_attempt = r_attempt r,
     x_run_state = r_state r, x_failure_reason = r_failure_reason r, x_claimed_by = r_claimed_by r,
     x_claim_expires_at = r_claim_expires_at r, x_task_state = t_state t,
     x_authoritative_run_id = t_last_attempt_run t, x_observed_at = now,
     x_enqueue_at = t_enqueue_at t, x_first_started_at = t_first_started_at t,
     x_cancellation = t_cancellation t, x_retry_strategy = t_retry_strategy t,
     x_max_attempts = t_max_attempts t\<rparr>"

definition lock_attempt_context :: "pg \<Rightarrow> string \<Rightarrow> uuid \<Rightarrow> attempt_context sql" where
  "lock_attempt_context pg queue_name run_id =
     eseq (sql_validate_queue_name pg queue_name)
     (ebind (select_run queue_name run_id) (\<lambda>run.
       case run of
         None \<Rightarrow> eraise (raise_exception ''Run % not found in queue %'')
       | Some r \<Rightarrow>
           ebind (select_task queue_name (r_task_id r)) (\<lambda>task.
             case task of
               None \<Rightarrow> eraise (raise_exception ''Task % for run % not found in queue %'')
             | Some t \<Rightarrow>
                 ebind (current_time pg) (\<lambda>now. ereturn (attempt_context_of r t now)))))"

definition ST001 :: sql_error where
  "ST001 = SqlError ''ST001'' ''Task has been cancelled''"

definition ST002 :: sql_error where
  "ST002 = SqlError ''ST002'' ''Run % has already failed in queue %''"

definition ST003 :: sql_error where
  "ST003 = SqlError ''ST003'' ''Lease for run % has expired in queue %''"

definition lock_running_attempt :: "pg \<Rightarrow> string \<Rightarrow> uuid \<Rightarrow> bool \<Rightarrow> attempt_context sql" where
  "lock_running_attempt pg queue_name run_id expect_expired_lease =
     ebind (lock_attempt_context pg queue_name run_id) (\<lambda>context.
       if x_run_state context = Cancelled then eraise ST001
       else if x_run_state context = Failed then eraise ST002
       else if x_run_state context \<noteq> Running
         then eraise (raise_exception ''Run % is not currently running in queue %'')
       else if x_task_state context = Cancelled then eraise ST001
       else if x_task_state context \<noteq> Running \<or> x_authoritative_run_id context \<noteq> run_id
         then eraise (raise_exception
           ''Run % is not the authoritative running attempt for task % in queue %'')
       else case x_claim_expires_at context of
           None \<Rightarrow> eraise (raise_exception ''Running run % does not have a finite lease in queue %'')
         | Some expires \<Rightarrow>
             if expect_expired_lease then
               (if expires > x_observed_at context
                then eraise (raise_exception ''Lease for run % has not expired in queue %'')
                else ereturn context)
             else if expires \<le> x_observed_at context then eraise ST003
             else ereturn context)"

definition context_due :: "attempt_context \<Rightarrow> int \<Rightarrow> bool sql" where
  "context_due context observed =
     elift (cancellation_due (x_cancellation context) (x_enqueue_at context)
       (x_first_started_at context) observed)"

definition mark_cancelled :: "int \<Rightarrow> task_row \<Rightarrow> task_row" where
  "mark_cancelled now t = t\<lparr>t_state := Cancelled,
     t_cancelled_at := (case t_cancelled_at t of None \<Rightarrow> Some now | Some c \<Rightarrow> Some c)\<rparr>"

definition cancel_run :: "run_row \<Rightarrow> run_row" where
  "cancel_run r = r\<lparr>r_state := Cancelled, r_claimed_by := None, r_claim_expires_at := None\<rparr>"

definition cancel_task :: "pg \<Rightarrow> string \<Rightarrow> uuid \<Rightarrow> bool sql" where
  "cancel_task pg queue_name task_id =
     ebind (current_time pg) (\<lambda>now_at.
     eseq (sql_validate_queue_name pg queue_name)
     (ebind (select_task queue_name task_id) (\<lambda>task.
       case task of
         None \<Rightarrow> eraise (raise_exception ''Task % not found in queue %'')
       | Some t \<Rightarrow>
           if state_terminal (t_state t) then ereturn False
           else
             eseq (update_tasks pg queue_name (\<lambda>t. t_id t = task_id) (mark_cancelled now_at))
             (eseq (update_runs pg queue_name
               (\<lambda>r. r_task_id r = task_id \<and> state_active (r_state r)) cancel_run)
             (ereturn True)))))"

definition finish_run :: "int \<Rightarrow> json \<Rightarrow> run_row \<Rightarrow> run_row" where
  "finish_run now result r = r\<lparr>r_state := Completed, r_completed_at := Some now,
     r_result := Some result, r_claimed_by := None, r_claim_expires_at := None\<rparr>"

definition complete_run :: "pg \<Rightarrow> string \<Rightarrow> uuid \<Rightarrow> json \<Rightarrow> bool sql" where
  "complete_run pg queue_name run_id result =
     ebind (lock_running_attempt pg queue_name run_id False) (\<lambda>context.
     ebind (context_due context (x_observed_at context)) (\<lambda>due.
       if due then eseq (cancel_task pg queue_name (x_task_id context)) (ereturn False)
       else
         eseq (update_runs pg queue_name (\<lambda>r. r_id r = run_id)
           (finish_run (x_observed_at context) result))
         (eseq (update_tasks pg queue_name (\<lambda>t. t_id t = x_task_id context)
           (\<lambda>t. t\<lparr>t_state := Completed, t_last_attempt_run := run_id\<rparr>))
         (ereturn True))))"

definition sleep_run :: "int \<Rightarrow> run_row \<Rightarrow> run_row" where
  "sleep_run wake_at r = r\<lparr>r_state := Sleeping, r_claimed_by := None, r_claim_expires_at := None,
     r_available_at := wake_at\<rparr>"

definition schedule_run :: "pg \<Rightarrow> string \<Rightarrow> uuid \<Rightarrow> int \<Rightarrow> string sql" where
  "schedule_run pg queue_name run_id wake_at =
     ebind (lock_running_attempt pg queue_name run_id False) (\<lambda>context.
     ebind (context_due context (x_observed_at context)) (\<lambda>due_now.
     ebind (if due_now then ereturn True else context_due context wake_at) (\<lambda>due.
       if due then eseq (cancel_task pg queue_name (x_task_id context)) (ereturn ''cancelled'')
       else if wake_at \<le> x_observed_at context then ereturn ''ready''
       else
         eseq (update_runs pg queue_name (\<lambda>r. r_id r = run_id) (sleep_run wake_at))
         (eseq (update_tasks pg queue_name (\<lambda>t. t_id t = x_task_id context)
           (\<lambda>t. t\<lparr>t_state := Sleeping\<rparr>))
         (ereturn ''suspended'')))))"

definition fail_row :: "int \<Rightarrow> json \<Rightarrow> run_row \<Rightarrow> run_row" where
  "fail_row now reason r = r\<lparr>r_state := Failed, r_failed_at := Some now,
     r_failure_reason := Some reason, r_claimed_by := None, r_claim_expires_at := None\<rparr>"

definition retry_wanted :: "json \<Rightarrow> bool" where
  "retry_wanted strategy \<longleftrightarrow>
     (case Option.bind (jget ''kind'' strategy) jtext of None \<Rightarrow> False | Some k \<Rightarrow> k \<noteq> ''none'')"

definition record_failure :: "TaskState \<Rightarrow> int \<Rightarrow> uuid \<Rightarrow> task_row \<Rightarrow> task_row" where
  "record_failure st attempt last_run t = t\<lparr>t_state := st,
     t_attempts := max (t_attempts t) attempt, t_last_attempt_run := last_run\<rparr>"

text \<open>The time of the next attempt, and the insertion of its run with the update of the task.\<close>

definition retry_at :: "pg \<Rightarrow> int \<Rightarrow> rat \<Rightarrow> int" where
  "retry_at pg observed_at delay =
     (let next_available_at = observed_at + pg_interval pg delay in
      if next_available_at < observed_at then observed_at else next_available_at)"

definition insert_retry :: "pg \<Rightarrow> string \<Rightarrow> attempt_context \<Rightarrow> int \<Rightarrow> int \<Rightarrow> unit sql" where
  "insert_retry pg queue_name context next_attempt next_available_at =
     (let next_task_state =
        (if next_available_at > x_observed_at context then Sleeping else Pending) in
      ebind (uuidv7 pg) (\<lambda>new_run_id.
      eseq (insert_run pg queue_name (new_run new_run_id (x_task_id context) next_attempt
        next_task_state next_available_at))
      (update_tasks pg queue_name (\<lambda>t. t_id t = x_task_id context)
        (record_failure next_task_state next_attempt new_run_id))))"

definition fail_run :: "pg \<Rightarrow> string \<Rightarrow> uuid \<Rightarrow> json \<Rightarrow> bool \<Rightarrow> unit sql" where
  "fail_run pg queue_name run_id reason expect_expired_lease =
     ebind (lock_running_attempt pg queue_name run_id expect_expired_lease) (\<lambda>context.
     ebind (context_due context (x_observed_at context)) (\<lambda>due.
       if due then eseq (cancel_task pg queue_name (x_task_id context)) (ereturn ())
       else
         eseq (update_runs pg queue_name (\<lambda>r. r_id r = run_id)
           (fail_row (x_observed_at context) reason))
         (ebind (int4_add (x_attempt context) 1) (\<lambda>next_attempt.
           if retry_wanted (x_retry_strategy context) \<and> next_attempt \<le> x_max_attempts context then
             ebind (elift (retry_delay_seconds pg (x_retry_strategy context) (x_attempt context))) (\<lambda>delay.
             let next_available_at = retry_at pg (x_observed_at context) delay in
             ebind (context_due context next_available_at) (\<lambda>due_later.
               if due_later then eseq (cancel_task pg queue_name (x_task_id context)) (ereturn ())
               else insert_retry pg queue_name context next_attempt next_available_at))
           else
             update_tasks pg queue_name (\<lambda>t. t_id t = x_task_id context)
               (record_failure Failed (x_attempt context) run_id)))))"

definition reopen_task :: "int \<Rightarrow> uuid \<Rightarrow> task_row \<Rightarrow> task_row" where
  "reopen_task next_attempt new_run_id t = t\<lparr>t_state := Pending, t_attempts := next_attempt,
     t_max_attempts := max (t_max_attempts t) next_attempt, t_last_attempt_run := new_run_id,
     t_cancelled_at := None\<rparr>"

definition retry_task :: "pg \<Rightarrow> string \<Rightarrow> uuid \<Rightarrow> uuid sql" where
  "retry_task pg queue_name task_id =
     ebind (current_time pg) (\<lambda>now_at.
     eseq (sql_validate_queue_name pg queue_name)
     (ebind (select_task queue_name task_id) (\<lambda>task.
       case task of
         None \<Rightarrow> eraise (raise_exception ''Task % not found in queue %'')
       | Some t \<Rightarrow>
           if t_state t \<noteq> Failed
           then eraise (raise_exception ''Task % is not currently failed in queue %'')
           else
             ebind (elift (cancellation_due (t_cancellation t) (t_enqueue_at t)
               (t_first_started_at t) now_at)) (\<lambda>due.
             if due then eraise (raise_exception
               ''Task % cannot be retried in queue %: cancellation deadline has elapsed'')
             else
               ebind (int4_add (t_attempts t) 1) (\<lambda>next_attempt.
               ebind (uuidv7 pg) (\<lambda>new_run_id.
               eseq (insert_run pg queue_name
                 (new_run new_run_id task_id next_attempt Pending now_at))
               (eseq (update_tasks pg queue_name (\<lambda>t. t_id t = task_id)
                 (reopen_task next_attempt new_run_id))
               (ereturn new_run_id))))))))"

subsection \<open>Locking the addressed attempt\<close>

definition queue_name_ok :: "pg \<Rightarrow> string \<Rightarrow> bool" where
  "queue_name_ok pg q \<longleftrightarrow> \<not> pg_blank pg q \<and> length q \<le> 33"

lemma sql_validate_queue_name_success:
  "sql_validate_queue_name pg q db = (Inr u, db') \<longleftrightarrow> queue_name_ok pg q \<and> db' = db"
  by (auto simp: sql_validate_queue_name_def queue_name_ok_def esm_success)

lemma validate_step:
  "eseq (sql_validate_queue_name pg q) m db = (Inr y, db') \<longleftrightarrow>
     queue_name_ok pg q \<and> m db = (Inr y, db')"
  by (auto simp: eseq_Inr_iff sql_validate_queue_name_success)

lemma sql_validate_queue_name_apply:
  "queue_name_ok pg q \<Longrightarrow> sql_validate_queue_name pg q db = (Inr (), db)"
  by (simp add: sql_validate_queue_name_success)

definition running_attempt :: "store \<Rightarrow> uuid \<Rightarrow> run_row \<Rightarrow> task_row \<Rightarrow> int \<Rightarrow> bool" where
  "running_attempt s i r t lease \<longleftrightarrow>
     find_row r_id i (runs s) = Some r \<and> find_row t_id (r_task_id r) (tasks s) = Some t
   \<and> r_state r = Running \<and> t_state t = Running \<and> t_last_attempt_run t = i
   \<and> r_claim_expires_at r = Some lease"

lemma attempt_context_of_sel [simp]:
  "x_task_id (attempt_context_of r t now) = r_task_id r"
  "x_attempt (attempt_context_of r t now) = r_attempt r"
  "x_run_state (attempt_context_of r t now) = r_state r"
  "x_failure_reason (attempt_context_of r t now) = r_failure_reason r"
  "x_claimed_by (attempt_context_of r t now) = r_claimed_by r"
  "x_claim_expires_at (attempt_context_of r t now) = r_claim_expires_at r"
  "x_task_state (attempt_context_of r t now) = t_state t"
  "x_authoritative_run_id (attempt_context_of r t now) = t_last_attempt_run t"
  "x_observed_at (attempt_context_of r t now) = now"
  "x_enqueue_at (attempt_context_of r t now) = t_enqueue_at t"
  "x_first_started_at (attempt_context_of r t now) = t_first_started_at t"
  "x_cancellation (attempt_context_of r t now) = t_cancellation t"
  "x_retry_strategy (attempt_context_of r t now) = t_retry_strategy t"
  "x_max_attempts (attempt_context_of r t now) = t_max_attempts t"
  by (simp_all add: attempt_context_of_def)

definition tick :: "db \<Rightarrow> db" where
  "tick db = db\<lparr>seq := Suc (seq db)\<rparr>"

lemma tick_simps [simp]:
  "storage (tick db) = storage db" "queues (tick db) = queues db" "seq (tick db) = Suc (seq db)"
  by (simp_all add: tick_def)

lemma lock_attempt_context_eval:
  assumes "queue_name_ok pg q" and "map_of (storage db) q = Some s"
    and "find_row r_id i (runs s) = Some r" and "find_row t_id (r_task_id r) (tasks s) = Some t"
  shows "lock_attempt_context pg q i db = (Inr (attempt_context_of r t (pg_clock pg (seq db))), tick db)"
  unfolding lock_attempt_context_def statement_defs
  by (simp add: validate_step sql_steps esm_Inr_iff tick_def assms)

lemma lock_attempt_context_success:
  assumes "lock_attempt_context pg q i db = (Inr x, db')"
  obtains s r t where "queue_name_ok pg q" "map_of (storage db) q = Some s"
    "find_row r_id i (runs s) = Some r" "find_row t_id (r_task_id r) (tasks s) = Some t"
    "x = attempt_context_of r t (pg_clock pg (seq db))" "db' = tick db"
  using assms unfolding lock_attempt_context_def statement_defs
  by (auto simp: validate_step sql_steps esm_Inr_iff tick_def split: option.splits)

lemma lock_running_attempt_eval:
  assumes "queue_name_ok pg q" and "map_of (storage db) q = Some s" and "running_attempt s i r t lease"
    and "expired = (lease \<le> pg_clock pg (seq db))"
  shows "lock_running_attempt pg q i expired db =
    (Inr (attempt_context_of r t (pg_clock pg (seq db))), tick db)"
  using assms lock_attempt_context_eval [OF assms(1,2), of i r t]
  by (simp add: lock_running_attempt_def running_attempt_def ebind_apply esm_apply)

lemma lock_running_attempt_success:
  assumes "lock_running_attempt pg q i expired db = (Inr x, db')"
  obtains s r t lease where "queue_name_ok pg q" "map_of (storage db) q = Some s"
    "running_attempt s i r t lease" "expired = (lease \<le> pg_clock pg (seq db))"
    "x = attempt_context_of r t (pg_clock pg (seq db))" "db' = tick db"
proof -
  from assms obtain u d where u: "lock_attempt_context pg q i db = (Inr u, d)"
    and ok: "x_run_state u = Running" "x_task_state u = Running" "x_authoritative_run_id u = i"
      "\<exists>lease. x_claim_expires_at u = Some lease \<and> expired = (lease \<le> x_observed_at u)"
      "x = u" "db' = d"
    unfolding lock_running_attempt_def ebind_Inr_iff
    by (auto simp: esm_Inr_iff split: if_splits option.splits)
  from u show thesis
  proof (rule lock_attempt_context_success)
    fix s r t
    assume "queue_name_ok pg q" "map_of (storage db) q = Some s"
      "find_row r_id i (runs s) = Some r" "find_row t_id (r_task_id r) (tasks s) = Some t"
      "u = attempt_context_of r t (pg_clock pg (seq db))" "d = tick db"
    with ok that show thesis by (auto simp: running_attempt_def)
  qed
qed

subsection \<open>Cancellation\<close>

definition cancelled_store :: "int \<Rightarrow> uuid \<Rightarrow> store \<Rightarrow> store" where
  "cancelled_store now tid s =
     s\<lparr>tasks := update_where (\<lambda>t. t_id t = tid) (mark_cancelled now) (tasks s),
       runs := update_where (\<lambda>r. r_task_id r = tid \<and> state_active (r_state r)) cancel_run (runs s)\<rparr>"

lemma keeps_identity:
  "keeps_task_identity (mark_cancelled now)" "keeps_run_identity cancel_run"
  "keeps_run_identity (finish_run now res)" "keeps_run_identity (sleep_run wake)"
  "keeps_run_identity (fail_row now reason)"
  by (simp_all add: keeps_task_identity_def keeps_run_identity_def mark_cancelled_def cancel_run_def
      finish_run_def sleep_run_def fail_row_def)

lemma store_ok_mark_cancelled:
  "store_ok pg s \<Longrightarrow>
    store_ok pg (s\<lparr>tasks := update_where (\<lambda>t. t_id t = tid) (mark_cancelled now) (tasks s)\<rparr>)"
  by (rule store_ok_update_tasks [OF _ keeps_identity(1)])
    (auto simp: store_ok_iff task_check_def mark_cancelled_def split: option.splits)

lemma store_ok_cancel_runs:
  "store_ok pg s \<Longrightarrow>
    store_ok pg (s\<lparr>runs := update_where (\<lambda>r. r_task_id r = tid \<and> state_active (r_state r))
      cancel_run (runs s)\<rparr>)"
  by (rule store_ok_update_runs [OF _ keeps_identity(2)])
    (auto simp: store_ok_iff run_check_def cancel_run_def)

lemma store_ok_cancelled: "store_ok pg s \<Longrightarrow> store_ok pg (cancelled_store now tid s)"
  using store_ok_cancel_runs [OF store_ok_mark_cancelled] by (simp add: cancelled_store_def)

lemma cancel_task_eval:
  assumes "queue_name_ok pg q" and "map_of (storage db) q = Some s" and "store_ok pg s"
    and "find_row t_id tid (tasks s) = Some t"
  shows "cancel_task pg q tid db =
    (if state_terminal (t_state t) then (Inr False, tick db)
     else (Inr True, put_store q (cancelled_store (pg_clock pg (seq db)) tid s) (tick db)))"
  unfolding cancel_task_def statement_defs
  using assms store_ok_mark_cancelled [OF assms(3)] store_ok_cancelled [OF assms(3)]
  by (simp add: ebind_apply esm_apply current_time_def query_def sql_validate_queue_name_apply
      write_store_apply cancelled_store_def tick_def)

lemma cancel_task_found:
  assumes "cancel_task pg q tid db = (Inr b, db')"
  obtains s t where "queue_name_ok pg q" "map_of (storage db) q = Some s"
    "find_row t_id tid (tasks s) = Some t"
  using assms unfolding cancel_task_def statement_defs
  by (auto simp: sql_steps validate_step esm_Inr_iff split: option.splits)

lemma cancelled_consistent:
  assumes con: "task_consistent t (runs_of (t_id t) rs)" and "\<not> state_terminal (t_state t)"
  shows "task_consistent (mark_cancelled now t) (runs_of (t_id t)
    (update_where (\<lambda>r. r_task_id r = t_id t \<and> state_active (r_state r)) cancel_run rs))"
proof -
  let ?t = "mark_cancelled now t"
  have "task_consistent ?t (runs_of (t_id ?t)
      (update_where (\<lambda>r. r_task_id r = t_id t \<and> state_active (r_state r)) cancel_run rs))"
    by (rule consistent_after_update [OF con keeps_identity(2)])
      (use assms(2) in \<open>auto simp: mark_cancelled_def authoritative_def superseded_def cancel_run_def\<close>)
  then show ?thesis by (simp add: mark_cancelled_def)
qed

lemma store_inv_cancelled:
  assumes inv: "store_inv pg n s" and t: "find_row t_id tid (tasks s) = Some t"
    and active: "\<not> state_terminal (t_state t)"
  shows "store_inv pg n (cancelled_store now tid s)"
proof (rule store_inv_replace_task [OF inv, where tid = tid and g = "mark_cancelled now"])
  show "store_ok pg (cancelled_store now tid s)"
    using inv by (simp add: store_inv_def store_ok_cancelled)
  show "ids_drawn pg n (cancelled_store now tid s)"
    using inv by (simp add: store_inv_def ids_drawn_def cancelled_store_def image_update_where
        mark_cancelled_def cancel_run_def)
  show "runs_of i (runs (cancelled_store now tid s)) = runs_of i (runs s)" if "i \<noteq> tid" for i
    using that by (auto simp: cancelled_store_def intro!: runs_of_update_other [OF keeps_identity(2)])
  show "task_consistent (mark_cancelled now t') (runs_of tid (runs (cancelled_store now tid s)))"
    if "t' \<in> set (tasks s)" "t_id t' = tid" for t'
  proof -
    have "t' = t" using that find_row_SomeD [OF t] by (auto intro: store_inv_task_unique [OF inv])
    then show ?thesis using cancelled_consistent [of t "runs s" now] inv that active
      by (auto simp: cancelled_store_def store_inv_def)
  qed
qed (simp_all add: cancelled_store_def mark_cancelled_def)

lemma cancel_task_inv:
  assumes "db_inv pg db" and "cancel_task pg q tid db = (Inr b, db')"
  shows "db_inv pg db'"
  using assms(2)
proof (rule cancel_task_found)
  fix s t
  assume q: "queue_name_ok pg q" "map_of (storage db) q = Some s" "find_row t_id tid (tasks s) = Some t"
  have inv: "store_inv pg (seq db) s" using db_inv_store assms(1) q(2) .
  then have "store_ok pg s" by (simp add: store_inv_def)
  note run = cancel_task_eval [OF q(1,2) this q(3)]
  show ?thesis
  proof (cases "state_terminal (t_state t)")
    case True
    then show ?thesis using run assms by (auto simp: tick_def intro: db_inv_tick)
  next
    case False
    have "store_inv pg (Suc (seq db)) (cancelled_store (pg_clock pg (seq db)) tid s)"
      using store_inv_cancelled [OF inv q(3) False] by (rule store_inv_mono) simp
    from db_inv_put [OF assms(1) q(2) this] False run assms(2) show ?thesis
      by (auto simp: tick_def)
  qed
qed

subsection \<open>Updating the authoritative attempt\<close>

lemma running_attemptD:
  assumes "running_attempt s i r t lease"
  shows "r \<in> set (runs s)" "r_id r = i" "t \<in> set (tasks s)" "t_id t = r_task_id r"
  using assms by (auto simp: running_attempt_def dest: find_row_SomeD)

lemma running_attempt_authoritative:
  assumes "store_inv pg n s" and "running_attempt s i r t lease"
  shows "authoritative t r" "r_attempt r = t_attempts t" "task_check pg t" "run_check pg r"
proof -
  note a = running_attemptD [OF assms(2)]
  obtain t' where "t' \<in> set (tasks s)" "t_id t' = r_task_id r" "authoritative t' r \<or> superseded t' r"
    using store_inv_run_task [OF assms(1) a(1)] .
  moreover have "t' = t" using calculation a by (auto intro: store_inv_task_unique [OF assms(1)])
  ultimately show "authoritative t r"
    using assms(2) by (auto simp: running_attempt_def superseded_def)
  then show "r_attempt r = t_attempts t" by (simp add: authoritative_def)
  show "task_check pg t" "run_check pg r" using a assms(1) by (auto simp: store_inv_def store_ok_iff)
qed

lemma store_ok_update_run:
  assumes "store_ok pg s" and "find_row r_id i (runs s) = Some r" and "keeps_run_identity f"
    and "run_check pg (f r)" and "state_active (r_state (f r)) \<longrightarrow> state_active (r_state r)"
  shows "store_ok pg (s\<lparr>runs := update_where (\<lambda>r. r_id r = i) f (runs s)\<rparr>)"
proof (rule store_ok_update_runs [OF assms(1,3)])
  fix r' assume "r' \<in> set (runs s)" "r_id r' = i"
  moreover have "r \<in> set (runs s)" "r_id r = i" using find_row_SomeD [OF assms(2)] by auto
  moreover have "distinct (map r_id (runs s))" using assms(1) by (simp add: store_ok_iff)
  ultimately have "r' = r" by (auto intro: distinct_keyD)
  then show "run_check pg (f r') \<and> (state_active (r_state (f r')) \<longrightarrow> state_active (r_state r'))"
    using assms(4,5) by simp
qed

lemma store_ok_update_task:
  assumes "store_ok pg s" and "t \<in> set (tasks s)" and "keeps_task_identity g" and "task_check pg (g t)"
  shows "store_ok pg (s\<lparr>tasks := update_where (\<lambda>t'. t_id t' = t_id t) g (tasks s)\<rparr>)"
proof (rule store_ok_update_tasks [OF assms(1,3)])
  fix t' assume "t' \<in> set (tasks s)" "t_id t' = t_id t"
  moreover have "distinct (map t_id (tasks s))" using assms(1) by (simp add: store_ok_iff)
  ultimately have "t' = t" using assms(2) by (auto intro: distinct_keyD)
  then show "task_check pg (g t')" using assms(4) by simp
qed

text \<open>One write to the running run and one to its task keep the invariant when they leave the task
  in agreement with the run.\<close>

lemma store_inv_attempt:
  assumes inv: "store_inv pg n s" and att: "running_attempt s i r t lease"
    and f: "keeps_run_identity f" and g: "\<And>t. t_id (g t) = t_id t"
    and s': "s' = s\<lparr>runs := update_where (\<lambda>r. r_id r = i) f (runs s),
      tasks := update_where (\<lambda>t. t_id t = r_task_id r) g (tasks s)\<rparr>"
    and ok: "store_ok pg s'" and agree: "authoritative (g t) (f r)"
    and kept: "t_last_attempt_run (g t) = i" "t_attempts (g t) = t_attempts t"
      "t_max_attempts (g t) = t_max_attempts t"
  shows "store_inv pg n s'"
proof (rule store_inv_replace_task [OF inv ok, where tid = "r_task_id r" and g = g])
  note a = running_attemptD [OF att]
  have i: "r' = r" if "r' \<in> set (runs s)" "r_id r' = i" for r'
    using that a by (auto intro: store_inv_run_unique [OF inv])
  show "ids_drawn pg n s'"
    using inv f g by (simp add: s' store_inv_def ids_drawn_def image_update_where keeps_run_identity_def)
  show "runs_of j (runs s') = runs_of j (runs s)" if "j \<noteq> r_task_id r" for j
    using that i unfolding s' by (auto intro: runs_of_update_other [OF f])
  show "task_consistent (g t') (runs_of (r_task_id r) (runs s'))"
    if "t' \<in> set (tasks s)" "t_id t' = r_task_id r" for t'
  proof -
    have t': "t' = t" using that a by (auto intro: store_inv_task_unique [OF inv])
    have con: "task_consistent t (runs_of (t_id t) (runs s))" 
      using inv a(3) unfolding store_inv_def by blast
    have last: "t_last_attempt_run t = i" using att by (simp add: running_attempt_def)
    have "task_consistent (g t) (runs_of (t_id (g t)) (update_where (\<lambda>r. r_id r = i) f (runs s)))"
    proof (rule consistent_after_update [OF con f])
      fix r' assume r': "r' \<in> set (runs s)" "authoritative t r'"
      then have "r_id r' = i" by (simp add: authoritative_def last)
      then show "authoritative (g t) (if r_id r' = i then f r' else r')" using i r' agree by auto
    qed (auto simp: g kept last superseded_def)
    then show ?thesis using t' a by (simp add: s' g)
  qed
qed (simp_all add: s' g)

subsection \<open>Completion and suspension\<close>

definition completed_store :: "int \<Rightarrow> uuid \<Rightarrow> uuid \<Rightarrow> json \<Rightarrow> store \<Rightarrow> store" where
  "completed_store now i tid res s =
     s\<lparr>runs := update_where (\<lambda>r. r_id r = i) (finish_run now res) (runs s),
       tasks := update_where (\<lambda>t. t_id t = tid)
         (\<lambda>t. t\<lparr>t_state := Completed, t_last_attempt_run := i\<rparr>) (tasks s)\<rparr>"

definition suspended_store :: "int \<Rightarrow> uuid \<Rightarrow> uuid \<Rightarrow> store \<Rightarrow> store" where
  "suspended_store wake i tid s =
     s\<lparr>runs := update_where (\<lambda>r. r_id r = i) (sleep_run wake) (runs s),
       tasks := update_where (\<lambda>t. t_id t = tid) (\<lambda>t. t\<lparr>t_state := Sleeping\<rparr>) (tasks s)\<rparr>"

lemma running_attempt_checks:
  assumes inv: "store_inv pg n s" and att: "running_attempt s i r t lease"
    and f: "keeps_run_identity f" "run_check pg (f r)" and g: "keeps_task_identity g" "task_check pg (g t)"
  shows "store_ok pg (s\<lparr>runs := update_where (\<lambda>r. r_id r = i) f (runs s)\<rparr>)"
    and "store_ok pg (s\<lparr>runs := update_where (\<lambda>r. r_id r = i) f (runs s),
      tasks := update_where (\<lambda>t. t_id t = r_task_id r) g (tasks s)\<rparr>)"
proof -
  have ok: "store_ok pg s" using inv by (simp add: store_inv_def)
  show 1: "store_ok pg (s\<lparr>runs := update_where (\<lambda>r. r_id r = i) f (runs s)\<rparr>)"
    using ok _ f by (rule store_ok_update_run) (use att in \<open>auto simp: running_attempt_def\<close>)
  show "store_ok pg (s\<lparr>runs := update_where (\<lambda>r. r_id r = i) f (runs s),
      tasks := update_where (\<lambda>t. t_id t = r_task_id r) g (tasks s)\<rparr>)"
    using store_ok_update_task [OF 1 _ g] running_attemptD [OF att] by simp
qed

lemma complete_checks:
  assumes inv: "store_inv pg n s" and att: "running_attempt s i r t lease"
  shows "store_ok pg (s\<lparr>runs := update_where (\<lambda>r. r_id r = i) (finish_run now res) (runs s)\<rparr>)"
    and "store_ok pg (completed_store now i (r_task_id r) res s)"
    and "store_inv pg n (completed_store now i (r_task_id r) res s)"
proof -
  note auth = running_attempt_authoritative [OF inv att]
  have f: "run_check pg (finish_run now res r)"
    using auth(4) by (simp add: run_check_def finish_run_def)
  have g: "keeps_task_identity (\<lambda>t. t\<lparr>t_state := Completed, t_last_attempt_run := i\<rparr>)"
    "task_check pg (t\<lparr>t_state := Completed, t_last_attempt_run := i\<rparr>)"
    using auth(3) by (simp_all add: keeps_task_identity_def task_check_def)
  note ok = running_attempt_checks [OF inv att keeps_identity(3) f g]
  show "store_ok pg (s\<lparr>runs := update_where (\<lambda>r. r_id r = i) (finish_run now res) (runs s)\<rparr>)"
    by (rule ok)
  show *: "store_ok pg (completed_store now i (r_task_id r) res s)"
    unfolding completed_store_def by (rule ok)
  show "store_inv pg n (completed_store now i (r_task_id r) res s)"
    by (rule store_inv_attempt [OF inv att keeps_identity(3) _ completed_store_def *])
      (use auth(2) running_attemptD [OF att] in \<open>simp_all add: authoritative_def finish_run_def\<close>)
qed

lemma suspend_checks:
  assumes inv: "store_inv pg n s" and att: "running_attempt s i r t lease"
  shows "store_ok pg (s\<lparr>runs := update_where (\<lambda>r. r_id r = i) (sleep_run wake) (runs s)\<rparr>)"
    and "store_ok pg (suspended_store wake i (r_task_id r) s)"
    and "store_inv pg n (suspended_store wake i (r_task_id r) s)"
proof -
  note auth = running_attempt_authoritative [OF inv att]
  have f: "run_check pg (sleep_run wake r)"
    using auth(4) by (simp add: run_check_def sleep_run_def)
  have g: "keeps_task_identity (\<lambda>t. t\<lparr>t_state := Sleeping\<rparr>)" "task_check pg (t\<lparr>t_state := Sleeping\<rparr>)"
    using auth(3) by (simp_all add: keeps_task_identity_def task_check_def)
  note ok = running_attempt_checks [OF inv att keeps_identity(4) f g]
  show "store_ok pg (s\<lparr>runs := update_where (\<lambda>r. r_id r = i) (sleep_run wake) (runs s)\<rparr>)"
    by (rule ok)
  show *: "store_ok pg (suspended_store wake i (r_task_id r) s)"
    unfolding suspended_store_def by (rule ok)
  show "store_inv pg n (suspended_store wake i (r_task_id r) s)"
    by (rule store_inv_attempt [OF inv att keeps_identity(4) _ suspended_store_def *])
      (use auth(2) running_attemptD [OF att] att in
        \<open>simp_all add: authoritative_def sleep_run_def running_attempt_def\<close>)
qed

text \<open>The deadline of the task of an attempt, as observed at \<open>obs\<close>.\<close>

definition task_due :: "task_row \<Rightarrow> int \<Rightarrow> sql_error + bool" where
  "task_due t obs = cancellation_due (t_cancellation t) (t_enqueue_at t) (t_first_started_at t) obs"

lemma context_due_eval: "context_due (attempt_context_of r t now) obs db = (task_due t obs, db)"
  by (simp add: context_due_def task_due_def esm_apply)

lemma cancel_attempt_eval:
  assumes inv: "db_inv pg db" and q: "queue_name_ok pg q" and s: "map_of (storage db) q = Some s"
    and att: "running_attempt s i r t lease"
  shows "cancel_task pg q (r_task_id r) (tick db) =
    (Inr True, put_store q (cancelled_store (pg_clock pg (Suc (seq db))) (r_task_id r) s)
      (tick (tick db)))"
  using cancel_task_eval [OF q, of "tick db" s "r_task_id r" t] db_inv_store [OF inv s] s att
  by (simp add: running_attempt_def store_inv_def)

lemma complete_run_eval:
  assumes inv: "db_inv pg db" and q: "queue_name_ok pg q" and s: "map_of (storage db) q = Some s"
    and att: "running_attempt s i r t lease" and live: "pg_clock pg (seq db) < lease"
  shows "complete_run pg q i res db =
    (case task_due t (pg_clock pg (seq db)) of
       Inl e \<Rightarrow> (Inl e, tick db)
     | Inr True \<Rightarrow> (Inr False, put_store q
         (cancelled_store (pg_clock pg (Suc (seq db))) (r_task_id r) s) (tick (tick db)))
     | Inr False \<Rightarrow> (Inr True, put_store q
         (completed_store (pg_clock pg (seq db)) i (r_task_id r) res s) (tick db)))"
proof -
  note si = db_inv_store [OF inv s]
  have lock: "lock_running_attempt pg q i False db =
      (Inr (attempt_context_of r t (pg_clock pg (seq db))), tick db)"
    using live by (intro lock_running_attempt_eval [OF q s att]) simp
  note cancel = cancel_attempt_eval [OF inv q s att]
  show ?thesis
    using s complete_checks(1,2) [OF si att, of "pg_clock pg (seq db)" res]
    by (auto simp: complete_run_def ebind_apply esm_apply lock context_due_eval cancel statement_defs
        write_store_apply completed_store_def split: sum.splits bool.splits)
qed

lemma schedule_run_eval:
  assumes inv: "db_inv pg db" and q: "queue_name_ok pg q" and s: "map_of (storage db) q = Some s"
    and att: "running_attempt s i r t lease" and live: "pg_clock pg (seq db) < lease"
  shows "schedule_run pg q i wake db =
    (case res_bind (task_due t (pg_clock pg (seq db)))
        (\<lambda>due. if due then Inr True else task_due t wake) of
       Inl e \<Rightarrow> (Inl e, tick db)
     | Inr True \<Rightarrow> (Inr ''cancelled'', put_store q
         (cancelled_store (pg_clock pg (Suc (seq db))) (r_task_id r) s) (tick (tick db)))
     | Inr False \<Rightarrow>
         (if wake \<le> pg_clock pg (seq db) then (Inr ''ready'', tick db)
          else (Inr ''suspended'', put_store q (suspended_store wake i (r_task_id r) s) (tick db))))"
proof -
  note si = db_inv_store [OF inv s]
  have lock: "lock_running_attempt pg q i False db =
      (Inr (attempt_context_of r t (pg_clock pg (seq db))), tick db)"
    using live by (intro lock_running_attempt_eval [OF q s att]) simp
  note cancel = cancel_attempt_eval [OF inv q s att]
  show ?thesis
    using s suspend_checks(1,2) [OF si att, of wake]
    by (auto simp: schedule_run_def ebind_apply esm_apply lock context_due_eval cancel statement_defs
        write_store_apply suspended_store_def res_bind_def split: sum.splits bool.splits)
qed

subsection \<open>Failure and retry\<close>

definition failed_store :: "int \<Rightarrow> uuid \<Rightarrow> json \<Rightarrow> store \<Rightarrow> store" where
  "failed_store now i reason s =
     s\<lparr>runs := update_where (\<lambda>r. r_id r = i) (fail_row now reason) (runs s)\<rparr>"

definition exhausted_store :: "int \<Rightarrow> uuid \<Rightarrow> json \<Rightarrow> uuid \<Rightarrow> int \<Rightarrow> store \<Rightarrow> store" where
  "exhausted_store now i reason tid att s =
     s\<lparr>runs := update_where (\<lambda>r. r_id r = i) (fail_row now reason) (runs s),
       tasks := update_where (\<lambda>t. t_id t = tid) (record_failure Failed att i) (tasks s)\<rparr>"

definition retried_store ::
    "int \<Rightarrow> uuid \<Rightarrow> json \<Rightarrow> uuid \<Rightarrow> int \<Rightarrow> TaskState \<Rightarrow> int \<Rightarrow> uuid \<Rightarrow> store \<Rightarrow> store" where
  "retried_store now i reason tid att st avail fresh s =
     s\<lparr>runs := update_where (\<lambda>r. r_id r = i) (fail_row now reason) (runs s)
         @ [new_run fresh tid att st avail],
       tasks := update_where (\<lambda>t. t_id t = tid) (record_failure st att fresh) (tasks s)\<rparr>"

lemma keeps_record_failure: "keeps_task_identity (record_failure st att j)"
  by (simp add: keeps_task_identity_def record_failure_def)

lemma task_check_record_failure:
  "task_check pg t \<Longrightarrow> st \<noteq> Cancelled \<Longrightarrow> task_check pg (record_failure st att j t)"
  by (auto simp: task_check_def record_failure_def)

lemma run_check_fail_row: "run_check pg r \<Longrightarrow> run_check pg (fail_row now reason r)"
  by (simp add: run_check_def fail_row_def)

lemma exhausted_checks:
  assumes inv: "store_inv pg n s" and att: "running_attempt s i r t lease"
  shows "store_ok pg (failed_store now i reason s)"
    and "store_ok pg (exhausted_store now i reason (r_task_id r) (r_attempt r) s)"
    and "store_inv pg n (exhausted_store now i reason (r_task_id r) (r_attempt r) s)"
proof -
  note auth = running_attempt_authoritative [OF inv att]
  note ok = running_attempt_checks [OF inv att keeps_identity(5) run_check_fail_row [OF auth(4)]
      keeps_record_failure task_check_record_failure [OF auth(3), of Failed]]
  show "store_ok pg (failed_store now i reason s)"
    unfolding failed_store_def by (rule ok) simp
  show *: "store_ok pg (exhausted_store now i reason (r_task_id r) (r_attempt r) s)"
    unfolding exhausted_store_def by (rule ok) simp
  show "store_inv pg n (exhausted_store now i reason (r_task_id r) (r_attempt r) s)"
    by (rule store_inv_attempt [OF inv att keeps_identity(5) _ exhausted_store_def *])
      (use auth(2) running_attemptD [OF att] in
        \<open>simp_all add: authoritative_def record_failure_def fail_row_def\<close>)
qed

lemma failed_cancelled:
  assumes inv: "store_inv pg n s" and att: "running_attempt s i r t lease"
  shows "cancelled_store now' (r_task_id r) (failed_store now i reason s) =
    s\<lparr>runs := update_where (\<lambda>r. r_id r = i) (fail_row now reason) (runs s),
      tasks := update_where (\<lambda>t. t_id t = r_task_id r) (mark_cancelled now') (tasks s)\<rparr>"
proof -
  have none: "\<not> (r_task_id r' = r_task_id r \<and> state_active (r_state r'))"
    if r': "r' \<in> set (update_where (\<lambda>r. r_id r = i) (fail_row now reason) (runs s))" for r'
  proof (cases "r_id r' = i")
    case True
    then obtain r0 where "r' = fail_row now reason r0" using r' unfolding set_update_where by blast
    then show ?thesis by (simp add: fail_row_def)
  next
    case False
    then have mem: "r' \<in> set (runs s)"
      using r' keeps_identity(5) [of now reason] unfolding set_update_where keeps_run_identity_def by auto
    obtain t' where t': "t' \<in> set (tasks s)" "t_id t' = r_task_id r'"
      "authoritative t' r' \<or> superseded t' r'" using store_inv_run_task [OF inv mem] .
    show ?thesis
    proof
      assume same: "r_task_id r' = r_task_id r \<and> state_active (r_state r')"
      then have "t' = t" using t' running_attemptD [OF att]
        by (auto intro: store_inv_task_unique [OF inv])
      then have "r_id r' = i" using active_run_authoritative [OF t'(3)] same att
        by (simp add: authoritative_def running_attempt_def)
      with False show False by simp
    qed
  qed
  have "update_where (\<lambda>r'. r_task_id r' = r_task_id r \<and> state_active (r_state r')) cancel_run
      (update_where (\<lambda>r. r_id r = i) (fail_row now reason) (runs s)) =
    update_where (\<lambda>r. r_id r = i) (fail_row now reason) (runs s)"
    by (rule update_where_cong_id) (rule none)
  then show ?thesis by (simp add: cancelled_store_def failed_store_def)
qed

lemma failed_cancelled_inv:
  assumes inv: "store_inv pg n s" and att: "running_attempt s i r t lease"
  shows "store_inv pg n (cancelled_store now' (r_task_id r) (failed_store now i reason s))"
proof -
  note auth = running_attempt_authoritative [OF inv att]
  have ok: "store_ok pg (cancelled_store now' (r_task_id r) (failed_store now i reason s))"
    by (intro store_ok_cancelled exhausted_checks(1) [OF inv att])
  show ?thesis
    by (rule store_inv_attempt [OF inv att keeps_identity(5) _ failed_cancelled [OF inv att] ok])
      (use auth(2) running_attemptD [OF att] att in
        \<open>simp_all add: authoritative_def mark_cancelled_def fail_row_def running_attempt_def\<close>)
qed

lemma store_inv_new_attempt:
  assumes inv: "store_inv pg n s" and nm: "n \<le> m" and inj: "inj (pg_uuid pg)"
    and t: "t \<in> set (tasks s)" "t_id t = tid"
    and rs: "store_ok pg (s\<lparr>runs := rs\<rparr>)" "map r_id rs = map r_id (runs s)"
      "\<And>i. i \<noteq> tid \<Longrightarrow> runs_of i rs = runs_of i (runs s)"
      "\<And>r. r \<in> set rs \<Longrightarrow> r_task_id r = tid \<Longrightarrow> r_state r = Failed \<and> r_attempt r \<le> t_attempts t"
    and new: "new = new_run (pg_uuid pg m) tid (t_attempts t + 1) st avail" "st = Pending \<or> st = Sleeping"
    and g: "keeps_task_identity g" "task_check pg (g t)" "t_last_attempt_run (g t) = pg_uuid pg m"
      "t_attempts (g t) = t_attempts t + 1" "t_state (g t) = st"
      "t_attempts t + 1 \<le> t_max_attempts (g t)" "t_max_attempts (g t) \<le> i32_max"
    and s': "s' = s\<lparr>runs := rs @ [new], tasks := update_where (\<lambda>t. t_id t = tid) g (tasks s)\<rparr>"
  shows "store_ok pg (s\<lparr>runs := rs @ [new]\<rparr>)" and "store_ok pg s'" and "store_inv pg (Suc m) s'"
proof -
  have "r_id ` set rs = r_id ` set (runs s)" using rs(2) by (metis list.set_map)
  then have fresh: "pg_uuid pg m \<notin> r_id ` set rs" using fresh_run_id [OF inj inv nm] by simp
  have att: "0 \<le> t_attempts t" using inv t(1) by (auto simp: store_inv_def store_ok_iff task_check_def)
  have new': "run_check pg new" "r_id new = pg_uuid pg m" "r_task_id new = tid"
    "r_attempt new = t_attempts t + 1" "r_state new = st"
    using new(2) att by (auto simp: new(1) new_run_def run_check_def)
  show ins: "store_ok pg (s\<lparr>runs := rs @ [new]\<rparr>)"
    using store_ok_insert_run [OF rs(1) new'(1)] fresh rs(4) t by (force simp: new')
  show ok: "store_ok pg s'"
    using store_ok_update_task [OF ins _ g(1,2)] t by (simp add: s')
  have "ids_drawn pg (Suc m) s" using inv nm by (auto simp: store_inv_def intro: ids_drawn_mono)
  moreover have "r_id ` set (runs s') = insert (pg_uuid pg m) (r_id ` set (runs s))"
    "t_id ` set (tasks s') = t_id ` set (tasks s)"
    using \<open>r_id ` set rs = r_id ` set (runs s)\<close> g(1)
    by (simp_all add: s' new' image_update_where keeps_task_identity_def)
  ultimately have ids: "ids_drawn pg (Suc m) s'" unfolding ids_drawn_def by simp
  show "store_inv pg (Suc m) s'"
  proof (rule store_inv_replace_task [OF inv ok ids, where tid = tid and g = g])
    show "runs_of i (runs s') = runs_of i (runs s)" if "i \<noteq> tid" for i
      using that rs(3) by (simp add: s' runs_of_append new')
    show "task_consistent (g t') (runs_of tid (runs s'))" if "t' \<in> set (tasks s)" "t_id t' = tid" for t'
    proof -
      have "t' = t" using that t by (auto intro: store_inv_task_unique [OF inv])
      moreover have "task_consistent (g t) (runs_of tid (rs @ [new]))"
        by (rule consistent_after_new_run) (use rs(4) fresh g new' in \<open>force simp: set_runs_of\<close>)+
      ultimately show ?thesis by (simp add: s')
    qed
  qed (use g(1) in \<open>simp_all add: s' keeps_task_identity_def\<close>)
qed

lemma failed_runs_superseded:
  assumes inv: "store_inv pg n s" and att: "running_attempt s i r t lease"
    and r': "r' \<in> set (runs (failed_store now i reason s))" "r_task_id r' = r_task_id r"
  shows "r_state r' = Failed \<and> r_attempt r' \<le> t_attempts t"
proof -
  note auth = running_attempt_authoritative [OF inv att]
  note a = running_attemptD [OF att]
  from r'(1) consider r0 where "r0 \<in> set (runs s)" "r_id r0 = i" "r' = fail_row now reason r0"
    | "r' \<in> set (runs s)" "r_id r' \<noteq> i"
    unfolding failed_store_def by (auto simp: set_update_where)
  then show ?thesis
  proof cases
    case 1
    then have "r0 = r" using a by (auto intro: store_inv_run_unique [OF inv])
    then show ?thesis using 1 auth(2) by (simp add: fail_row_def)
  next
    case 2
    obtain t' where t': "t' \<in> set (tasks s)" "t_id t' = r_task_id r'"
      "authoritative t' r' \<or> superseded t' r'" using store_inv_run_task [OF inv 2(1)] .
    then have "t' = t" using a r'(2) by (auto intro: store_inv_task_unique [OF inv])
    then show ?thesis using t'(3) 2(2) att
      by (auto simp: authoritative_def superseded_def running_attempt_def)
  qed
qed

lemma retried_checks:
  assumes inv: "store_inv pg n s" and nm: "n \<le> m" and inj: "inj (pg_uuid pg)"
    and att: "running_attempt s i r t lease"
    and budget: "r_attempt r + 1 \<le> t_max_attempts t" and st: "st = Pending \<or> st = Sleeping"
    and s'_def: "s' = retried_store now i reason (r_task_id r) (r_attempt r + 1) st avail (pg_uuid pg m) s"
  shows "store_ok pg (s\<lparr>runs := runs (failed_store now i reason s)
      @ [new_run (pg_uuid pg m) (r_task_id r) (r_attempt r + 1) st avail]\<rparr>)"
    and "store_ok pg s'" and "store_inv pg (Suc m) s'"
proof -
  let ?rs = "runs (failed_store now i reason s)"
  let ?new = "new_run (pg_uuid pg m) (r_task_id r) (t_attempts t + 1) st avail"
  let ?g = "record_failure st (t_attempts t + 1) (pg_uuid pg m)"
  note auth = running_attempt_authoritative [OF inv att]
  note a = running_attemptD [OF att]
  have con: "task_consistent t (runs_of (t_id t) (runs s))"
    using inv a(3) unfolding store_inv_def by blast
  have ok: "store_ok pg (s\<lparr>runs := ?rs\<rparr>)"
    using exhausted_checks(1) [OF inv att, of now reason] by (simp add: failed_store_def)
  have ids: "map r_id ?rs = map r_id (runs s)"
    using keeps_identity(5) [of now reason]
    by (simp add: failed_store_def map_update_where keeps_run_identity_def)
  have other: "runs_of j ?rs = runs_of j (runs s)" if "j \<noteq> r_task_id r" for j
    unfolding failed_store_def using that a
    by (auto intro!: runs_of_update_other [OF keeps_identity(5)] dest: store_inv_run_unique [OF inv])
  have g: "keeps_task_identity ?g" "task_check pg (?g t)" "t_last_attempt_run (?g t) = pg_uuid pg m"
      "t_attempts (?g t) = t_attempts t + 1" "t_state (?g t) = st"
      "t_attempts t + 1 \<le> t_max_attempts (?g t)" "t_max_attempts (?g t) \<le> i32_max"
    subgoal by (rule keeps_record_failure)
    subgoal using st by (auto intro: task_check_record_failure [OF auth(3)])
    using budget auth(2) con by (simp_all add: record_failure_def task_consistent_def)
  have s': "s' = s\<lparr>runs := ?rs @ [?new], tasks := update_where (\<lambda>t. t_id t = r_task_id r) ?g (tasks s)\<rparr>"
    by (simp add: s'_def retried_store_def failed_store_def auth(2))
  note all = store_inv_new_attempt [OF inv nm inj a(3,4) ok ids other
      failed_runs_superseded [OF inv att] refl st g s']
  show "store_ok pg (s\<lparr>runs := ?rs @ [new_run (pg_uuid pg m) (r_task_id r) (r_attempt r + 1) st avail]\<rparr>)"
    unfolding auth(2) by (rule all(1))
  show "store_ok pg s'" by (rule all(2))
  show "store_inv pg (Suc m) s'" by (rule all(3))
qed

definition retry_due :: "pg \<Rightarrow> task_row \<Rightarrow> run_row \<Rightarrow> bool" where
  "retry_due pg t r \<longleftrightarrow> retry_wanted (t_retry_strategy t) \<and> r_attempt r + 1 \<le> t_max_attempts t"

lemma fail_run_eval:
  assumes inv: "db_inv pg db" and inj: "inj (pg_uuid pg)" and q: "queue_name_ok pg q"
    and s: "map_of (storage db) q = Some s" and att: "running_attempt s i r t lease"
    and lease: "expired = (lease \<le> pg_clock pg (seq db))"
  defines "now \<equiv> pg_clock pg (seq db)" and "tid \<equiv> r_task_id r"
  shows "fail_run pg q i reason expired db =
    (case task_due t now of
       Inl e \<Rightarrow> (Inl e, tick db)
     | Inr True \<Rightarrow> (Inr (), put_store q
         (cancelled_store (pg_clock pg (Suc (seq db))) tid s) (tick (tick db)))
     | Inr False \<Rightarrow>
         if i32_max \<le> r_attempt r
         then (Inl numeric_value_out_of_range, put_store q (failed_store now i reason s) (tick db))
         else if \<not> retry_due pg t r
         then (Inr (), put_store q (exhausted_store now i reason tid (r_attempt r) s) (tick db))
         else
           (case retry_delay_seconds pg (t_retry_strategy t) (r_attempt r) of
              Inl e \<Rightarrow> (Inl e, put_store q (failed_store now i reason s) (tick db))
            | Inr delay \<Rightarrow>
                (case task_due t (retry_at pg now delay) of
                   Inl e \<Rightarrow> (Inl e, put_store q (failed_store now i reason s) (tick db))
                 | Inr True \<Rightarrow> (Inr (), put_store q (cancelled_store (pg_clock pg (Suc (seq db))) tid
                     (failed_store now i reason s)) (tick (tick db)))
                 | Inr False \<Rightarrow> (Inr (), put_store q (retried_store now i reason tid (r_attempt r + 1)
                     (if retry_at pg now delay > now then Sleeping else Pending)
                     (retry_at pg now delay) (pg_uuid pg (Suc (seq db))) s) (tick (tick db))))))"
proof -
  note si = db_inv_store [OF inv s]
  note lock = lock_running_attempt_eval [OF q s att lease]
  note cancel = cancel_attempt_eval [OF inv q s att]
  note exh = exhausted_checks [OF si att, of now reason]
  have tid: "find_row t_id tid (tasks (failed_store now i reason s)) = Some t" "state_active (t_state t)"
    using att by (simp_all add: failed_store_def running_attempt_def tid_def)
  have late: "cancel_task pg q tid (put_store q (failed_store now i reason s) (tick db)) =
      (Inr True, put_store q (cancelled_store (pg_clock pg (Suc (seq db))) tid
        (failed_store now i reason s)) (tick (tick db)))"
    using cancel_task_eval [OF q, of "put_store q (failed_store now i reason s) (tick db)"
        "failed_store now i reason s" tid t] exh(1) tid by (simp add: tick_def)
  have pos: "1 \<le> r_attempt r"
    using running_attempt_authoritative(4) [OF si att] by (simp add: run_check_def)
  have fail: "update_runs pg q (\<lambda>r. r_id r = i) (fail_row now reason) (tick db) =
      (Inr (), put_store q (failed_store now i reason s) (tick db))"
    using s exh(1) by (simp add: update_runs_def write_store_apply failed_store_def)
  have give_up: "update_tasks pg q (\<lambda>t. t_id t = tid) (record_failure Failed (r_attempt r) i)
      (put_store q (failed_store now i reason s) (tick db)) =
      (Inr (), put_store q (exhausted_store now i reason tid (r_attempt r) s) (tick db))"
    using exh(2) unfolding tid_def
    by (simp add: update_tasks_def write_store_apply failed_store_def exhausted_store_def)
  have again: "insert_retry pg q (attempt_context_of r t now) (r_attempt r + 1) avail
      (put_store q (failed_store now i reason s) (tick db)) =
      (Inr (), put_store q (retried_store now i reason tid (r_attempt r + 1)
        (if avail > now then Sleeping else Pending) avail (pg_uuid pg (Suc (seq db))) s) (tick (tick db)))"
    if "r_attempt r + 1 \<le> t_max_attempts t" for avail
    using retried_checks(1,2) [OF si _ inj att that _ refl, of "Suc (seq db)"
        "if avail > now then Sleeping else Pending" now reason avail]
    by (simp add: insert_retry_def Let_def ebind_apply esm_apply uuidv7_def insert_run_def update_tasks_def
        write_store_apply failed_store_def retried_store_def tid_def tick_def split: if_splits)
  show ?thesis
    using pos late cancel
    by (simp add: fail_run_def ebind_apply esm_apply lock context_due_eval Let_def int4_add_def
        retry_due_def fail give_up again now_def [symmetric] tid_def [symmetric]
        split: sum.split bool.split)
qed

lemma attempt_success:
  assumes "lock_running_attempt pg q i expired db = (Inr x, d)" and "db_inv pg db"
  obtains s r t lease where "queue_name_ok pg q" "map_of (storage db) q = Some s"
    "running_attempt s i r t lease" "expired = (lease \<le> pg_clock pg (seq db))"
    "store_inv pg (seq db) s" "x = attempt_context_of r t (pg_clock pg (seq db))"
  using assms(1) by (rule lock_running_attempt_success) (blast intro: that db_inv_store [OF assms(2)])

text \<open>The database after one statement pair: \<open>n\<close> values drawn, one queue's tables replaced.\<close>

lemma db_inv_put_tick:
  assumes "db_inv pg db" and "map_of (storage db) q = Some s0"
  shows "store_inv pg (Suc (seq db)) s \<Longrightarrow> db_inv pg (put_store q s (tick db))"
    and "store_inv pg (Suc (Suc (seq db))) s \<Longrightarrow> db_inv pg (put_store q s (tick (tick db)))"
    and "db_inv pg (tick db)"
  using db_inv_put [OF assms, of "Suc (seq db)" s] db_inv_put [OF assms, of "Suc (Suc (seq db))" s]
    db_inv_tick [OF assms(1), of "Suc (seq db)"]
  by (simp_all add: tick_def)

lemma complete_run_inv:
  assumes inv: "db_inv pg db" and run: "complete_run pg q i res db = (Inr b, db')"
  shows "db_inv pg db'"
proof -
  from run obtain x d where lock: "lock_running_attempt pg q i False db = (Inr x, d)"
    by (auto simp: complete_run_def ebind_Inr_iff)
  from lock inv show ?thesis
  proof (rule attempt_success)
    fix s r t lease
    assume a: "queue_name_ok pg q" "map_of (storage db) q = Some s" "running_attempt s i r t lease"
      "False = (lease \<le> pg_clock pg (seq db))" "store_inv pg (seq db) s"
    have "pg_clock pg (seq db) < lease" using a(4) by simp
    note eval = complete_run_eval [OF inv a(1-3) this, of res]
    have "find_row t_id (r_task_id r) (tasks s) = Some t" "\<not> state_terminal (t_state t)"
      using a(3) by (auto simp: running_attempt_def)
    note cancelled = store_inv_cancelled [OF a(5) this]
    show ?thesis
      using run db_inv_put_tick [OF inv a(2)] store_inv_mono [OF cancelled]
        store_inv_mono [OF complete_checks(3) [OF a(5,3)]]
      unfolding eval by (auto split: sum.splits bool.splits)
  qed
qed

lemma schedule_run_inv:
  assumes inv: "db_inv pg db" and run: "schedule_run pg q i wake db = (Inr b, db')"
  shows "db_inv pg db'"
proof -
  from run obtain x d where lock: "lock_running_attempt pg q i False db = (Inr x, d)"
    by (auto simp: schedule_run_def ebind_Inr_iff)
  from lock inv show ?thesis
  proof (rule attempt_success)
    fix s r t lease
    assume a: "queue_name_ok pg q" "map_of (storage db) q = Some s" "running_attempt s i r t lease"
      "False = (lease \<le> pg_clock pg (seq db))" "store_inv pg (seq db) s"
    have "pg_clock pg (seq db) < lease" using a(4) by simp
    note eval = schedule_run_eval [OF inv a(1-3) this, of wake]
    have "find_row t_id (r_task_id r) (tasks s) = Some t" "\<not> state_terminal (t_state t)"
      using a(3) by (auto simp: running_attempt_def)
    note cancelled = store_inv_cancelled [OF a(5) this]
    show ?thesis
      using run db_inv_put_tick [OF inv a(2)] store_inv_mono [OF cancelled]
        store_inv_mono [OF suspend_checks(3) [OF a(5,3)]]
      unfolding eval by (auto split: sum.splits bool.splits if_splits)
  qed
qed

lemma fail_run_inv:
  assumes inv: "db_inv pg db" and inj: "inj (pg_uuid pg)"
    and run: "fail_run pg q i reason expired db = (Inr b, db')"
  shows "db_inv pg db'"
proof -
  from run obtain x d where lock: "lock_running_attempt pg q i expired db = (Inr x, d)"
    by (auto simp: fail_run_def ebind_Inr_iff)
  from lock inv show ?thesis
  proof (rule attempt_success)
    fix s r t lease
    assume a: "queue_name_ok pg q" "map_of (storage db) q = Some s" "running_attempt s i r t lease"
      "expired = (lease \<le> pg_clock pg (seq db))" "store_inv pg (seq db) s"
    note eval = fail_run_eval [OF inv inj a(1-4), of reason]
    have "find_row t_id (r_task_id r) (tasks s) = Some t" "\<not> state_terminal (t_state t)"
      using a(3) by (auto simp: running_attempt_def)
    note cancelled = store_inv_cancelled [OF a(5) this]
    show ?thesis
      using run db_inv_put_tick [OF inv a(2)] store_inv_mono [OF cancelled]
        store_inv_mono [OF exhausted_checks(3) [OF a(5,3)]]
        store_inv_mono [OF failed_cancelled_inv [OF a(5,3)]]
        retried_checks(3) [OF a(5) _ inj a(3), of "Suc (seq db)"]
      unfolding eval retry_due_def by (auto split: sum.splits bool.splits if_splits)
  qed
qed

definition reopened_store :: "int \<Rightarrow> uuid \<Rightarrow> int \<Rightarrow> uuid \<Rightarrow> store \<Rightarrow> store" where
  "reopened_store now tid att fresh s =
     s\<lparr>runs := runs s @ [new_run fresh tid att Pending now],
       tasks := update_where (\<lambda>t. t_id t = tid) (reopen_task att fresh) (tasks s)\<rparr>"

lemma failed_task_runs:
  assumes "store_inv pg n s" and "t \<in> set (tasks s)" and "t_state t = Failed"
    and "r \<in> set (runs s)" and "r_task_id r = t_id t"
  shows "r_state r = Failed \<and> r_attempt r \<le> t_attempts t"
proof -
  obtain t' where t': "t' \<in> set (tasks s)" "t_id t' = r_task_id r"
    "authoritative t' r \<or> superseded t' r" using store_inv_run_task [OF assms(1,4)] .
  then have "t' = t" using assms by (auto intro: store_inv_task_unique [OF assms(1)])
  then show ?thesis using t'(3) assms(3) by (auto simp: authoritative_def superseded_def)
qed

lemma reopened_checks:
  assumes inv: "store_inv pg n s" and nm: "n \<le> m" and inj: "inj (pg_uuid pg)"
    and t: "find_row t_id tid (tasks s) = Some t" and failed: "t_state t = Failed"
    and small: "t_attempts t + 1 \<le> i32_max"
    and s': "s' = reopened_store now tid (t_attempts t + 1) (pg_uuid pg m) s"
  shows "store_ok pg (s\<lparr>runs := runs s @ [new_run (pg_uuid pg m) tid (t_attempts t + 1) Pending now]\<rparr>)"
    and "store_ok pg s'" and "store_inv pg (Suc m) s'"
proof -
  let ?g = "reopen_task (t_attempts t + 1) (pg_uuid pg m)"
  have mem: "t \<in> set (tasks s)" "t_id t = tid" using find_row_SomeD [OF t] by auto
  have con: "task_consistent t (runs_of (t_id t) (runs s))" and chk: "task_check pg t"
    and ok: "store_ok pg (s\<lparr>runs := runs s\<rparr>)"
    using inv mem(1) unfolding store_inv_def store_ok_iff by auto
  have g: "keeps_task_identity ?g" "task_check pg (?g t)" "t_last_attempt_run (?g t) = pg_uuid pg m"
      "t_attempts (?g t) = t_attempts t + 1" "t_state (?g t) = Pending"
      "t_attempts t + 1 \<le> t_max_attempts (?g t)" "t_max_attempts (?g t) \<le> i32_max"
    using con chk small
    by (auto simp: keeps_task_identity_def reopen_task_def task_check_def task_consistent_def)
  note all = store_inv_new_attempt [OF inv nm inj mem ok refl refl
      failed_task_runs [OF inv mem(1) failed] refl disjI1 [OF refl] g s' [unfolded reopened_store_def],
      unfolded mem(2), simplified]
  show "store_ok pg (s\<lparr>runs := runs s @ [new_run (pg_uuid pg m) tid (t_attempts t + 1) Pending now]\<rparr>)"
    by (rule all(1))
  show "store_ok pg s'" by (rule all(2))
  show "store_inv pg (Suc m) s'" by (rule all(3))
qed

lemma retry_task_eval:
  assumes inv: "db_inv pg db" and inj: "inj (pg_uuid pg)" and q: "queue_name_ok pg q"
    and s: "map_of (storage db) q = Some s" and t: "find_row t_id tid (tasks s) = Some t"
  defines "now \<equiv> pg_clock pg (seq db)" and "fresh \<equiv> pg_uuid pg (Suc (seq db))"
  shows "retry_task pg q tid db =
    (if t_state t \<noteq> Failed
     then (Inl (raise_exception ''Task % is not currently failed in queue %''), tick db)
     else case task_due t now of
       Inl e \<Rightarrow> (Inl e, tick db)
     | Inr True \<Rightarrow> (Inl (raise_exception
         ''Task % cannot be retried in queue %: cancellation deadline has elapsed''), tick db)
     | Inr False \<Rightarrow>
         if i32_max \<le> t_attempts t then (Inl numeric_value_out_of_range, tick db)
         else (Inr fresh, put_store q (reopened_store now tid (t_attempts t + 1) fresh s)
           (tick (tick db))))"
proof -
  note si = db_inv_store [OF inv s]
  have "0 \<le> t_attempts t"
    using si find_row_SomeD [OF t] by (auto simp: store_inv_def store_ok_iff task_check_def)
  moreover have "store_ok pg (s\<lparr>runs := runs s @ [new_run fresh tid (t_attempts t + 1) Pending now]\<rparr>)"
    "store_ok pg (reopened_store now tid (t_attempts t + 1) fresh s)"
    if "t_state t = Failed" "\<not> i32_max \<le> t_attempts t"
    using reopened_checks(1,2) [OF si _ inj t that(1) _ refl, of "Suc (seq db)" now] that(2)
    by (simp_all add: fresh_def)
  ultimately show ?thesis
    using s t
    by (simp add: retry_task_def statement_defs ebind_apply esm_apply current_time_def uuidv7_def
        query_def sql_validate_queue_name_apply [OF q] write_store_apply int4_add_def task_due_def
        now_def fresh_def reopened_store_def tick_def split: sum.split bool.split)
qed

lemma retry_task_inv:
  assumes inv: "db_inv pg db" and inj: "inj (pg_uuid pg)" and run: "retry_task pg q tid db = (Inr i, db')"
  shows "db_inv pg db'"
proof -
  from run obtain s t where a: "queue_name_ok pg q" "map_of (storage db) q = Some s"
    "find_row t_id tid (tasks s) = Some t"
    unfolding retry_task_def statement_defs
    by (auto simp: sql_steps validate_step esm_Inr_iff split: option.splits)
  note eval = retry_task_eval [OF inv inj a]
  show ?thesis
    using run db_inv_put_tick [OF inv a(2)]
      reopened_checks(3) [OF db_inv_store [OF inv a(2)] _ inj a(3) _ _ refl, of "Suc (seq db)"]
    unfolding eval by (auto split: sum.splits bool.splits if_splits)
qed

end
