(* ===== verification/Submission.thy ===== *)
theory Submission
  imports RunControl
begin

section \<open>Task submission and result reads\<close>

text \<open>
  \<open>steda.spawn_task\<close> and \<open>steda.get_task_result\<close> of \<open>sql/steda.sql\<close>: option parsing, the insert
  with \<open>ON CONFLICT (idempotency_key) DO NOTHING\<close>, the comparison of a replayed request with
  the stored one, and the join that exposes a task's authoritative outcome.
\<close>

definition ST004 :: sql_error where
  "ST004 = SqlError ''ST004'' ''Idempotency key % was already used for a different task request''"

subsection \<open>Spawn options\<close>

definition spawn_headers :: "json \<Rightarrow> sql_error + json option" where
  "spawn_headers options =
     (case jget ''headers'' options of
        None \<Rightarrow> Inr None
      | Some h \<Rightarrow>
          if h = JNull \<or> h = JObj [] then Inr None
          else if \<not> is_object h then Inl (raise_exception ''headers must be a JSON object'')
          else Inr (Some h))"

definition spawn_max_attempts :: "json \<Rightarrow> sql_error + int option" where
  "spawn_max_attempts options =
     (case jget ''maxAttempts'' options of
        None \<Rightarrow> Inr None
      | Some v \<Rightarrow>
          (case jnumber v of
             None \<Rightarrow> Inl (raise_exception ''maxAttempts must be a JSON integer'')
           | Some q \<Rightarrow>
               if of_int \<lfloor>q\<rfloor> \<noteq> q \<or> q < 1 \<or> q > of_int i32_max
               then Inl (raise_exception ''maxAttempts must be an integer between 1 and 2147483647'')
               else Inr (Some \<lfloor>q\<rfloor>)))"

definition spawn_idempotency_key :: "json \<Rightarrow> sql_error + string option" where
  "spawn_idempotency_key options =
     (case jget ''idempotencyKey'' options of
        None \<Rightarrow> Inr None
      | Some v \<Rightarrow>
          (case jtext v of
             None \<Rightarrow> Inl (raise_exception ''idempotencyKey must be a JSON string'')
           | Some k \<Rightarrow> Inr (Some k)))"

definition check_idempotency_key :: "pg \<Rightarrow> string option \<Rightarrow> sql_error + unit" where
  "check_idempotency_key pg key =
     (case key of
        None \<Rightarrow> Inr ()
      | Some k \<Rightarrow>
          if pg_blank pg k then Inl (raise_exception ''idempotency_key must not be empty'')
          else if length k > 1024
          then Inl (raise_exception ''idempotency_key must be at most 1024 bytes'')
          else Inr ())"

text \<open>The validated request: what an idempotency key identifies.\<close>

record spawn_request =
  q_task_name :: string
  q_params :: json
  q_headers :: "json option"
  q_retry_strategy :: json
  q_maximum_attempts :: int
  q_cancellation :: "json option"
  q_idempotency_key :: "string option"

definition parse_spawn_request ::
    "pg \<Rightarrow> string \<Rightarrow> json option \<Rightarrow> json option \<Rightarrow> sql_error + spawn_request" where
  "parse_spawn_request pg task_name params spawn_options =
     (let options = (case spawn_options of None \<Rightarrow> JObj [] | Some opts \<Rightarrow> opts) in
      if \<not> is_object options then Inl (raise_exception ''spawn options must be a JSON object'')
      else if unknown_key [''headers'', ''maxAttempts'', ''retryStrategy'', ''cancellation'',
        ''idempotencyKey''] options \<noteq> None
      then Inl (raise_exception ''spawn options do not support key %'')
      else if pg_blank pg task_name then Inl (raise_exception ''task_name must be provided'')
      else if length task_name > 1024
      then Inl (raise_exception ''task_name must be at most 1024 bytes'')
      else
        res_bind (spawn_headers options) (\<lambda>task_headers.
        res_bind (spawn_max_attempts options) (\<lambda>maximum_attempts.
        res_bind (validate_cancellation_policy (jget ''cancellation'' options)) (\<lambda>cancellation_policy.
        res_bind (spawn_idempotency_key options) (\<lambda>key.
        res_bind (check_idempotency_key pg key) (\<lambda>_.
        let task_retry_strategy =
          (case jget ''retryStrategy'' options of
             None \<Rightarrow> default_retry_strategy | Some strategy \<Rightarrow> strategy) in
        res_bind (retry_delay_seconds pg task_retry_strategy 1) (\<lambda>_.
        Inr \<lparr>q_task_name = task_name,
             q_params = (case params of None \<Rightarrow> JNull | Some p \<Rightarrow> p),
             q_headers = task_headers, q_retry_strategy = task_retry_strategy,
             q_maximum_attempts = (case maximum_attempts of None \<Rightarrow> 5 | Some n \<Rightarrow> n),
             q_cancellation = cancellation_policy, q_idempotency_key = key\<rparr>)))))))"

subsection \<open>Insertion\<close>

definition task_of_request :: "spawn_request \<Rightarrow> uuid \<Rightarrow> uuid \<Rightarrow> int \<Rightarrow> task_row" where
  "task_of_request rq tid rid now = \<lparr>t_id = tid, t_name = q_task_name rq, t_params = q_params rq,
     t_headers = q_headers rq, t_retry_strategy = q_retry_strategy rq,
     t_initial_max_attempts = q_maximum_attempts rq, t_max_attempts = q_maximum_attempts rq,
     t_cancellation = q_cancellation rq, t_enqueue_at = now, t_first_started_at = None,
     t_state = Pending, t_attempts = 1, t_last_attempt_run = rid, t_cancelled_at = None,
     t_idempotency_key = q_idempotency_key rq\<rparr>"

text \<open>\<open>INSERT \<dots> ON CONFLICT (idempotency_key) DO NOTHING\<close>; the result says whether a row was
  inserted.\<close>

definition key_used :: "string option \<Rightarrow> task_row list \<Rightarrow> bool" where
  "key_used k ts \<longleftrightarrow> k \<noteq> None \<and> k \<in> set (map t_idempotency_key ts)"

definition insert_task :: "pg \<Rightarrow> string \<Rightarrow> task_row \<Rightarrow> bool sql" where
  "insert_task pg q t =
     ebind (query q (\<lambda>s. key_used (t_idempotency_key t) (tasks s))) (\<lambda>conflict.
       if \<not> task_check pg t then eraise check_violation
       else if conflict then ereturn False
       else eseq (write_store pg q (\<lambda>s. s\<lparr>tasks := tasks s @ [t]\<rparr>)) (ereturn True))"

definition same_request :: "spawn_request \<Rightarrow> task_row \<Rightarrow> bool" where
  "same_request rq t \<longleftrightarrow>
     t_name t = q_task_name rq \<and> jsonb_eq (t_params t) (q_params rq)
   \<and> \<not> jsonb_distinct (t_headers t) (q_headers rq)
   \<and> jsonb_eq (t_retry_strategy t) (q_retry_strategy rq)
   \<and> t_initial_max_attempts t = q_maximum_attempts rq
   \<and> \<not> jsonb_distinct (t_cancellation t) (q_cancellation rq)"

definition resolve_conflict :: "string \<Rightarrow> spawn_request \<Rightarrow> (uuid \<times> bool) sql" where
  "resolve_conflict queue_name rq =
     (case q_idempotency_key rq of
        None \<Rightarrow> eraise (raise_exception
          ''Task insert unexpectedly conflicted without an idempotency key'')
      | Some k \<Rightarrow>
          ebind (query queue_name (\<lambda>s. find_row t_idempotency_key (Some k) (tasks s))) (\<lambda>existing.
            case existing of
              None \<Rightarrow> eraise ST004
            | Some t \<Rightarrow> if same_request rq t then ereturn (t_id t, False) else eraise ST004))"

definition spawn_task ::
    "pg \<Rightarrow> string \<Rightarrow> string \<Rightarrow> json option \<Rightarrow> json option \<Rightarrow> (uuid \<times> bool) sql" where
  "spawn_task pg queue_name task_name params spawn_options =
     ebind (uuidv7 pg) (\<lambda>resolved_task_id.
     ebind (uuidv7 pg) (\<lambda>initial_run_id.
     ebind (current_time pg) (\<lambda>now_at.
     eseq (sql_validate_queue_name pg queue_name)
     (ebind (elift (parse_spawn_request pg task_name params spawn_options)) (\<lambda>rq.
     ebind (insert_task pg queue_name (task_of_request rq resolved_task_id initial_run_id now_at)) (\<lambda>inserted.
       if \<not> inserted then resolve_conflict queue_name rq
       else
         eseq (insert_run pg queue_name (new_run initial_run_id resolved_task_id 1 Pending now_at))
         (ereturn (resolved_task_id, True))))))))"

subsection \<open>Result reads\<close>

record result_row =
  res_task_name :: string
  res_state :: TaskState
  res_result :: "json option"
  res_failure_reason :: "json option"

definition result_of :: "store \<Rightarrow> task_row \<Rightarrow> result_row" where
  "result_of s t =
     (let run = find_row r_id (t_last_attempt_run t) (runs s) in
      \<lparr>res_task_name = t_name t, res_state = t_state t,
       res_result = (if t_state t = Completed then Option.bind run r_result else None),
       res_failure_reason = (if t_state t = Failed then Option.bind run r_failure_reason else None)\<rparr>)"

definition get_task_result :: "pg \<Rightarrow> string \<Rightarrow> uuid \<Rightarrow> result_row option sql" where
  "get_task_result pg queue_name task_id =
     eseq (sql_validate_queue_name pg queue_name)
       (query queue_name (\<lambda>s. map_option (result_of s) (find_row t_id task_id (tasks s))))"

subsection \<open>A validated request satisfies the table's constraints\<close>

lemma parse_spawn_request_ok:
  assumes parse: "parse_spawn_request pg name params opts = Inr rq" and pg: "pg_nonneg pg"
  shows "task_check pg (task_of_request rq i j now)" and "q_maximum_attempts rq \<le> i32_max"
    and "1 \<le> q_maximum_attempts rq" and "q_task_name rq = name"
proof -
  let ?o = "case opts of None \<Rightarrow> JObj [] | Some opts \<Rightarrow> opts"
  from parse obtain h m k d where
    parts: "spawn_headers ?o = Inr h" "spawn_max_attempts ?o = Inr m"
      "check_idempotency_key pg k = Inr ()" "retry_delay_seconds pg (q_retry_strategy rq) 1 = Inr d"
    and rq: "q_headers rq = h" "q_maximum_attempts rq = (case m of None \<Rightarrow> 5 | Some n \<Rightarrow> n)"
      "q_idempotency_key rq = k" "q_task_name rq = name" "\<not> pg_blank pg name" "length name \<le> 1024"
    unfolding parse_spawn_request_def Let_def by (auto simp: res_bind_eq_Inr split: if_splits)
  have m: "1 \<le> q_maximum_attempts rq \<and> q_maximum_attempts rq \<le> i32_max"
    using parts(2) unfolding rq spawn_max_attempts_def
    by (auto split: option.splits if_splits simp: le_floor_iff floor_le_iff not_less)
  have d: "0 \<le> d"
    using retry_delay_every_attempt [OF pg parts(4), of 1] parts(4) by (auto simp: delay_in_range_def)
  show "q_maximum_attempts rq \<le> i32_max" "1 \<le> q_maximum_attempts rq" "q_task_name rq = name"
    using m rq by auto
  show "task_check pg (task_of_request rq i j now)"
    using m rq parts d
    by (auto simp: task_check_def task_of_request_def name_check_def spawn_headers_def
        check_idempotency_key_def split: option.splits if_splits)
qed

subsection \<open>Submission\<close>

definition spawned_store :: "spawn_request \<Rightarrow> uuid \<Rightarrow> uuid \<Rightarrow> int \<Rightarrow> store \<Rightarrow> store" where
  "spawned_store rq tid rid now s =
     s\<lparr>tasks := tasks s @ [task_of_request rq tid rid now],
       runs := runs s @ [new_run rid tid 1 Pending now]\<rparr>"

lemma fresh_task_id:
  assumes "inj (pg_uuid pg)" and "store_inv pg n s" and "n \<le> m"
  shows "pg_uuid pg m \<notin> t_id ` set (tasks s)"
proof
  assume "pg_uuid pg m \<in> t_id ` set (tasks s)"
  then have "pg_uuid pg m \<in> pg_uuid pg ` {..<n}"
    using assms(2) unfolding store_inv_def ids_drawn_def by blast
  then obtain k where "k < n" and "pg_uuid pg m = pg_uuid pg k" by blast
  with injD [OF assms(1), of m k] assms(3) show False by simp
qed

lemma spawned_checks:
  assumes inv: "store_inv pg n s" and inj: "inj (pg_uuid pg)"
    and chk: "task_check pg (task_of_request rq (pg_uuid pg n) (pg_uuid pg (Suc n)) now)"
    and max: "1 \<le> q_maximum_attempts rq" "q_maximum_attempts rq \<le> i32_max"
    and key: "\<not> key_used (q_idempotency_key rq) (tasks s)"
  defines "t \<equiv> task_of_request rq (pg_uuid pg n) (pg_uuid pg (Suc n)) now"
    and "s' \<equiv> spawned_store rq (pg_uuid pg n) (pg_uuid pg (Suc n)) now s"
  shows "store_ok pg (s\<lparr>tasks := tasks s @ [t]\<rparr>)" and "store_ok pg s'"
    and "store_inv pg (Suc (Suc n)) s'"
proof -
  let ?r = "new_run (pg_uuid pg (Suc n)) (pg_uuid pg n) 1 Pending now"
  have ok: "store_ok pg s" using inv by (simp add: store_inv_def)
  have fresh: "pg_uuid pg n \<notin> t_id ` set (tasks s)" using fresh_task_id [OF inj inv] by simp
  have no_runs: "r_task_id r \<noteq> pg_uuid pg n" if "r \<in> set (runs s)" for r
    using fresh that ok unfolding store_ok_iff by (metis imageI subsetD)
  have t: "t_id t = pg_uuid pg n" "t_idempotency_key t = q_idempotency_key rq"
    by (simp_all add: t_def task_of_request_def)
  show 1: "store_ok pg (s\<lparr>tasks := tasks s @ [t]\<rparr>)"
    using store_ok_insert_task [OF ok chk] fresh key t
    by (auto simp: key_used_def t_def task_of_request_def)
  have "run_check pg ?r" by (simp add: run_check_def new_run_def)
  moreover have "r_id ?r \<notin> r_id ` set (runs (s\<lparr>tasks := tasks s @ [t]\<rparr>))"
    using fresh_run_id [OF inj inv, of "Suc n"] by (simp add: new_run_def)
  ultimately show ok': "store_ok pg s'"
    using store_ok_insert_run [OF 1, of ?r] no_runs t
    by (simp add: s'_def spawned_store_def t_def new_run_def)
  have new: "runs_of (pg_uuid pg n) (runs s') = [?r]"
    using no_runs by (auto simp: s'_def spawned_store_def runs_of_append new_run_def runs_of_def
        filter_empty_conv)
  have "task_consistent t' (runs_of (t_id t') (runs s'))" if t': "t' \<in> set (tasks s')" for t'
  proof (cases "t' \<in> set (tasks s)")
    case True
    then have "t_id t' \<noteq> pg_uuid pg n" using fresh by (metis imageI)
    then have "runs_of (t_id t') (runs s') = runs_of (t_id t') (runs s)"
      by (simp add: s'_def spawned_store_def runs_of_append new_run_def)
    then show ?thesis using inv True by (simp add: store_inv_def)
  next
    case False
    then have "t' = t" using t' by (auto simp: s'_def spawned_store_def t_def)
    then show ?thesis using new max t
      by (simp add: task_consistent_def authoritative_def t_def task_of_request_def new_run_def)
  qed
  moreover have "ids_drawn pg (Suc (Suc n)) s'"
    using ids_drawn_mono [of pg n s "Suc (Suc n)"] inv
    by (simp add: store_inv_def ids_drawn_def s'_def spawned_store_def new_run_def task_of_request_def)
  ultimately show "store_inv pg (Suc (Suc n)) s'" using ok' by (simp add: store_inv_def)
qed

definition tick3 :: "db \<Rightarrow> db" where
  "tick3 db = tick (tick (tick db))"

lemma spawn_task_eval:
  assumes inv: "db_inv pg db" and inj: "inj (pg_uuid pg)" and pg: "pg_nonneg pg"
    and q: "queue_name_ok pg q" and s: "map_of (storage db) q = Some s"
    and rq: "parse_spawn_request pg name params opts = Inr rq"
  defines "tid \<equiv> pg_uuid pg (seq db)" and "rid \<equiv> pg_uuid pg (Suc (seq db))"
    and "now \<equiv> pg_clock pg (Suc (Suc (seq db)))"
  shows "spawn_task pg q name params opts db =
    (if \<not> key_used (q_idempotency_key rq) (tasks s)
     then (Inr (tid, True), put_store q (spawned_store rq tid rid now s) (tick3 db))
     else case find_row t_idempotency_key (q_idempotency_key rq) (tasks s) of
         None \<Rightarrow> (Inl ST004, tick3 db)
       | Some t \<Rightarrow> (if same_request rq t then Inr (t_id t, False) else Inl ST004, tick3 db))"
proof -
  note si = db_inv_store [OF inv s]
  note p = parse_spawn_request_ok [OF rq pg]
  have keys: "t_idempotency_key (task_of_request rq i j n) = q_idempotency_key rq" for i j n
    by (simp add: task_of_request_def)
  show ?thesis
  proof (cases "key_used (q_idempotency_key rq) (tasks s)")
    case True
    then show ?thesis
      using s rq p(1) [of tid rid now] keys
      by (auto simp: spawn_task_def ebind_apply esm_apply uuidv7_def current_time_def query_def
          sql_validate_queue_name_apply [OF q] insert_task_def resolve_conflict_def key_used_def
          tid_def rid_def now_def tick_def tick3_def split: option.splits)
  next
    case False
    note ok = spawned_checks(1,2) [OF si inj p(1,3,2) False, of now]
    show ?thesis
      using s rq p(1) [of tid rid now] keys False ok
      by (simp add: spawn_task_def ebind_apply esm_apply uuidv7_def current_time_def query_def
          sql_validate_queue_name_apply [OF q] insert_task_def insert_run_def write_store_apply
          spawned_store_def tid_def rid_def now_def tick_def tick3_def)
  qed
qed

lemma spawn_task_success:
  assumes "spawn_task pg q name params opts db = (Inr x, db')"
  obtains s rq where "queue_name_ok pg q" "map_of (storage db) q = Some s"
    "parse_spawn_request pg name params opts = Inr rq"
  using assms unfolding spawn_task_def insert_task_def
  by (auto simp: ebind_Inr_iff sql_steps validate_step esm_Inr_iff query_success uuidv7_success
      current_time_success split: if_splits)

lemma spawn_task_inv:
  assumes inv: "db_inv pg db" and inj: "inj (pg_uuid pg)" and pg: "pg_nonneg pg"
    and run: "spawn_task pg q name params opts db = (Inr x, db')"
  shows "db_inv pg db'"
  using run
proof (rule spawn_task_success)
  fix s rq
  assume a: "queue_name_ok pg q" "map_of (storage db) q = Some s"
    "parse_spawn_request pg name params opts = Inr rq"
  note p = parse_spawn_request_ok [OF a(3) pg]
  note eval = spawn_task_eval [OF inv inj pg a]
  have t3: "db_inv pg (tick3 db)" using db_inv_tick [OF inv, of "Suc (Suc (Suc (seq db)))"]
    by (simp add: tick3_def tick_def)
  have "db_inv pg (put_store q (spawned_store rq (pg_uuid pg (seq db)) (pg_uuid pg (Suc (seq db))) n s)
      (tick3 db))" if "\<not> key_used (q_idempotency_key rq) (tasks s)" for n
  proof -
    note st = spawned_checks(3) [OF db_inv_store [OF inv a(2)] inj p(1,3,2) that, of n]
    show ?thesis
      using db_inv_put [OF inv a(2) store_inv_mono [OF st], of "Suc (Suc (Suc (seq db)))"]
      by (simp add: tick3_def tick_def)
  qed
  then show ?thesis using run t3 unfolding eval by (auto split: if_splits option.splits)
qed

subsection \<open>Results\<close>

lemma get_task_result_eval:
  "queue_name_ok pg q \<Longrightarrow> map_of (storage db) q = Some s \<Longrightarrow>
    get_task_result pg q tid db =
      (Inr (map_option (result_of s) (find_row t_id tid (tasks s))), db)"
  by (simp add: get_task_result_def ebind_apply esm_apply query_def sql_validate_queue_name_apply)

lemma get_task_result_row:
  assumes "get_task_result pg q tid db = (Inr (Some row), d)"
  obtains s t where "queue_name_ok pg q" "map_of (storage db) q = Some s"
    "find_row t_id tid (tasks s) = Some t" "row = result_of s t" "d = db"
proof -
  from assms obtain s where s: "queue_name_ok pg q" "map_of (storage db) q = Some s" "d = db"
    and row: "Some row = map_option (result_of s) (find_row t_id tid (tasks s))"
    by (auto simp: get_task_result_def validate_step query_success)
  obtain t where t: "find_row t_id tid (tasks s) = Some t" "row = result_of s t"
    using row [symmetric] by auto
  show thesis by (rule that [OF s(1,2) t s(3)])
qed

lemma result_of_outcome:
  assumes inv: "store_inv pg n s" and t: "t \<in> set (tasks s)"
  shows "res_result (result_of s t) \<noteq> None \<longleftrightarrow> t_state t = Completed"
    and "res_failure_reason (result_of s t) \<noteq> None \<longleftrightarrow> t_state t = Failed"
proof -
  obtain r where r: "r \<in> set (runs s)" "authoritative t r"
    using store_inv_authoritative [OF inv t] by blast
  have "find_row r_id (t_last_attempt_run t) (runs s) = Some r"
    using r inv by (subst find_row_eq_Some) (auto simp: store_inv_def store_ok_iff authoritative_def)
  moreover have "run_check pg r" using r inv by (auto simp: store_inv_def store_ok_iff)
  ultimately show "res_result (result_of s t) \<noteq> None \<longleftrightarrow> t_state t = Completed"
    and "res_failure_reason (result_of s t) \<noteq> None \<longleftrightarrow> t_state t = Failed"
    using r(2) by (auto simp: result_of_def Let_def run_check_def authoritative_def)
qed

end
