(* ===== verification/Claiming.thy ===== *)
theory Claiming
  imports Submission
begin

section \<open>Claiming, supervision and expired leases\<close>

text \<open>
  \<open>reap_expired_run\<close>, \<open>supervise_run\<close>, \<open>reap_expired_runs\<close>, \<open>cancel_expired_tasks\<close> and
  \<open>claim_tasks\<close> of \<open>sql/steda.sql\<close>. A loop over a cursor runs over the list selected when the
  cursor opens; \<open>ORDER BY\<close> is \<open>sort_key\<close>, \<open>SKIP LOCKED\<close> drops the rows other sessions hold
  before \<open>LIMIT\<close> counts, and a policy that cannot be read raises for the whole statement.
\<close>

subsection \<open>Expired leases\<close>

definition lease_expired_reason :: "pg \<Rightarrow> attempt_context \<Rightarrow> int \<Rightarrow> json" where
  "lease_expired_reason pg context expires =
     JObj (json_insert_option ''workerId'' (map_option JStr (x_claimed_by context))
       [(''attempt'', JInt (x_attempt context)),
        (''claimExpiredAt'', JStr (pg_timestamp_text pg expires)),
        (''message'', JStr ''worker did not renew task lease before expiry''),
        (''name'', JStr ''$LeaseExpired'')])"

definition reap_expired_run :: "pg \<Rightarrow> string \<Rightarrow> uuid \<Rightarrow> bool sql" where
  "reap_expired_run pg queue_name run_id =
     ebind (lock_attempt_context pg queue_name run_id) (\<lambda>context.
       if x_run_state context \<noteq> Running then ereturn False
       else case x_claim_expires_at context of
           None \<Rightarrow> ereturn False
         | Some expires \<Rightarrow>
             if expires > x_observed_at context then ereturn False
             else if x_task_state context \<noteq> Running \<or> x_authoritative_run_id context \<noteq> run_id
             then eraise (raise_exception
               ''Expired run % is not authoritative for task % in queue %'')
             else eseq (fail_run pg queue_name run_id (lease_expired_reason pg context expires) True)
               (ereturn True))"

definition failure_name :: "json option \<Rightarrow> string option" where
  "failure_name reason = Option.bind (Option.bind reason (jget ''name'')) jtext"

definition renew_run :: "int \<Rightarrow> run_row \<Rightarrow> run_row" where
  "renew_run until r = r\<lparr>r_claim_expires_at :=
     (case r_claim_expires_at r of None \<Rightarrow> Some until | Some e \<Rightarrow> Some (max e until))\<rparr>"

definition supervise_run :: "pg \<Rightarrow> string \<Rightarrow> uuid \<Rightarrow> int option \<Rightarrow> string sql" where
  "supervise_run pg queue_name run_id renew_for_seconds =
     eseq (eassert (case renew_for_seconds of None \<Rightarrow> True | Some n \<Rightarrow> n > 0)
       (raise_exception ''renew_for_seconds must be > 0 when provided''))
     (ebind (lock_attempt_context pg queue_name run_id) (\<lambda>context.
       if x_task_state context = Cancelled \<or> x_run_state context = Cancelled then ereturn ''cancelled''
       else if x_run_state context = Failed then
         ereturn (if failure_name (x_failure_reason context) = Some ''$LeaseExpired''
           then ''lease_lost'' else ''failed'')
       else if x_run_state context = Completed then ereturn ''completed''
       else if x_run_state context = Sleeping then ereturn ''suspended''
       else if x_run_state context \<noteq> Running
       then eraise (raise_exception ''Run % has unsupported supervision state % in queue %'')
       else if x_task_state context \<noteq> Running \<or> x_authoritative_run_id context \<noteq> run_id
       then eraise (raise_exception ''Running run % is not authoritative for task % in queue %'')
       else
         ebind (context_due context (x_observed_at context)) (\<lambda>due.
         if due then eseq (cancel_task pg queue_name (x_task_id context)) (ereturn ''cancelled'')
         else case x_claim_expires_at context of
             None \<Rightarrow> eraise (raise_exception ''Running run % does not have a finite claim in queue %'')
           | Some expires \<Rightarrow>
               if expires \<le> x_observed_at context then
                 eseq (reap_expired_run pg queue_name run_id)
                 (ebind (select_task queue_name (x_task_id context)) (\<lambda>task.
                   ereturn (if map_option t_state task = Some Cancelled then ''cancelled''
                     else ''lease_lost'')))
               else
                 eseq (case renew_for_seconds of
                     None \<Rightarrow> ereturn ()
                   | Some n \<Rightarrow>
                       if expires \<le> x_observed_at context + n * 500000
                       then update_runs pg queue_name (\<lambda>r. r_id r = run_id)
                         (renew_run (x_observed_at context + n * 1000000))
                       else ereturn ())
                 (ereturn ''running''))))"

definition select_expired :: "int \<Rightarrow> int \<Rightarrow> (uuid \<Rightarrow> bool) \<Rightarrow> store \<Rightarrow> uuid list" where
  "select_expired now limit locked s =
     take (nat limit) (filter (\<lambda>i. \<not> locked i) (map r_id
       (sort_key (\<lambda>r. (the (r_claim_expires_at r), r_id r))
         (filter (\<lambda>r. r_state r = Running \<and> (\<exists>e\<in>set_option (r_claim_expires_at r). e \<le> now))
           (runs s)))))"

definition reap_expired_runs :: "pg \<Rightarrow> string \<Rightarrow> int \<Rightarrow> int sql" where
  "reap_expired_runs pg queue_name reap_limit =
     ebind (current_time pg) (\<lambda>now_at.
     eseq (sql_validate_queue_name pg queue_name)
     (eseq (eassert (reap_limit > 0) (raise_exception ''reap_limit must be > 0''))
     (ebind (locked_rows pg) (\<lambda>locked.
     ebind (query queue_name (select_expired now_at reap_limit locked))
       (ecount (reap_expired_run pg queue_name))))))"

subsection \<open>Expired cancellation deadlines\<close>

text \<open>The rows of \<open>WHERE f \<dots> ORDER BY \<dots> LIMIT n FOR UPDATE SKIP LOCKED\<close>, on the rows in the order of
  the query: the first \<open>n\<close> that satisfy the predicate and are not locked. The predicate may raise. It is
  evaluated on every row before the limit is reached; on which rows it is evaluated afterwards is the
  plan's choice, so that a raising row past the limit fails the statement under some plans only.\<close>

fun filter_take ::
    "nat \<Rightarrow> ('a \<Rightarrow> 'e + bool) \<Rightarrow> ('a \<Rightarrow> bool) \<Rightarrow> ('a \<Rightarrow> bool) \<Rightarrow> 'a list \<Rightarrow> 'e + 'a list" where
  "filter_take n f free scans [] = Inr []"
| "filter_take n f free scans (x # xs) =
     (if n = 0 \<and> \<not> scans x then filter_take n f free scans xs
      else res_bind (f x) (\<lambda>b.
        if 0 < n \<and> b \<and> free x
        then res_bind (filter_take (n - 1) f free scans xs) (\<lambda>ys. Inr (x # ys))
        else filter_take n f free scans xs))"

definition active_pairs :: "store \<Rightarrow> (task_row \<times> run_row) list" where
  "active_pairs s =
     filter (\<lambda>(t, r). state_active (t_state t) \<and> state_active (r_state r))
       (List.map_filter (\<lambda>t. map_option (Pair t) (find_row r_id (t_last_attempt_run t) (runs s)))
         (tasks s))"

definition select_due ::
    "int \<Rightarrow> int \<Rightarrow> (uuid \<Rightarrow> bool) \<Rightarrow> (uuid \<Rightarrow> bool) \<Rightarrow> store \<Rightarrow> sql_error + uuid list" where
  "select_due now limit locked scans s =
     res_bind (filter_take (nat limit) (\<lambda>(t, r). task_due t now) (\<lambda>(t, r). \<not> locked (r_id r))
       (\<lambda>(t, r). scans (r_id r)) (sort_key (\<lambda>(t, r). t_id t) (active_pairs s))) (\<lambda>due.
       Inr (map (\<lambda>(t, r). t_id t) due))"

definition cancel_expired_tasks :: "pg \<Rightarrow> string \<Rightarrow> int \<Rightarrow> int sql" where
  "cancel_expired_tasks pg queue_name cancel_limit =
     ebind (current_time pg) (\<lambda>now_at.
     eseq (sql_validate_queue_name pg queue_name)
     (eseq (eassert (cancel_limit > 0) (raise_exception ''cancel_limit must be > 0''))
     (ebind (locked_rows pg) (\<lambda>locked.
     ebind (scanned_rows pg) (\<lambda>scans.
     ebind (query queue_name (select_due now_at cancel_limit locked scans)) (\<lambda>candidates.
     ebind (elift candidates) (ecount (cancel_task pg queue_name))))))))"

subsection \<open>Claiming\<close>

record claim_row =
  k_run_id :: uuid
  k_task_id :: uuid
  k_attempt :: int
  k_task_name :: string
  k_params :: json
  k_headers :: "json option"

definition start_run :: "string \<Rightarrow> int \<Rightarrow> int \<Rightarrow> run_row \<Rightarrow> run_row" where
  "start_run worker_id expires now r = r\<lparr>r_state := Running, r_claimed_by := Some worker_id,
     r_claim_expires_at := Some expires,
     r_started_at := (case r_started_at r of None \<Rightarrow> Some now | Some a \<Rightarrow> Some a),
     r_available_at := now\<rparr>"

definition start_task :: "int \<Rightarrow> run_row \<Rightarrow> task_row \<Rightarrow> task_row" where
  "start_task now r t = t\<lparr>t_state := Running, t_attempts := max (t_attempts t) (r_attempt r),
     t_first_started_at := (case t_first_started_at t of None \<Rightarrow> Some now | Some a \<Rightarrow> Some a),
     t_last_attempt_run := r_id r\<rparr>"

definition claimable :: "int \<Rightarrow> string list \<Rightarrow> run_row \<times> task_row \<Rightarrow> bool" where
  "claimable now names rt = (case rt of (r, t) \<Rightarrow>
     (r_state r = Pending \<or> r_state r = Sleeping) \<and> (t_state t = Pending \<or> t_state t = Sleeping)
   \<and> t_last_attempt_run t = r_id r \<and> r_available_at r \<le> now \<and> t_name t \<in> set names)"

definition joined_runs :: "store \<Rightarrow> (run_row \<times> task_row) list" where
  "joined_runs s =
     List.map_filter (\<lambda>r. map_option (Pair r) (find_row t_id (r_task_id r) (tasks s))) (runs s)"

definition claim_order :: "(run_row \<times> task_row) list \<Rightarrow> (run_row \<times> task_row) list" where
  "claim_order = sort_key (\<lambda>(r, t). (r_available_at r, r_id r))"

definition candidate_runs ::
    "int \<Rightarrow> int \<Rightarrow> string list \<Rightarrow> (uuid \<Rightarrow> bool) \<Rightarrow> (uuid \<Rightarrow> bool) \<Rightarrow> store \<Rightarrow>
      sql_error + (run_row \<times> task_row) list" where
  "candidate_runs now quantity names locked scans s =
     filter_take (nat quantity) (\<lambda>(r, t). res_bind (task_due t now) (\<lambda>due. Inr (\<not> due)))
       (\<lambda>(r, t). \<not> locked (r_id r)) (\<lambda>(r, t). scans (r_id r))
       (claim_order (filter (claimable now names) (joined_runs s)))"

definition claimed_row :: "run_row \<times> task_row \<Rightarrow> claim_row" where
  "claimed_row rt = (case rt of (r, t) \<Rightarrow>
     \<lparr>k_run_id = r_id r, k_task_id = t_id t, k_attempt = r_attempt r, k_task_name = t_name t,
      k_params = t_params t, k_headers = t_headers t\<rparr>)"

definition start_claimed_task :: "int \<Rightarrow> (run_row \<times> task_row) list \<Rightarrow> task_row \<Rightarrow> task_row" where
  "start_claimed_task now claimed t =
     (case find (\<lambda>(r, _). r_task_id r = t_id t) claimed of
        None \<Rightarrow> t
      | Some (r, _) \<Rightarrow> start_task now r t)"

definition claim_statement ::
    "pg \<Rightarrow> string \<Rightarrow> string \<Rightarrow> int \<Rightarrow> int \<Rightarrow> int \<Rightarrow> string list \<Rightarrow> claim_row list sql" where
  "claim_statement pg queue_name worker_id expires now_at quantity task_names =
     ebind (locked_rows pg) (\<lambda>locked.
     ebind (scanned_rows pg) (\<lambda>scans.
     ebind (query queue_name (candidate_runs now_at quantity task_names locked scans)) (\<lambda>selected.
     ebind (elift selected) (\<lambda>candidates.
     eseq (update_runs pg queue_name (\<lambda>r. r_id r \<in> set (map (\<lambda>(r, t). r_id r) candidates))
       (start_run worker_id expires now_at))
     (eseq (update_tasks pg queue_name (\<lambda>t. t_id t \<in> set (map (\<lambda>(r, t). r_task_id r) candidates))
       (start_claimed_task now_at candidates))
     (ereturn (map claimed_row (claim_order candidates))))))))"

definition claim_tasks ::
    "pg \<Rightarrow> string \<Rightarrow> string \<Rightarrow> int \<Rightarrow> int \<Rightarrow> string list \<Rightarrow> claim_row list sql" where
  "claim_tasks pg queue_name worker_id lease_seconds quantity task_names =
     ebind (current_time pg) (\<lambda>_.
     eseq (sql_validate_queue_name pg queue_name)
     (eseq (eassert (\<not> pg_blank pg worker_id) (raise_exception ''worker_id must be provided''))
     (eseq (eassert (lease_seconds > 0) (raise_exception ''lease_seconds must be > 0''))
     (eseq (eassert (quantity > 0) (raise_exception ''quantity must be > 0''))
     (eseq (eassert (task_names \<noteq> [])
       (raise_exception ''task_names must contain at least one capability''))
     (eseq (eassert (\<not> list_ex (pg_blank pg) task_names)
       (raise_exception ''task_names cannot contain empty capabilities''))
     (eseq (cancel_expired_tasks pg queue_name quantity)
     (eseq (reap_expired_runs pg queue_name quantity)
     (ebind (current_time pg) (\<lambda>now_at.
       claim_statement pg queue_name worker_id (now_at + lease_seconds * 1000000) now_at quantity
         task_names))))))))))"

subsection \<open>Selections\<close>

lemma set_map_filter: "set (List.map_filter f xs) = {y. \<exists>x\<in>set xs. f x = Some y}"
  by (force simp: List.map_filter_def)

lemma find_SomeD: "find P xs = Some x \<Longrightarrow> x \<in> set xs \<and> P x"
  by (auto simp: find_Some_iff in_set_conv_nth)

lemma filter_take_Inr:
  "filter_take n f free scans xs = Inr ys \<Longrightarrow>
    ys = take n (filter (\<lambda>x. f x = Inr True \<and> free x) xs)"
proof (induction n f free scans xs arbitrary: ys rule: filter_take.induct)
  case (2 n f free scans x xs)
  then show ?case by (cases n) (auto simp: res_bind_eq_Inr split: if_splits)
qed simp

text \<open>Before the limit is reached every row is evaluated: a selection of at most \<open>n\<close> rows fails, under
  every plan, as soon as the predicate raises on one of them.\<close>

lemma filter_take_Inl:
  assumes "x \<in> set xs" and "f x = Inl e" and "length xs \<le> n"
    and "\<And>y e'. y \<in> set xs \<Longrightarrow> f y = Inl e' \<Longrightarrow> e' = e"
  shows "filter_take n f free scans xs = Inl e"
  using assms
proof (induction xs arbitrary: n)
  case (Cons y ys)
  have ih: "filter_take m f free scans ys = Inl e" if "length ys \<le> m" "x \<in> set ys" for m
    by (rule Cons.IH [OF that(2) Cons.prems(2) that(1)]) (rule Cons.prems(4), simp_all)
  obtain m where n: "n = Suc m" and m: "length ys \<le> m" using Cons.prems(3) by (cases n) auto
  show ?case
  proof (cases "f y")
    case (Inl e')
    then show ?thesis using Cons.prems(4) [of y e'] n by simp
  next
    case (Inr c)
    then have "x \<in> set ys" using Cons.prems(1,2) by auto
    then show ?thesis using ih [of m] ih [of n] m n Inr by simp
  qed
qed simp

text \<open>Sorting the rows before or after they are filtered makes no difference.\<close>

lemma sort_key_filter: "sort_key k (filter P xs) = filter P (sort_key k xs)"
  by (simp add: filter_sort)

lemma set_joined_runs:
  assumes "store_ok pg s"
  shows "set (joined_runs s) =
    {(r, t). r \<in> set (runs s) \<and> t \<in> set (tasks s) \<and> t_id t = r_task_id r}"
proof -
  have d: "distinct (map t_id (tasks s))" using assms by (simp add: store_ok_iff)
  show ?thesis by (auto simp: joined_runs_def set_map_filter find_row_eq_Some [OF d])
qed

lemma distinct_joined_runs:
  assumes "store_ok pg s"
  shows "distinct (map (\<lambda>(r, t). r_id r) (joined_runs s))"
proof -
  have "map (\<lambda>(r, t). r_id r) (joined_runs s) =
      map r_id (filter (\<lambda>r. find_row t_id (r_task_id r) (tasks s) \<noteq> None) (runs s))"
    by (induction "runs s") (auto simp: joined_runs_def List.map_filter_def comp_def)
  then show ?thesis using assms by (simp add: store_ok_iff distinct_map_filter)
qed

lemma candidate_runs_Inr:
  assumes "candidate_runs now n names locked scans s = Inr cs"
  shows "cs = take (nat n) (filter (\<lambda>(r, t). \<not> locked (r_id r)) (claim_order
    (filter (\<lambda>(r, t). task_due t now = Inr False) (filter (claimable now names) (joined_runs s)))))"
proof -
  let ?xs = "claim_order (filter (claimable now names) (joined_runs s))"
  note cs = filter_take_Inr [OF assms [unfolded candidate_runs_def]]
  have "filter (\<lambda>(r, t). \<not> locked (r_id r)) (claim_order
      (filter (\<lambda>(r, t). task_due t now = Inr False) (filter (claimable now names) (joined_runs s)))) =
    filter (\<lambda>(r, t). \<not> locked (r_id r)) (filter (\<lambda>(r, t). task_due t now = Inr False) ?xs)"
    unfolding claim_order_def by (subst sort_key_filter) (rule refl)
  also have "\<dots> = filter (\<lambda>x. (case x of (r, t) \<Rightarrow> res_bind (task_due t now) (\<lambda>due. Inr (\<not> due))) = Inr True
      \<and> (case x of (r, t) \<Rightarrow> \<not> locked (r_id r))) ?xs"
    unfolding filter_filter by (rule filter_cong [OF refl]) (auto simp: res_bind_eq_Inr)
  finally show ?thesis using cs by simp
qed

lemma candidate_runs_facts:
  assumes ok: "store_ok pg s" and c: "candidate_runs now n names locked scans s = Inr cs"
  shows "distinct (map (\<lambda>(r, t). r_id r) cs)"
    and "length cs \<le> nat n"
    and "(r, t) \<in> set cs \<Longrightarrow> r \<in> set (runs s) \<and> t \<in> set (tasks s) \<and> t_id t = r_task_id r
      \<and> claimable now names (r, t) \<and> task_due t now = Inr False \<and> \<not> locked (r_id r)"
    and "claim_order cs = cs"
proof -
  note cs = candidate_runs_Inr [OF c]
  let ?e = "filter (\<lambda>(r, t). task_due t now = Inr False) (filter (claimable now names) (joined_runs s))"
  have "distinct (map (\<lambda>(r, t). r_id r) ?e)"
    using distinct_joined_runs [OF ok] by (intro distinct_map_filter)
  then have "distinct (map (\<lambda>(r, t). r_id r) (claim_order ?e))"
    unfolding claim_order_def distinct_map by simp
  then show "distinct (map (\<lambda>(r, t). r_id r) cs)"
    unfolding cs take_map [symmetric] by (intro distinct_take distinct_map_filter)
  show "length cs \<le> nat n" unfolding cs by simp
  show "r \<in> set (runs s) \<and> t \<in> set (tasks s) \<and> t_id t = r_task_id r
      \<and> claimable now names (r, t) \<and> task_due t now = Inr False \<and> \<not> locked (r_id r)"
    if "(r, t) \<in> set cs"
  proof -
    from that have "(r, t) \<in> set (filter (\<lambda>(r, t). \<not> locked (r_id r)) (claim_order ?e))"
      unfolding cs by (rule in_set_takeD)
    then show ?thesis using set_joined_runs [OF ok] by (auto simp: claim_order_def)
  qed
  have "sorted (map (\<lambda>(r, t). (r_available_at r, r_id r)) cs)"
    unfolding cs claim_order_def take_map [symmetric]
    by (intro sorted_wrt_take sorted_filter sorted_sort_key)
  then show "claim_order cs = cs" unfolding claim_order_def by (rule sort_key_id_if_sorted)
qed

subsection \<open>The claim statement\<close>

lemma store_inv_update_all:
  assumes inv: "store_inv pg n s" and f: "keeps_run_identity f" and ok: "store_ok pg s'"
    and s': "s' = s\<lparr>runs := update_where P f (runs s), tasks := update_where Q g (tasks s)\<rparr>"
    and kept: "\<And>t. t \<in> set (tasks s) \<Longrightarrow> Q t \<Longrightarrow> t_id (g t) = t_id t
      \<and> t_last_attempt_run (g t) = t_last_attempt_run t \<and> t_attempts (g t) = t_attempts t
      \<and> t_max_attempts (g t) = t_max_attempts t"
    and auth: "\<And>t r. t \<in> set (tasks s) \<Longrightarrow> r \<in> set (runs s) \<Longrightarrow> r_task_id r = t_id t \<Longrightarrow>
      authoritative t r \<Longrightarrow> authoritative (if Q t then g t else t) (if P r then f r else r)"
    and sup: "\<And>t r. t \<in> set (tasks s) \<Longrightarrow> r \<in> set (runs s) \<Longrightarrow> r_task_id r = t_id t \<Longrightarrow>
      superseded t r \<Longrightarrow> \<not> P r"
  shows "store_inv pg n s'"
proof -
  have con: "task_consistent (if Q t then g t else t)
      (runs_of (t_id (if Q t then g t else t)) (update_where P f (runs s)))" if t: "t \<in> set (tasks s)" for t
  proof (rule consistent_after_update [OF _ f])
    show "task_consistent t (runs_of (t_id t) (runs s))" using inv t unfolding store_inv_def by blast
  qed (use t kept auth sup in auto)
  have "task_consistent t' (runs_of (t_id t') (runs s'))" if "t' \<in> set (tasks s')" for t'
  proof -
    from that obtain t where "t \<in> set (tasks s)" "t' = (if Q t then g t else t)"
      unfolding s' update_where_def by auto
    with con [of t] show ?thesis by (simp add: s')
  qed
  moreover have "ids_drawn pg n s'"
  proof -
    have "map t_id (update_where Q g (tasks s)) = map t_id (tasks s)"
      unfolding update_where_def map_map by (rule map_cong) (simp_all add: kept)
    then have "t_id ` set (update_where Q g (tasks s)) = t_id ` set (tasks s)"
      by (metis list.set_map)
    then show ?thesis using inv f unfolding store_inv_def ids_drawn_def s'
      by (simp add: image_update_where keeps_run_identity_def)
  qed
  ultimately show ?thesis using ok by (simp add: store_inv_def)
qed

definition claimed_store :: "string \<Rightarrow> int \<Rightarrow> int \<Rightarrow> (run_row \<times> task_row) list \<Rightarrow> store \<Rightarrow> store" where
  "claimed_store worker expires now cs s =
     s\<lparr>runs := update_where (\<lambda>r. r_id r \<in> set (map (\<lambda>(r, t). r_id r) cs))
         (start_run worker expires now) (runs s),
       tasks := update_where (\<lambda>t. t_id t \<in> set (map (\<lambda>(r, t). r_task_id r) cs))
         (start_claimed_task now cs) (tasks s)\<rparr>"

text \<open>What the statement does to the task of a candidate.\<close>

lemma start_claimed_task_eq:
  assumes inv: "store_inv pg n s" and c: "candidate_runs now k names locked scans s = Inr cs"
    and t: "t \<in> set (tasks s)" and mem: "t_id t \<in> set (map (\<lambda>(r, t). r_task_id r) cs)"
  obtains r where "(r, t) \<in> set cs" "authoritative t r"
    "start_claimed_task now cs t = start_task now r t"
proof -
  have ok: "store_ok pg s" using inv by (simp add: store_inv_def)
  note facts = candidate_runs_facts(3) [OF ok c]
  from mem obtain p where "find (\<lambda>(r, _). r_task_id r = t_id t) cs = Some p"
    by (cases "find (\<lambda>(r, _). r_task_id r = t_id t) cs") (force simp: find_None_iff)+
  moreover obtain r t' where "p = (r, t')" by fastforce
  ultimately have find: "find (\<lambda>(r, _). r_task_id r = t_id t) cs = Some (r, t')"
    and "(r, t') \<in> set cs" "r_task_id r = t_id t"
    by (auto dest: find_SomeD)
  moreover from this facts have t': "t' = t"
    using t by (metis store_inv_task_unique [OF inv])
  ultimately have rt: "(r, t) \<in> set cs" "r_task_id r = t_id t" by simp_all
  have "authoritative t r"
  proof -
    obtain t'' where "t'' \<in> set (tasks s)" "t_id t'' = r_task_id r" "authoritative t'' r \<or> superseded t'' r"
      using store_inv_run_task [OF inv] facts [OF rt(1)] by blast
    moreover have "t'' = t" using calculation t rt(2) store_inv_task_unique [OF inv] by metis
    ultimately show ?thesis using facts [OF rt(1)]
      by (auto simp: claimable_def superseded_def)
  qed
  with rt(1) find t' show thesis by (intro that) (simp_all add: start_claimed_task_def)
qed

lemma run_check_start_run:
  "run_check pg r \<Longrightarrow> \<not> pg_blank pg w \<Longrightarrow> run_check pg (start_run w e now r)"
  by (simp add: run_check_def start_run_def)

text \<open>The claimed runs are active, and they are the authoritative runs of the claimed tasks.\<close>

lemma claimed_run_active:
  assumes inv: "store_inv pg n s" and c: "candidate_runs now k names locked scans s = Inr cs"
    and r: "r \<in> set (runs s)" "r_id r \<in> set (map (\<lambda>(r, t). r_id r) cs)"
  obtains t where "(r, t) \<in> set cs" "state_active (r_state r)"
proof -
  have "store_ok pg s" using inv by (simp add: store_inv_def)
  note facts = candidate_runs_facts(3) [OF this c]
  obtain t where "(r, t) \<in> set cs" using r facts by (auto dest: store_inv_run_unique [OF inv])
  then show thesis using facts [of r] by (intro that) (fastforce simp: claimable_def)+
qed

lemma claimed_together:
  assumes inv: "store_inv pg n s" and c: "candidate_runs now k names locked scans s = Inr cs"
    and a: "t \<in> set (tasks s)" "r \<in> set (runs s)" "r_task_id r = t_id t" "authoritative t r"
  shows "r_id r \<in> set (map (\<lambda>(r, t). r_id r) cs) \<longleftrightarrow> t_id t \<in> set (map (\<lambda>(r, t). r_task_id r) cs)"
proof
  assume "r_id r \<in> set (map (\<lambda>(r, t). r_id r) cs)"
  then obtain t' where "(r, t') \<in> set cs" using claimed_run_active [OF inv c a(2)] by blast
  then show "t_id t \<in> set (map (\<lambda>(r, t). r_task_id r) cs)" using a(3) by force
next
  assume "t_id t \<in> set (map (\<lambda>(r, t). r_task_id r) cs)"
  then obtain r' where r': "(r', t) \<in> set cs" "authoritative t r'"
    using start_claimed_task_eq [OF inv c a(1)] by blast
  then have "r_id r' = r_id r" using a(4) by (simp add: authoritative_def)
  with r'(1) show "r_id r \<in> set (map (\<lambda>(r, t). r_id r) cs)" by force
qed

lemma claimed_checks:
  assumes inv: "store_inv pg n s" and c: "candidate_runs now k names locked scans s = Inr cs"
    and w: "\<not> pg_blank pg worker"
  shows "store_ok pg (s\<lparr>runs := update_where (\<lambda>r. r_id r \<in> set (map (\<lambda>(r, t). r_id r) cs))
      (start_run worker expires now) (runs s)\<rparr>)"
    and "store_ok pg (claimed_store worker expires now cs s)"
    and "store_inv pg n (claimed_store worker expires now cs s)"
proof -
  have ok: "store_ok pg s" using inv by (simp add: store_inv_def)
  let ?P = "\<lambda>r. r_id r \<in> set (map (\<lambda>(r, t). r_id r) cs)"
  let ?Q = "\<lambda>t. t_id t \<in> set (map (\<lambda>(r, t). r_task_id r) cs)"
  have f: "keeps_run_identity (start_run worker expires now)"
    by (simp add: keeps_run_identity_def start_run_def)
  have act: "state_active (r_state r)" if "r \<in> set (runs s)" "?P r" for r
    using claimed_run_active [OF inv c that] .
  have g: "keeps_task_identity (start_claimed_task now cs)"
    by (auto simp: keeps_task_identity_def start_claimed_task_def start_task_def split: option.splits)
  show 1: "store_ok pg (s\<lparr>runs := update_where ?P (start_run worker expires now) (runs s)\<rparr>)"
  proof (rule store_ok_update_runs [OF ok f])
    fix r assume r: "r \<in> set (runs s)" "?P r"
    then have "state_active (r_state r)" by (rule act)
    moreover have "run_check pg r" using ok r(1) by (simp add: store_ok_iff)
    ultimately show "run_check pg (start_run worker expires now r)
        \<and> (state_active (r_state (start_run worker expires now r)) \<longrightarrow> state_active (r_state r))"
      using run_check_start_run w by simp
  qed
  have chk: "task_check pg (start_claimed_task now cs t)" if t: "t \<in> set (tasks s)" "?Q t" for t
  proof -
    obtain r where "start_claimed_task now cs t = start_task now r t"
      using start_claimed_task_eq [OF inv c t] .
    moreover have "task_check pg t" using ok t(1) by (simp add: store_ok_iff)
    ultimately show ?thesis by (auto simp: task_check_def start_task_def)
  qed
  show 2: "store_ok pg (claimed_store worker expires now cs s)"
    using store_ok_update_tasks [OF 1 g, of ?Q] chk by (simp add: claimed_store_def)
  show "store_inv pg n (claimed_store worker expires now cs s)"
  proof (rule store_inv_update_all [OF inv f 2 claimed_store_def])
    fix t assume t: "t \<in> set (tasks s)" "?Q t"
    obtain r where "start_claimed_task now cs t = start_task now r t" "authoritative t r"
      using start_claimed_task_eq [OF inv c t] .
    then show "t_id (start_claimed_task now cs t) = t_id t
      \<and> t_last_attempt_run (start_claimed_task now cs t) = t_last_attempt_run t
      \<and> t_attempts (start_claimed_task now cs t) = t_attempts t
      \<and> t_max_attempts (start_claimed_task now cs t) = t_max_attempts t"
      by (simp add: start_task_def authoritative_def)
  next
    fix t r assume a: "t \<in> set (tasks s)" "r \<in> set (runs s)" "r_task_id r = t_id t" "authoritative t r"
    have "?P r \<longleftrightarrow> ?Q t" by (rule claimed_together [OF inv c a])
    moreover have "authoritative (start_claimed_task now cs t) (start_run worker expires now r)" if Q: "?Q t"
    proof -
      obtain r' where "start_claimed_task now cs t = start_task now r' t" "authoritative t r'"
        using start_claimed_task_eq [OF inv c a(1) Q] .
      then show ?thesis using a(4) by (simp add: authoritative_def start_task_def start_run_def)
    qed
    ultimately show "authoritative (if ?Q t then start_claimed_task now cs t else t)
        (if ?P r then start_run worker expires now r else r)"
      using a(4) by simp
  next
    fix t r assume a: "t \<in> set (tasks s)" "r \<in> set (runs s)" "r_task_id r = t_id t" "superseded t r"
    then have "\<not> state_active (r_state r)" by (simp add: superseded_def)
    then show "\<not> ?P r" using act [OF a(2)] by blast
  qed
qed

lemma claim_statement_eval:
  assumes inv: "db_inv pg db" and s: "map_of (storage db) q = Some s" and w: "\<not> pg_blank pg worker"
  shows "claim_statement pg q worker expires now k names db =
    (case candidate_runs now k names (pg_locked pg (seq db)) (pg_scans pg (seq db)) s of
       Inl e \<Rightarrow> (Inl e, db)
     | Inr cs \<Rightarrow> (Inr (map claimed_row cs), put_store q (claimed_store worker expires now cs s) db))"
proof (cases "candidate_runs now k names (pg_locked pg (seq db)) (pg_scans pg (seq db)) s")
  case (Inl e)
  then show ?thesis using s
    by (simp add: claim_statement_def ebind_apply esm_apply locked_rows_def scanned_rows_def query_def)
next
  case (Inr cs)
  note si = db_inv_store [OF inv s]
  have "store_ok pg s" using si by (simp add: store_inv_def)
  note facts = candidate_runs_facts [OF this Inr] and ok = claimed_checks [OF si Inr w, of expires]
  show ?thesis using s Inr facts(4) ok(1,2)
    by (simp add: claim_statement_def ebind_apply esm_apply locked_rows_def scanned_rows_def query_def statement_defs
        write_store_apply claimed_store_def)
qed

lemma claim_statement_inv:
  assumes inv: "db_inv pg db" and w: "\<not> pg_blank pg worker"
    and run: "claim_statement pg q worker expires now k names db = (Inr x, db')"
  shows "db_inv pg db'"
proof -
  from run obtain s where s: "map_of (storage db) q = Some s"
    unfolding claim_statement_def locked_rows_def scanned_rows_def by (auto simp: sql_steps)
  note eval = claim_statement_eval [OF inv s w, of expires now k names]
  obtain cs where cs: "candidate_runs now k names (pg_locked pg (seq db)) (pg_scans pg (seq db)) s = Inr cs"
    and db': "db' = put_store q (claimed_store worker expires now cs s) db"
    using run unfolding eval by (auto split: sum.splits)
  from db_inv_put [OF inv s claimed_checks(3) [OF db_inv_store [OF inv s] cs w]] show ?thesis
    unfolding db' by (metis db.surjective db.update_convs(3) order_refl put_store_simps(1))
qed

subsection \<open>Maintenance\<close>

lemma reap_expired_run_inv:
  assumes inv: "db_inv pg db" and inj: "inj (pg_uuid pg)"
    and run: "reap_expired_run pg q i db = (Inr b, db')"
  shows "db_inv pg db'"
proof -
  from run obtain x d where lock: "lock_attempt_context pg q i db = (Inr x, d)"
    by (auto simp: reap_expired_run_def ebind_Inr_iff)
  then have d: "db_inv pg d"
    by (rule lock_attempt_context_success) (simp add: tick_def db_inv_tick [OF inv])
  from run lock have "db' = d \<or> (\<exists>reason. fail_run pg q i reason True d = (Inr (), db'))"
    by (auto simp: reap_expired_run_def ebind_Inr_iff eseq_Inr_iff esm_Inr_iff split: option.splits if_splits)
  then show ?thesis using d fail_run_inv [OF d inj] by auto
qed

lemma reap_expired_runs_inv:
  assumes inv: "db_inv pg db" and inj: "inj (pg_uuid pg)"
    and run: "reap_expired_runs pg q k db = (Inr n, db')"
  shows "db_inv pg db'"
proof -
  have loop: "establishes (db_inv pg) (ecount (reap_expired_run pg q) xs) (\<lambda>_. db_inv pg)" for xs
    by (intro establishes_ecount establishesI) (rule reap_expired_run_inv [OF _ inj])
  from run obtain xs where "ecount (reap_expired_run pg q) xs (tick db) = (Inr n, db')"
    unfolding reap_expired_runs_def locked_rows_def scanned_rows_def
    by (auto simp: sql_steps validate_step tick_def)
  moreover have "db_inv pg (tick db)" using db_inv_tick [OF inv] by (simp add: tick_def)
  ultimately show ?thesis using establishesD [OF loop] by blast
qed

lemma cancel_expired_tasks_inv:
  assumes inv: "db_inv pg db" and run: "cancel_expired_tasks pg q k db = (Inr n, db')"
  shows "db_inv pg db'"
proof -
  have loop: "establishes (db_inv pg) (ecount (cancel_task pg q) xs) (\<lambda>_. db_inv pg)" for xs
    by (intro establishes_ecount establishesI) (rule cancel_task_inv)
  from run obtain xs where "ecount (cancel_task pg q) xs (tick db) = (Inr n, db')"
    unfolding cancel_expired_tasks_def locked_rows_def scanned_rows_def
    by (auto simp: sql_steps validate_step tick_def)
  moreover have "db_inv pg (tick db)" using db_inv_tick [OF inv] by (simp add: tick_def)
  ultimately show ?thesis using establishesD [OF loop] by blast
qed

text \<open>The state in which a claim runs its statement: after the maintenance passes and a fresh
  clock reading.\<close>

definition claim_maintained :: "pg \<Rightarrow> string \<Rightarrow> int \<Rightarrow> db \<Rightarrow> db \<Rightarrow> bool" where
  "claim_maintained pg q k db d \<longleftrightarrow>
     (\<exists>n m d1 d2. cancel_expired_tasks pg q k (tick db) = (Inr n, d1)
       \<and> reap_expired_runs pg q k d1 = (Inr m, d2) \<and> d = tick d2)"

lemma claim_tasks_success:
  assumes "claim_tasks pg q worker lease k names db = (Inr xs, db')"
  obtains d where "claim_maintained pg q k db d" "queue_name_ok pg q" "\<not> pg_blank pg worker"
    "0 < lease" "0 < k" "names \<noteq> []"
    "claim_statement pg q worker (pg_clock pg (seq d - 1) + lease * 1000000) (pg_clock pg (seq d - 1))
      k names d = (Inr xs, db')"
proof -
  from assms obtain n d1 m d2 where
    "queue_name_ok pg q" "\<not> pg_blank pg worker" "0 < lease" "0 < k" "names \<noteq> []"
    "cancel_expired_tasks pg q k (tick db) = (Inr n, d1)" "reap_expired_runs pg q k d1 = (Inr m, d2)"
    "claim_statement pg q worker (pg_clock pg (seq d2) + lease * 1000000) (pg_clock pg (seq d2))
      k names (tick d2) = (Inr xs, db')"
    unfolding claim_tasks_def tick_def
    by (auto simp: sql_steps eseq_Inr_iff esm_Inr_iff sql_validate_queue_name_success)
  then show thesis by (intro that [of "tick d2"]) (auto simp: claim_maintained_def)
qed

lemma claim_maintained_inv:
  assumes inv: "db_inv pg db" and inj: "inj (pg_uuid pg)" and m: "claim_maintained pg q k db d"
  shows "db_inv pg d"
proof -
  from m obtain n m d1 d2 where d1: "cancel_expired_tasks pg q k (tick db) = (Inr n, d1)"
    and d2: "reap_expired_runs pg q k d1 = (Inr m, d2)" and d: "d = tick d2"
    unfolding claim_maintained_def by blast
  have "db_inv pg (tick db)" using db_inv_tick [OF inv] by (simp add: tick_def)
  from cancel_expired_tasks_inv [OF this d1] have "db_inv pg d1" .
  from reap_expired_runs_inv [OF this inj d2] have "db_inv pg d2" .
  then show ?thesis unfolding d by (simp add: tick_def db_inv_tick)
qed

lemma claim_tasks_inv:
  assumes inv: "db_inv pg db" and inj: "inj (pg_uuid pg)"
    and run: "claim_tasks pg q worker lease k names db = (Inr xs, db')"
  shows "db_inv pg db'"
  using run
proof (rule claim_tasks_success)
  fix d
  assume "claim_maintained pg q k db d" and w: "\<not> pg_blank pg worker"
    and "claim_statement pg q worker (pg_clock pg (seq d - 1) + lease * 1000000)
      (pg_clock pg (seq d - 1)) k names d = (Inr xs, db')"
  then show ?thesis using claim_maintained_inv [OF inv inj] claim_statement_inv [OF _ w] by blast
qed

lemma claim_tasks_rows:
  assumes inv: "db_inv pg db" and inj: "inj (pg_uuid pg)"
    and run: "claim_tasks pg q worker lease k names db = (Inr xs, db')"
  shows "length xs \<le> nat k" and "x \<in> set xs \<Longrightarrow> k_task_name x \<in> set names"
proof -
  obtain d where m: "claim_maintained pg q k db d" and w: "\<not> pg_blank pg worker"
    and c: "claim_statement pg q worker (pg_clock pg (seq d - 1) + lease * 1000000) (pg_clock pg (seq d - 1))
      k names d = (Inr xs, db')"
    using claim_tasks_success [OF run] by metis
  note dinv = claim_maintained_inv [OF inv inj m]
  from c obtain s where s: "map_of (storage d) q = Some s"
    unfolding claim_statement_def locked_rows_def scanned_rows_def by (auto simp: sql_steps)
  obtain cs where cs: "candidate_runs (pg_clock pg (seq d - 1)) k names (pg_locked pg (seq d)) (pg_scans pg (seq d)) s = Inr cs"
    and xs: "xs = map claimed_row cs"
    using c unfolding claim_statement_eval [OF dinv s w] by (auto split: sum.splits)
  have "store_ok pg s" using db_inv_store [OF dinv s] by (simp add: store_inv_def)
  note facts = candidate_runs_facts [OF this cs]
  show "length xs \<le> nat k" using facts(2) by (simp add: xs)
  show "k_task_name x \<in> set names" if "x \<in> set xs"
    using that facts(3) by (auto simp: xs claimed_row_def claimable_def)
qed

lemma update_where_id: "update_where P id xs = xs"
  by (simp add: update_where_def map_idI)

lemma renew_checks:
  assumes inv: "store_inv pg n s" and att: "running_attempt s i r t lease"
  shows "store_ok pg (s\<lparr>runs := update_where (\<lambda>r. r_id r = i) (renew_run until) (runs s)\<rparr>)"
    and "store_inv pg n (s\<lparr>runs := update_where (\<lambda>r. r_id r = i) (renew_run until) (runs s)\<rparr>)"
proof -
  note auth = running_attempt_authoritative [OF inv att]
  have f: "keeps_run_identity (renew_run until)" by (simp add: keeps_run_identity_def renew_run_def)
  have st: "r_state (renew_run until r) = r_state r" for r by (simp add: renew_run_def)
  have ok: "store_ok pg s" using inv by (simp add: store_inv_def)
  have chk: "run_check pg (renew_run until r)"
    using auth(4) att by (auto simp: run_check_def renew_run_def running_attempt_def split: option.splits)
  show 1: "store_ok pg (s\<lparr>runs := update_where (\<lambda>r. r_id r = i) (renew_run until) (runs s)\<rparr>)"
    using att chk by (intro store_ok_update_run [OF ok _ f]) (auto simp: running_attempt_def st)
  show "store_inv pg n (s\<lparr>runs := update_where (\<lambda>r. r_id r = i) (renew_run until) (runs s)\<rparr>)"
    by (rule store_inv_attempt [OF inv att f, where g = id])
      (use 1 auth running_attemptD [OF att] att in
        \<open>simp_all add: authoritative_def renew_run_def running_attempt_def update_where_id\<close>)
qed

subsection \<open>Supervision\<close>

definition renewed_store :: "uuid \<Rightarrow> int \<Rightarrow> store \<Rightarrow> store" where
  "renewed_store i until s = s\<lparr>runs := update_where (\<lambda>r. r_id r = i) (renew_run until) (runs s)\<rparr>"

lemma renewed_attempt:
  assumes "running_attempt s i r t lease"
  shows "running_attempt (renewed_store i until s) i (renew_run until r) t (max lease until)"
proof -
  have "r_id r = i" using assms by (rule running_attemptD)
  then have "find_row r_id i (runs (renewed_store i until s)) = Some (renew_run until r)"
    using assms by (simp add: running_attempt_def renewed_store_def renew_run_def find_row_update_where)
  then show ?thesis using assms by (simp add: running_attempt_def renew_run_def renewed_store_def)
qed

lemma supervise_run_live:
  assumes inv: "db_inv pg db" and q: "queue_name_ok pg q" and s: "map_of (storage db) q = Some s"
    and att: "running_attempt s i r t lease" and live: "pg_clock pg (seq db) < lease"
    and due: "task_due t (pg_clock pg (seq db)) = Inr False" and n: "0 < n"
  shows "supervise_run pg q i (Some n) db =
    (Inr ''running'',
     if lease \<le> pg_clock pg (seq db) + n * 500000
     then put_store q (renewed_store i (pg_clock pg (seq db) + n * 1000000) s) (tick db)
     else tick db)"
proof -
  have rt: "find_row r_id i (runs s) = Some r" "find_row t_id (r_task_id r) (tasks s) = Some t"
    "r_state r = Running" "t_state t = Running" "t_last_attempt_run t = i"
    "r_claim_expires_at r = Some lease"
    using att by (simp_all add: running_attempt_def)
  note lock = lock_attempt_context_eval [OF q s rt(1,2)]
  show ?thesis
    using s live n due renew_checks(1) [OF db_inv_store [OF inv s] att]
    by (simp add: supervise_run_def ebind_apply esm_apply lock rt context_due_eval update_runs_def
        write_store_apply renewed_store_def)
qed

lemma supervise_run_cases:
  assumes run: "supervise_run pg q i renew db = (Inr x, db')"
    and lock: "lock_attempt_context pg q i db = (Inr u, d)"
  shows "db' = d \<or> (\<exists>b. cancel_task pg q (x_task_id u) d = (Inr b, db'))
    \<or> (\<exists>b. reap_expired_run pg q i d = (Inr b, db'))
    \<or> x_run_state u = Running \<and> x_task_state u = Running \<and> x_authoritative_run_id u = i
      \<and> x_claim_expires_at u \<noteq> None
      \<and> (\<exists>until. update_runs pg q (\<lambda>r. r_id r = i) (renew_run until) d = (Inr (), db'))"
  using run unfolding supervise_run_def statement_defs context_due_def
  by (auto simp: sql_steps ebind_Inr_iff eseq_Inr_iff lock esm_Inr_iff query_success
      split: if_splits option.splits)

lemma supervise_run_inv:
  assumes inv: "db_inv pg db" and inj: "inj (pg_uuid pg)"
    and run: "supervise_run pg q i renew db = (Inr x, db')"
  shows "db_inv pg db'"
proof -
  from run obtain u d where lock: "lock_attempt_context pg q i db = (Inr u, d)"
    unfolding supervise_run_def by (auto simp: sql_steps ebind_Inr_iff)
  from lock show ?thesis
  proof (rule lock_attempt_context_success)
    fix s r t
    assume a: "queue_name_ok pg q" "map_of (storage db) q = Some s"
      "find_row r_id i (runs s) = Some r" "find_row t_id (r_task_id r) (tasks s) = Some t"
      "u = attempt_context_of r t (pg_clock pg (seq db))" "d = tick db"
    have d: "db_inv pg d" using db_inv_tick [OF inv] a(6) by (simp add: tick_def)
    have renewed: "db_inv pg db'" if w: "update_runs pg q (\<lambda>r. r_id r = i) (renew_run until) d = (Inr (), db')"
      and st: "r_state r = Running" "t_state t = Running" "t_last_attempt_run t = i"
        "r_claim_expires_at r = Some lease" for until lease
    proof -
      have att: "running_attempt s i r t lease" using a st by (simp add: running_attempt_def)
      have "store_inv pg (Suc (seq db)) (renewed_store i until s)"
        unfolding renewed_store_def
        by (rule store_inv_mono [OF renew_checks(2) [OF db_inv_store [OF inv a(2)] att]]) simp
      from db_inv_put_tick(1) [OF inv a(2) this] show ?thesis
        using w a by (simp add: update_runs_def write_store_success renewed_store_def)
    qed
    from supervise_run_cases [OF run lock] show ?thesis
      using d cancel_task_inv [OF d] reap_expired_run_inv [OF d inj] renewed
      by (auto simp: a(5))
  qed
qed

end
