(* ===== verification/Checkpoints.thy ===== *)
theory Checkpoints
  imports Claiming
begin

section \<open>Workflow checkpoints\<close>

text \<open>
  \<open>set_task_checkpoint_state\<close> and \<open>get_task_checkpoint_states\<close> of \<open>sql/steda.sql\<close>. The locale
  \<open>write_once\<close> is the contract of a table whose rows are inserted with
  \<open>ON CONFLICT DO NOTHING\<close>: the first value of a key wins and is never replaced.
\<close>

subsection \<open>Definitions\<close>

definition ST001_deadline :: sql_error where
  "ST001_deadline = SqlError ''ST001'' ''Task cancellation deadline has elapsed''"

definition lookup_checkpoint :: "uuid \<times> string \<Rightarrow> store \<Rightarrow> json option" where
  "lookup_checkpoint k s =
     map_option c_state (find_row (\<lambda>c. (c_task_id c, c_name c)) k (checkpoints s))"

definition put_checkpoint :: "uuid \<times> string \<Rightarrow> json \<Rightarrow> store \<Rightarrow> store" where
  "put_checkpoint k v s =
     (if lookup_checkpoint k s \<noteq> None then s
      else s\<lparr>checkpoints := checkpoints s @ [\<lparr>c_task_id = fst k, c_name = snd k, c_state = v\<rparr>]\<rparr>)"

text \<open>\<open>INSERT \<dots> ON CONFLICT (task_id, name) DO NOTHING\<close>; the result says whether a row was
  inserted.\<close>

definition insert_checkpoint :: "pg \<Rightarrow> string \<Rightarrow> uuid \<Rightarrow> string \<Rightarrow> json \<Rightarrow> bool sql" where
  "insert_checkpoint pg q tid name v =
     ebind (query q (lookup_checkpoint (tid, name))) (\<lambda>existing.
       if \<not> name_check pg name then eraise check_violation
       else if existing \<noteq> None then ereturn False
       else eseq (write_store pg q (put_checkpoint (tid, name) v)) (ereturn True))"

definition set_task_checkpoint_state ::
    "pg \<Rightarrow> string \<Rightarrow> uuid \<Rightarrow> string \<Rightarrow> json \<Rightarrow> uuid \<Rightarrow> (json option \<times> bool) sql" where
  "set_task_checkpoint_state pg queue_name task_id checkpoint_name new_checkpoint_state run_id =
     eseq (eassert (\<not> pg_blank pg checkpoint_name)
       (raise_exception ''checkpoint_name must be provided''))
     (eseq (eassert (length checkpoint_name \<le> 1024)
       (raise_exception ''checkpoint_name must be at most 1024 bytes''))
     (ebind (lock_running_attempt pg queue_name run_id False) (\<lambda>context.
       if x_task_id context \<noteq> task_id
       then eraise (raise_exception ''Run % does not belong to task % in queue %'')
       else
         ebind (context_due context (x_observed_at context)) (\<lambda>due.
           if due then eraise ST001_deadline
           else
             ebind (insert_checkpoint pg queue_name task_id checkpoint_name new_checkpoint_state) (\<lambda>written.
               if written then ereturn (Some new_checkpoint_state, True)
               else
                 ebind (query queue_name (lookup_checkpoint (task_id, checkpoint_name))) (\<lambda>existing.
                   ereturn (existing, False)))))))"

definition get_task_checkpoint_states ::
    "pg \<Rightarrow> string \<Rightarrow> uuid \<Rightarrow> uuid \<Rightarrow> (string \<times> json) list sql" where
  "get_task_checkpoint_states pg queue_name task_id run_id =
     ebind (lock_running_attempt pg queue_name run_id False) (\<lambda>context.
       if x_task_id context \<noteq> task_id
       then eraise (raise_exception ''Run % does not belong to task % in queue %'')
       else query queue_name (\<lambda>s. map (\<lambda>c. (c_name c, c_state c))
         (filter (\<lambda>c. c_task_id c = task_id) (checkpoints s))))"

subsection \<open>Write-once tables\<close>

locale write_once =
  fixes lookup :: "'k \<Rightarrow> 's \<Rightarrow> 'v option"
    and put :: "'k \<Rightarrow> 'v \<Rightarrow> 's \<Rightarrow> 's"
  assumes lookup_put: "lookup k (put k v s) = Some (case lookup k s of None \<Rightarrow> v | Some w \<Rightarrow> w)"
    and lookup_put_other: "k' \<noteq> k \<Longrightarrow> lookup k' (put k v s) = lookup k' s"
begin

lemma put_keeps: "lookup k s = Some w \<Longrightarrow> lookup k (put k' v s) = Some w"
  by (cases "k' = k") (simp_all add: lookup_put lookup_put_other)

lemma put_all:
  "lookup k (fold (\<lambda>(k, v). put k v) ws s) =
    (case lookup k s of None \<Rightarrow> map_of ws k | Some w \<Rightarrow> Some w)"
proof (induction ws arbitrary: s)
  case Nil
  then show ?case by (simp split: option.split)
next
  case (Cons w ws)
  then show ?case
    by (cases w; cases "fst w = k") (auto simp: lookup_put lookup_put_other split: option.split)
qed

lemma put_all_keeps: "lookup k s = Some w \<Longrightarrow> lookup k (fold (\<lambda>(k, v). put k v) ws s) = Some w"
  by (simp add: put_all)

end

lemma lookup_checkpoint_append:
  "lookup_checkpoint k (s\<lparr>checkpoints := checkpoints s @ [c]\<rparr>) =
    (case lookup_checkpoint k s of
       None \<Rightarrow> if (c_task_id c, c_name c) = k then Some (c_state c) else None
     | Some v \<Rightarrow> Some v)"
proof -
  have "find_row key k (cs @ [c]) =
      (case find_row key k cs of None \<Rightarrow> if key c = k then Some c else None | Some d \<Rightarrow> Some d)"
    for key :: "checkpoint_row \<Rightarrow> uuid \<times> string" and cs
    by (induction cs) (auto simp: find_row_def)
  then show ?thesis by (auto simp: lookup_checkpoint_def split: option.split)
qed

interpretation checkpoint_table: write_once lookup_checkpoint put_checkpoint
proof unfold_locales
  fix k k' :: "uuid \<times> string" and v :: json and s :: store
  show "lookup_checkpoint k (put_checkpoint k v s) =
      Some (case lookup_checkpoint k s of None \<Rightarrow> v | Some w \<Rightarrow> w)"
    by (auto simp: put_checkpoint_def lookup_checkpoint_append split: option.split)
  show "k' \<noteq> k \<Longrightarrow> lookup_checkpoint k' (put_checkpoint k v s) = lookup_checkpoint k' s"
    by (auto simp: put_checkpoint_def lookup_checkpoint_append split: option.split)
qed

subsection \<open>Checkpoint writes\<close>

lemma put_checkpoint_sel [simp]:
  "tasks (put_checkpoint k v s) = tasks s" "runs (put_checkpoint k v s) = runs s"
  by (simp_all add: put_checkpoint_def)

lemma put_checkpoint_checks:
  assumes inv: "store_inv pg n s" and t: "tid \<in> t_id ` set (tasks s)" and nm: "name_check pg name"
  shows "store_ok pg (put_checkpoint (tid, name) v s)" and "store_inv pg n (put_checkpoint (tid, name) v s)"
proof -
  have "(tid, name) \<notin> (\<lambda>c. (c_task_id c, c_name c)) ` set (checkpoints s)"
    if "lookup_checkpoint (tid, name) s = None"
    using that by (simp add: lookup_checkpoint_def find_row_None_iff)
  then show ok: "store_ok pg (put_checkpoint (tid, name) v s)"
    using inv t nm unfolding store_inv_def store_ok_iff by (simp add: put_checkpoint_def)
  then show "store_inv pg n (put_checkpoint (tid, name) v s)"
    using inv by (simp add: store_inv_def ids_drawn_def)
qed

lemma set_checkpoint_eval:
  assumes inv: "db_inv pg db" and q: "queue_name_ok pg q" and s: "map_of (storage db) q = Some s"
    and att: "running_attempt s i r t lease" and live: "pg_clock pg (seq db) < lease"
    and nm: "name_check pg name"
  shows "set_task_checkpoint_state pg q (r_task_id r) name v i db =
    (case task_due t (pg_clock pg (seq db)) of
       Inl e \<Rightarrow> (Inl e, tick db)
     | Inr True \<Rightarrow> (Inl ST001_deadline, tick db)
     | Inr False \<Rightarrow>
         (case lookup_checkpoint (r_task_id r, name) s of
            None \<Rightarrow> (Inr (Some v, True),
              put_store q (put_checkpoint (r_task_id r, name) v s) (tick db))
          | Some w \<Rightarrow> (Inr (Some w, False), tick db)))"
proof -
  have lock: "lock_running_attempt pg q i False db =
      (Inr (attempt_context_of r t (pg_clock pg (seq db))), tick db)"
    using live by (intro lock_running_attempt_eval [OF q s att]) simp
  have "r_task_id r \<in> t_id ` set (tasks s)" using running_attemptD [OF att] by (metis imageI)
  note ok = put_checkpoint_checks(1) [OF db_inv_store [OF inv s] this nm, of v]
  show ?thesis
    using s ok nm
    by (auto simp: set_task_checkpoint_state_def insert_checkpoint_def ebind_apply esm_apply lock
        context_due_eval query_def write_store_apply name_check_def
        split: sum.split bool.split option.split)
qed

lemma set_checkpoint_inv:
  assumes inv: "db_inv pg db"
    and run: "set_task_checkpoint_state pg q tid name v i db = (Inr x, db')"
  shows "db_inv pg db'"
proof -
  from run obtain u d where lock: "lock_running_attempt pg q i False db = (Inr u, d)"
    and nm: "name_check pg name" and tid: "x_task_id u = tid"
    unfolding set_task_checkpoint_state_def name_check_def
    by (auto simp: sql_steps ebind_Inr_iff esm_Inr_iff split: if_splits)
  from lock inv show ?thesis
  proof (rule attempt_success)
    fix s r t lease
    assume a: "queue_name_ok pg q" "map_of (storage db) q = Some s" "running_attempt s i r t lease"
      "False = (lease \<le> pg_clock pg (seq db))" "store_inv pg (seq db) s"
      "u = attempt_context_of r t (pg_clock pg (seq db))"
    have live: "pg_clock pg (seq db) < lease" and tid': "tid = r_task_id r" using a(4,6) tid by auto
    note eval = set_checkpoint_eval [OF inv a(1-3) live nm, of v]
    have "r_task_id r \<in> t_id ` set (tasks s)" using running_attemptD [OF a(3)] by (metis imageI)
    note ok = put_checkpoint_checks(2) [OF a(5) this nm, of v]
    show ?thesis
      using run db_inv_put_tick [OF inv a(2)] store_inv_mono [OF ok]
      unfolding tid' eval by (auto split: sum.splits bool.splits option.splits)
  qed
qed

lemma get_checkpoints_eval:
  assumes inv: "db_inv pg db" and q: "queue_name_ok pg q" and s: "map_of (storage db) q = Some s"
    and att: "running_attempt s i r t lease" and live: "pg_clock pg (seq db) < lease"
  shows "get_task_checkpoint_states pg q (r_task_id r) i db =
    (Inr (map (\<lambda>c. (c_name c, c_state c))
       (filter (\<lambda>c. c_task_id c = r_task_id r) (checkpoints s))), tick db)"
proof -
  have lock: "lock_running_attempt pg q i False db =
      (Inr (attempt_context_of r t (pg_clock pg (seq db))), tick db)"
    using live by (intro lock_running_attempt_eval [OF q s att]) simp
  show ?thesis using s
    by (simp add: get_task_checkpoint_states_def ebind_apply esm_apply lock query_def)
qed

text \<open>The names loaded for a task are exactly its checkpoints.\<close>

lemma map_of_checkpoints:
  "map_of (map (\<lambda>c. (c_name c, c_state c)) (filter (\<lambda>c. c_task_id c = tid) cs)) name =
    map_option c_state (find_row (\<lambda>c. (c_task_id c, c_name c)) (tid, name) cs)"
  by (induction cs) (auto simp: find_row_def)

end
