(* ===== verification/Maintenance.thy ===== *)
theory Maintenance
  imports Checkpoints
begin

section \<open>Queue lifecycle, retention policy and cleanup\<close>

text \<open>
  \<open>create_queue_tables\<close>, \<open>verify_queue_storage\<close>, \<open>create_queue\<close>, \<open>drop_queue\<close>, \<open>list_queues\<close>,
  \<open>get_queue_policy\<close>, \<open>set_queue_policy\<close>, \<open>cleanup_tasks\<close> and \<open>cleanup_all_queues\<close> of
  \<open>sql/steda.sql\<close>. The tables of a queue are one entry of \<open>storage\<close>; the names of the relations
  they occupy in the schema are kept explicit, because PostgreSQL refuses to create a relation
  whose name is taken. Names are ordered bytewise (collation \<open>C\<close>), and an interval is a number of
  microseconds. The advisory lock of each function serialises the calls on one queue, as each
  call is one atomic transaction here.
\<close>

subsection \<open>Creating and dropping\<close>

definition duplicate_table :: sql_error where
  "duplicate_table = SqlError ''42P07'' ''relation already exists''"

text \<open>The relations \<open>create_queue_tables\<close> names, and the indexes PostgreSQL names for the primary
  keys and unique constraints. Tables and indexes share one namespace.\<close>

definition named_relations :: "string \<Rightarrow> string list" where
  "named_relations q =
     [''tasks_'' @ q, ''runs_'' @ q, ''checkpoints_'' @ q,
      ''runs_'' @ q @ ''_state_available_at_index'',
      ''runs_'' @ q @ ''_one_active_run_index'',
      ''runs_'' @ q @ ''_claim_expires_at_index'']"

definition key_indexes :: "string \<Rightarrow> string list" where
  "key_indexes q =
     [''tasks_'' @ q @ ''_pkey'', ''tasks_'' @ q @ ''_idempotency_key_key'', ''runs_'' @ q @ ''_pkey'',
      ''runs_'' @ q @ ''_task_id_attempt_key'', ''runs_'' @ q @ ''_task_id_id_key'',
      ''checkpoints_'' @ q @ ''_pkey'']"

definition relations :: "db \<Rightarrow> string set" where
  "relations db = (\<Union>q\<in>fst ` set (storage db). set (named_relations q) \<union> set (key_indexes q))"

definition create_queue_tables :: "pg \<Rightarrow> string \<Rightarrow> unit sql" where
  "create_queue_tables pg queue_name =
     eseq (sql_validate_queue_name pg queue_name)
     (ebind (egets (\<lambda>db. list_ex (\<lambda>n. n \<in> relations db) (named_relations queue_name))) (\<lambda>taken.
       if taken then eraise duplicate_table
       else emodify (\<lambda>db. db\<lparr>storage := (queue_name, empty_store) # storage db\<rparr>)))"

text \<open>\<open>verify_queue_storage\<close> checks the tables of an existing queue. Its checks of their columns, indexes
  and keys cannot fail here: a \<open>store\<close> always has the shape \<open>create_queue_tables\<close> gives it, since tables
  altered outside Steda are not modelled.\<close>

definition verify_queue_storage :: "pg \<Rightarrow> string \<Rightarrow> unit sql" where
  "verify_queue_storage pg queue_name =
     eseq (sql_validate_queue_name pg queue_name)
     (ebind (egets (\<lambda>db. map_of (storage db) queue_name)) (\<lambda>s.
       eassert (s \<noteq> None) (raise_exception ''Queue % storage is incomplete'')))"

definition queue_defaults :: "string \<Rightarrow> queue_row" where
  "queue_defaults name =
     \<lparr>q_name = name, q_cleanup_ttl = 30 * 86400 * 1000000, q_cleanup_limit = 1000\<rparr>"

definition registered :: "string \<Rightarrow> db \<Rightarrow> bool" where
  "registered name db \<longleftrightarrow> name \<in> set (map q_name (queues db))"

definition create_queue :: "pg \<Rightarrow> string \<Rightarrow> unit sql" where
  "create_queue pg queue_name =
     eseq (sql_validate_queue_name pg queue_name)
     (ebind (egets (registered queue_name)) (\<lambda>exists.
       if \<not> exists then
         eseq (emodify (\<lambda>db. db\<lparr>queues := queues db @ [queue_defaults queue_name]\<rparr>))
           (create_queue_tables pg queue_name)
       else verify_queue_storage pg queue_name))"

definition drop_queue :: "pg \<Rightarrow> string \<Rightarrow> unit sql" where
  "drop_queue pg queue_name =
     eseq (sql_validate_queue_name pg queue_name)
     (ebind (egets (registered queue_name)) (\<lambda>exists.
       if \<not> exists then ereturn ()
       else emodify (\<lambda>db. db\<lparr>storage := AList.delete queue_name (storage db),
         queues := delete_where (\<lambda>r. q_name r = queue_name) (queues db)\<rparr>)))"

definition list_queues :: "string list sql" where
  "list_queues = egets (\<lambda>db. sort (map q_name (queues db)))"

subsection \<open>Policy\<close>

definition get_queue_policy :: "pg \<Rightarrow> string \<Rightarrow> queue_row option sql" where
  "get_queue_policy pg requested_queue_name =
     eseq (sql_validate_queue_name pg requested_queue_name)
       (egets (\<lambda>db. find_row q_name requested_queue_name (queues db)))"

definition set_queue_policy :: "pg \<Rightarrow> string \<Rightarrow> int option \<Rightarrow> int option \<Rightarrow> unit sql" where
  "set_queue_policy pg queue_name ttl_seconds limit =
     eseq (sql_validate_queue_name pg queue_name)
     (ebind (egets (\<lambda>db. find_row q_name queue_name (queues db))) (\<lambda>row.
       case row of
         None \<Rightarrow> eraise (raise_exception ''Queue % does not exist'')
       | Some r \<Rightarrow>
           let effective_ttl = (case ttl_seconds of None \<Rightarrow> q_cleanup_ttl r | Some n \<Rightarrow> n * 1000000);
               effective_limit = (case limit of None \<Rightarrow> q_cleanup_limit r | Some n \<Rightarrow> n) in
           if effective_ttl < 0 then eraise (raise_exception ''cleanup_ttl must be non-negative'')
           else if effective_limit < 1
           then eraise (raise_exception ''cleanup_limit must be at least 1'')
           else emodify (\<lambda>db. db\<lparr>queues := update_where (\<lambda>r. q_name r = queue_name)
             (\<lambda>r. r\<lparr>q_cleanup_ttl := effective_ttl, q_cleanup_limit := effective_limit\<rparr>)
             (queues db)\<rparr>)))"

subsection \<open>Cleanup\<close>

definition terminal_at :: "store \<Rightarrow> task_row \<Rightarrow> int option" where
  "terminal_at s t =
     (let run = find_row r_id (t_last_attempt_run t) (runs s) in
      case t_state t of
        Completed \<Rightarrow> Option.bind run r_completed_at
      | Failed \<Rightarrow> Option.bind run r_failed_at
      | Cancelled \<Rightarrow> t_cancelled_at t
      | _ \<Rightarrow> None)"

definition tasks_to_delete :: "int \<Rightarrow> int \<Rightarrow> (uuid \<Rightarrow> bool) \<Rightarrow> store \<Rightarrow> uuid list" where
  "tasks_to_delete cutoff limit locked s =
     take (nat limit) (filter (\<lambda>i. \<not> locked i) (map t_id
       (sort_key (\<lambda>t. (the (terminal_at s t), t_id t))
         (filter (\<lambda>t. state_terminal (t_state t) \<and> (\<exists>a\<in>set_option (terminal_at s t). a \<le> cutoff))
           (tasks s)))))"

text \<open>Deleting task rows, with the cascade to their runs and checkpoints.\<close>

definition delete_tasks :: "uuid list \<Rightarrow> store \<Rightarrow> store" where
  "delete_tasks ids s =
     s\<lparr>tasks := delete_where (\<lambda>t. t_id t \<in> set ids) (tasks s),
       runs := delete_where (\<lambda>r. r_task_id r \<in> set ids) (runs s),
       checkpoints := delete_where (\<lambda>c. c_task_id c \<in> set ids) (checkpoints s)\<rparr>"

definition cleanup_tasks :: "pg \<Rightarrow> string \<Rightarrow> int sql" where
  "cleanup_tasks pg queue_name =
     ebind (current_time pg) (\<lambda>now_at.
     eseq (sql_validate_queue_name pg queue_name)
     (ebind (egets (\<lambda>db. find_row q_name queue_name (queues db))) (\<lambda>row.
       case row of
         None \<Rightarrow> eraise (raise_exception ''Queue % does not exist'')
       | Some r \<Rightarrow>
           ebind (locked_rows pg) (\<lambda>locked.
           ebind (query queue_name
             (tasks_to_delete (now_at - q_cleanup_ttl r) (q_cleanup_limit r) locked)) (\<lambda>ids.
           eseq (write_store pg queue_name (delete_tasks ids)) (ereturn (int (length ids))))))))"

fun cleanup_each :: "pg \<Rightarrow> string list \<Rightarrow> (string \<times> int) list sql" where
  "cleanup_each pg [] = ereturn []"
| "cleanup_each pg (q # qs) =
     ebind (cleanup_tasks pg q) (\<lambda>n. ebind (cleanup_each pg qs) (\<lambda>rest. ereturn ((q, n) # rest)))"

definition cleanup_all_queues :: "pg \<Rightarrow> string option \<Rightarrow> (string \<times> int) list sql" where
  "cleanup_all_queues pg requested =
     eseq (case requested of
         None \<Rightarrow> ereturn ()
       | Some q \<Rightarrow>
           eseq (sql_validate_queue_name pg q)
           (ebind (egets (registered q)) (\<lambda>exists.
             eassert exists (raise_exception ''Queue % does not exist''))))
     (ebind (egets (\<lambda>db. sort (filter (\<lambda>n. requested = None \<or> requested = Some n)
       (map q_name (queues db))))) (cleanup_each pg))"

subsection \<open>Cleanup keeps the invariant and removes only old terminal tasks\<close>

lemma distinct_filter_map: "distinct (filter Q (map g xs)) \<Longrightarrow> distinct (filter Q (map g (filter P xs)))"
  by (induction xs) (auto split: if_splits)

lemma delete_tasks_checks:
  assumes inv: "store_inv pg n s"
  shows "store_ok pg (delete_tasks ids s)" and "store_inv pg n (delete_tasks ids s)"
proof -
  have ok: "store_ok pg s" using inv by (simp add: store_inv_def)
  have "distinct (active_tasks (delete_where (\<lambda>r. r_task_id r \<in> set ids) (runs s)))"
    using ok by (auto simp: store_ok_iff active_tasks_def delete_where_def distinct_map intro: inj_on_subset)
  moreover have "distinct (filter (\<lambda>k. k \<noteq> None) (map t_idempotency_key
      (delete_where (\<lambda>t. t_id t \<in> set ids) (tasks s))))"
    using ok unfolding delete_where_def by (intro distinct_filter_map) (simp add: store_ok_iff)
  moreover have "r_task_id ` {r \<in> set (runs s). r_task_id r \<notin> set ids} \<subseteq> t_id ` {t \<in> set (tasks s). t_id t \<notin> set ids}"
    "c_task_id ` {c \<in> set (checkpoints s). c_task_id c \<notin> set ids} \<subseteq> t_id ` {t \<in> set (tasks s). t_id t \<notin> set ids}"
    using ok unfolding store_ok_iff by (fastforce simp: subset_iff image_iff)+
  ultimately show ok': "store_ok pg (delete_tasks ids s)"
    using ok unfolding store_ok_iff delete_tasks_def
    by (simp add: set_delete_where distinct_map_delete_where)
  have "runs_of tid (delete_where (\<lambda>r. r_task_id r \<in> set ids) (runs s)) = runs_of tid (runs s)"
    if "tid \<notin> set ids" for tid
    using that by (auto simp: runs_of_def delete_where_def intro: filter_cong)
  then have "task_consistent t (runs_of (t_id t) (runs (delete_tasks ids s)))"
    if "t \<in> set (tasks (delete_tasks ids s))" for t
    using that inv by (simp add: delete_tasks_def set_delete_where store_inv_def)
  moreover have "ids_drawn pg n (delete_tasks ids s)"
    using inv unfolding store_inv_def ids_drawn_def delete_tasks_def
    by (auto simp: set_delete_where subset_iff)
  ultimately show "store_inv pg n (delete_tasks ids s)" using ok' by (simp add: store_inv_def)
qed

lemma tasks_to_delete_facts:
  assumes "distinct (map t_id (tasks s))"
  shows "distinct (tasks_to_delete cutoff limit locked s)"
    and "length (tasks_to_delete cutoff limit locked s) \<le> nat limit"
    and "t \<in> set (tasks s) \<Longrightarrow> t_id t \<in> set (tasks_to_delete cutoff limit locked s) \<Longrightarrow>
      state_terminal (t_state t) \<and> (\<exists>a. terminal_at s t = Some a \<and> a \<le> cutoff)"
    and "set (tasks_to_delete cutoff limit locked s) \<subseteq> t_id ` set (tasks s)"
proof -
  let ?e = "filter (\<lambda>t. state_terminal (t_state t) \<and> (\<exists>a\<in>set_option (terminal_at s t). a \<le> cutoff)) (tasks s)"
  let ?key = "\<lambda>t. (the (terminal_at s t), t_id t)"
  have "distinct (map t_id ?e)" using assms by (rule distinct_map_filter)
  then have "distinct (map t_id (sort_key ?key ?e))" by (simp add: distinct_map)
  then show "distinct (tasks_to_delete cutoff limit locked s)"
    unfolding tasks_to_delete_def by (intro distinct_take distinct_filter)
  show "length (tasks_to_delete cutoff limit locked s) \<le> nat limit"
    by (simp add: tasks_to_delete_def)
  have mem: "i \<in> t_id ` set ?e" if "i \<in> set (tasks_to_delete cutoff limit locked s)" for i
    using in_set_takeD [OF that [unfolded tasks_to_delete_def]] by auto
  then show "set (tasks_to_delete cutoff limit locked s) \<subseteq> t_id ` set (tasks s)" by auto
  show "state_terminal (t_state t) \<and> (\<exists>a. terminal_at s t = Some a \<and> a \<le> cutoff)"
    if t: "t \<in> set (tasks s)" "t_id t \<in> set (tasks_to_delete cutoff limit locked s)"
  proof -
    from mem [OF t(2)] obtain u where u: "u \<in> set ?e" "t_id t = t_id u" by (rule imageE)
    then have "u = t" using distinct_keyD [OF assms, of u t] t(1) by simp
    with u show ?thesis by auto
  qed
qed

lemma cleanup_tasks_eval:
  assumes inv: "db_inv pg db" and q: "queue_name_ok pg q" and s: "map_of (storage db) q = Some s"
    and r: "find_row q_name q (queues db) = Some r"
  defines "ids \<equiv> tasks_to_delete (pg_clock pg (seq db) - q_cleanup_ttl r) (q_cleanup_limit r)
    (pg_locked pg (Suc (seq db))) s"
  shows "cleanup_tasks pg q db = (Inr (int (length ids)), put_store q (delete_tasks ids s) (tick db))"
  using s r delete_tasks_checks(1) [OF db_inv_store [OF inv s], of ids]
  by (simp add: cleanup_tasks_def ebind_apply esm_apply current_time_def query_def locked_rows_def scanned_rows_def
      sql_validate_queue_name_apply [OF q] write_store_apply ids_def tick_def)

lemma cleanup_tasks_success:
  assumes "cleanup_tasks pg q db = (Inr n, db')"
  obtains s r where "queue_name_ok pg q" "map_of (storage db) q = Some s"
    "find_row q_name q (queues db) = Some r"
  using assms unfolding cleanup_tasks_def locked_rows_def scanned_rows_def
  by (auto simp: sql_steps validate_step esm_Inr_iff split: option.splits)

lemma cleanup_tasks_inv:
  assumes inv: "db_inv pg db" and run: "cleanup_tasks pg q db = (Inr n, db')"
  shows "db_inv pg db'"
  using run
proof (rule cleanup_tasks_success)
  fix s r
  assume a: "queue_name_ok pg q" "map_of (storage db) q = Some s" "find_row q_name q (queues db) = Some r"
  note eval = cleanup_tasks_eval [OF inv a]
  show ?thesis
    using run db_inv_put_tick(1) [OF inv a(2)]
      store_inv_mono [OF delete_tasks_checks(2) [OF db_inv_store [OF inv a(2)]]]
    unfolding eval by auto
qed

lemma cleanup_each_inv: "db_inv pg db \<Longrightarrow> cleanup_each pg qs db = (Inr x, db') \<Longrightarrow> db_inv pg db'"
proof (induction qs arbitrary: db x)
  case Nil
  then show ?case by (simp add: esm_Inr_iff)
next
  case (Cons q qs)
  then show ?case by (auto simp: ebind_Inr_iff esm_Inr_iff dest: cleanup_tasks_inv)
qed

lemma cleanup_all_queues_inv:
  assumes "db_inv pg db" and "cleanup_all_queues pg rq db = (Inr x, db')"
  shows "db_inv pg db'"
proof -
  from assms(2) obtain qs where "cleanup_each pg qs db = (Inr x, db')"
    unfolding cleanup_all_queues_def
    by (auto simp: eseq_Inr_iff ebind_Inr_iff esm_Inr_iff sql_validate_queue_name_success
        split: option.splits)
  with assms(1) show ?thesis by (rule cleanup_each_inv)
qed

subsection \<open>Queue lifecycle\<close>

lemma registered_iff_stored:
  "db_inv pg db \<Longrightarrow> registered q db \<longleftrightarrow> map_of (storage db) q \<noteq> None"
  by (auto simp: db_inv_def registered_def map_of_eq_None_iff)

lemma create_queue_eval:
  assumes q: "queue_name_ok pg q"
  shows "create_queue pg q db =
    (if registered q db
     then (if map_of (storage db) q \<noteq> None then Inr ()
           else Inl (raise_exception ''Queue % storage is incomplete''), db)
     else if \<exists>n\<in>set (named_relations q). n \<in> relations db
     then (Inl duplicate_table, db\<lparr>queues := queues db @ [queue_defaults q]\<rparr>)
     else (Inr (), db\<lparr>queues := queues db @ [queue_defaults q],
       storage := (q, empty_store) # storage db\<rparr>))"
  by (simp add: create_queue_def create_queue_tables_def verify_queue_storage_def ebind_apply esm_apply
      sql_validate_queue_name_apply [OF q] list_ex_iff relations_def)

lemma create_queue_inv:
  assumes inv: "db_inv pg db" and run: "create_queue pg q db = (Inr x, db')"
  shows "db_inv pg db'"
proof -
  have q: "queue_name_ok pg q" using run by (simp add: create_queue_def validate_step)
  show ?thesis
  proof (cases "registered q db")
    case True
    then show ?thesis using run inv unfolding create_queue_eval [OF q] by (auto split: if_splits)
  next
    case False
    then have db': "db' = db\<lparr>queues := queues db @ [queue_defaults q],
        storage := (q, empty_store) # storage db\<rparr>"
      using run unfolding create_queue_eval [OF q] by (auto split: if_splits)
    have "q \<notin> fst ` set (storage db)" "q \<notin> q_name ` set (queues db)"
      using False inv by (auto simp: db_inv_def registered_def)
    then show ?thesis using inv store_inv_empty unfolding db'
      by (auto simp: db_inv_def queue_defaults_def queue_check_def)
  qed
qed

lemma drop_queue_inv:
  assumes inv: "db_inv pg db" and run: "drop_queue pg q db = (Inr x, db')"
  shows "db_inv pg db'"
proof (cases "registered q db")
  case True
  then have db': "db' = db\<lparr>storage := AList.delete q (storage db),
      queues := delete_where (\<lambda>r. q_name r = q) (queues db)\<rparr>"
    using run unfolding drop_queue_def by (simp add: validate_step sql_steps esm_Inr_iff)
  have "set (AList.delete q (storage db)) = {(p, s) \<in> set (storage db). p \<noteq> q}"
    by (auto simp: AList.delete_eq)
  moreover from this have "fst ` set (AList.delete q (storage db)) = fst ` set (storage db) - {q}" by auto
  moreover have "q_name ` set (delete_where (\<lambda>r. q_name r = q) (queues db)) = q_name ` set (queues db) - {q}"
    by (auto simp: set_delete_where)
  ultimately show ?thesis using inv unfolding db' db_inv_def
    by (auto simp: set_delete_where distinct_map_delete_where distinct_delete)
qed (use run inv in \<open>simp add: drop_queue_def validate_step sql_steps esm_Inr_iff\<close>)

lemma set_queue_policy_inv:
  assumes inv: "db_inv pg db" and run: "set_queue_policy pg q ttl limit db = (Inr x, db')"
  shows "db_inv pg db'"
proof -
  from run obtain r where r: "find_row q_name q (queues db) = Some r"
    unfolding set_queue_policy_def by (auto simp: validate_step sql_steps esm_Inr_iff split: option.splits)
  define ttl' where "ttl' = (case ttl of None \<Rightarrow> q_cleanup_ttl r | Some n \<Rightarrow> n * 1000000)"
  define limit' where "limit' = (case limit of None \<Rightarrow> q_cleanup_limit r | Some n \<Rightarrow> n)"
  have "0 \<le> ttl' \<and> 1 \<le> limit' \<and> db' = db\<lparr>queues := update_where (\<lambda>r. q_name r = q)
      (\<lambda>r. r\<lparr>q_cleanup_ttl := ttl', q_cleanup_limit := limit'\<rparr>) (queues db)\<rparr>"
    using run r
    by (simp add: set_queue_policy_def Let_def validate_step sql_steps esm_Inr_iff
        ttl'_def [symmetric] limit'_def [symmetric] not_less split: if_splits)
  moreover from this inv have "\<forall>r\<in>set (queues db'). queue_check r"
    by (auto simp: db_inv_def set_update_where queue_check_def)
  ultimately show ?thesis using inv unfolding db_inv_def
    by (simp add: map_update_where image_update_where)
qed

end
