(* ===== verification/History.thy ===== *)
theory History
  imports Maintenance
begin

section \<open>How stored rows evolve\<close>

text \<open>
  What every function of \<open>sql/steda.sql\<close> keeps of the rows it finds: the submission of a task is
  immutable, its state moves only along the edges of \<open>lifecycle\<close>, attempts and budget never
  shrink, runs in a terminal state are never touched again, and checkpoints are never replaced.
  The relation \<open>db_evolves\<close> is a preorder, so a fact about one call is a fact about every
  sequence of calls. It speaks about rows with an old identifier that are still there: rows may
  disappear through cleanup and queue removal, and new ones carry new identifiers.
\<close>

inductive lifecycle :: "TaskState \<Rightarrow> TaskState \<Rightarrow> bool" where
  claim: "s = Pending \<or> s = Sleeping \<Longrightarrow> lifecycle s Running"
| finish: "lifecycle Running Completed"
| give_up: "lifecycle Running Failed"
| suspend: "lifecycle Running Sleeping"
| retry_now: "lifecycle Running Pending"
| cancel: "state_active s \<Longrightarrow> lifecycle s Cancelled"
| reopen: "lifecycle Failed Pending"

code_pred lifecycle .

inductive_simps lifecycle_from_completed: "lifecycle Completed s"
inductive_simps lifecycle_from_cancelled: "lifecycle Cancelled s"
inductive_simps lifecycle_from_failed: "lifecycle Failed s"

definition task_evolves :: "task_row \<Rightarrow> task_row \<Rightarrow> bool" where
  "task_evolves t t' \<longleftrightarrow>
     t_id t' = t_id t \<and> t_name t' = t_name t \<and> t_params t' = t_params t \<and> t_headers t' = t_headers t
   \<and> t_retry_strategy t' = t_retry_strategy t \<and> t_initial_max_attempts t' = t_initial_max_attempts t
   \<and> t_cancellation t' = t_cancellation t \<and> t_enqueue_at t' = t_enqueue_at t
   \<and> t_idempotency_key t' = t_idempotency_key t
   \<and> t_attempts t \<le> t_attempts t' \<and> t_max_attempts t \<le> t_max_attempts t'
   \<and> (t_first_started_at t \<noteq> None \<longrightarrow> t_first_started_at t' = t_first_started_at t)
   \<and> (t_state t = Completed \<or> t_state t = Cancelled \<longrightarrow> t' = t)
   \<and> (t_state t = Failed \<longrightarrow> t' = t \<or> t_attempts t < t_attempts t')
   \<and> lifecycle\<^sup>*\<^sup>* (t_state t) (t_state t')"

definition run_evolves :: "run_row \<Rightarrow> run_row \<Rightarrow> bool" where
  "run_evolves r r' \<longleftrightarrow>
     r_id r' = r_id r \<and> r_task_id r' = r_task_id r \<and> r_attempt r' = r_attempt r
   \<and> (state_terminal (r_state r) \<longrightarrow> r' = r)"

text \<open>The identifiers drawn before the \<open>n\<close>-th.\<close>

definition drawn :: "pg \<Rightarrow> nat \<Rightarrow> uuid \<Rightarrow> bool" where
  "drawn pg n i \<longleftrightarrow> i \<in> pg_uuid pg ` {..<n}"

definition store_evolves :: "pg \<Rightarrow> nat \<Rightarrow> store \<Rightarrow> store \<Rightarrow> bool" where
  "store_evolves pg n s s' \<longleftrightarrow>
     (\<forall>t'\<in>set (tasks s'). drawn pg n (t_id t') \<longrightarrow>
        (\<exists>t\<in>set (tasks s). task_evolves t t')
      \<and> (\<forall>name v. lookup_checkpoint (t_id t', name) s = Some v \<longrightarrow>
           lookup_checkpoint (t_id t', name) s' = Some v))
   \<and> (\<forall>r'\<in>set (runs s'). drawn pg n (r_id r') \<longrightarrow> (\<exists>r\<in>set (runs s). run_evolves r r'))"

definition store_at :: "string \<Rightarrow> db \<Rightarrow> store" where
  "store_at q db = (case map_of (storage db) q of None \<Rightarrow> empty_store | Some s \<Rightarrow> s)"

definition db_evolves :: "pg \<Rightarrow> db \<Rightarrow> db \<Rightarrow> bool" where
  "db_evolves pg db db' \<longleftrightarrow>
     seq db \<le> seq db' \<and> (\<forall>q. store_evolves pg (seq db) (store_at q db) (store_at q db'))"

subsection \<open>A preorder\<close>

lemma task_evolves_refl [simp]: "task_evolves t t"
  by (simp add: task_evolves_def)

lemma task_evolves_trans: "task_evolves t u \<Longrightarrow> task_evolves u v \<Longrightarrow> task_evolves t v"
  unfolding task_evolves_def by (auto intro: rtranclp_trans)

lemma run_evolves_refl [simp]: "run_evolves r r"
  by (simp add: run_evolves_def)

lemma run_evolves_trans: "run_evolves r u \<Longrightarrow> run_evolves u v \<Longrightarrow> run_evolves r v"
  unfolding run_evolves_def by auto

lemma store_evolves_refl: "store_evolves pg n s s"
  by (auto simp: store_evolves_def intro: bexI task_evolves_refl run_evolves_refl)

lemma store_evolves_empty: "store_evolves pg n s empty_store"
  by (simp add: store_evolves_def empty_store_def)

lemma store_evolves_trans:
  assumes a: "store_evolves pg n s s'" and b: "store_evolves pg m s' s''" and nm: "n \<le> m"
  shows "store_evolves pg n s s''"
proof -
  have old: "drawn pg m i" if "drawn pg n i" for i
    using that nm unfolding drawn_def by (meson image_mono lessThan_subset_iff subsetD)
  have ids: "t_id u = t_id v" if "task_evolves u v" for u v using that by (simp add: task_evolves_def)
  have rids: "r_id u = r_id v" if "run_evolves u v" for u v using that by (simp add: run_evolves_def)
  have tasks: "(\<exists>t\<in>set (tasks s). task_evolves t t'')
      \<and> (\<forall>name v. lookup_checkpoint (t_id t'', name) s = Some v \<longrightarrow>
           lookup_checkpoint (t_id t'', name) s'' = Some v)"
    if t: "t'' \<in> set (tasks s'')" "drawn pg n (t_id t'')" for t''
  proof -
    obtain t' where t': "t' \<in> set (tasks s')" "task_evolves t' t''"
      and c: "\<forall>name v. lookup_checkpoint (t_id t'', name) s' = Some v \<longrightarrow>
        lookup_checkpoint (t_id t'', name) s'' = Some v"
      using b t old unfolding store_evolves_def by blast
    have same: "t_id t' = t_id t''" using ids t' by blast
    then obtain t where "t \<in> set (tasks s)" "task_evolves t t'"
      and "\<forall>name v. lookup_checkpoint (t_id t'', name) s = Some v \<longrightarrow>
        lookup_checkpoint (t_id t'', name) s' = Some v"
      using a t(2) t'(1) unfolding store_evolves_def by metis
    then show ?thesis using c task_evolves_trans [OF _ t'(2)] by blast
  qed
  have "\<exists>r\<in>set (runs s). run_evolves r r''"
    if r: "r'' \<in> set (runs s'')" "drawn pg n (r_id r'')" for r''
  proof -
    obtain r' where r': "r' \<in> set (runs s')" "run_evolves r' r''"
      using b r old unfolding store_evolves_def by blast
    have "r_id r' = r_id r''" using rids r' by blast
    then obtain r where "r \<in> set (runs s)" "run_evolves r r'"
      using a r(2) r'(1) unfolding store_evolves_def by metis
    then show ?thesis using run_evolves_trans [OF _ r'(2)] by blast
  qed
  with tasks show ?thesis unfolding store_evolves_def by blast
qed

lemma db_evolves_refl: "db_evolves pg db db"
  by (simp add: db_evolves_def store_evolves_refl)

lemma db_evolves_trans: "db_evolves pg a b \<Longrightarrow> db_evolves pg b c \<Longrightarrow> db_evolves pg a c"
  unfolding db_evolves_def by (meson order_trans store_evolves_trans)

lemma store_at_put: "store_at p (put_store q s db) = (if p = q then s else store_at p db)"
  by (simp add: store_at_def put_store_other)

lemma store_at_seq [simp]: "store_at p (db\<lparr>seq := n\<rparr>) = store_at p db"
  by (simp add: store_at_def)

lemma store_at_tick [simp]: "store_at p (tick db) = store_at p db"
  by (simp add: store_at_def)

lemma db_evolves_seq: "seq db \<le> n \<Longrightarrow> db_evolves pg db (db\<lparr>seq := n\<rparr>)"
  by (simp add: db_evolves_def store_evolves_refl)

lemma db_evolves_put:
  assumes "map_of (storage db) q = Some s" and "store_evolves pg (seq db) s s'" and "seq db \<le> seq d"
    and "storage d = storage db"
  shows "db_evolves pg db (put_store q s' d)"
proof -
  have "store_at p d = store_at p db" for p using assms(4) by (simp add: store_at_def)
  moreover have "store_at q db = s" using assms(1) by (simp add: store_at_def)
  ultimately show ?thesis using assms(2,3)
    by (simp add: db_evolves_def store_at_put store_evolves_refl)
qed

text \<open>Updating rows in place and appending new ones.\<close>

lemma store_evolves_rows:
  assumes ts: "\<And>t'. t' \<in> set (tasks s') \<Longrightarrow>
      (\<exists>t\<in>set (tasks s). task_evolves t t') \<or> \<not> drawn pg n (t_id t')"
    and rs: "\<And>r'. r' \<in> set (runs s') \<Longrightarrow>
      (\<exists>r\<in>set (runs s). run_evolves r r') \<or> \<not> drawn pg n (r_id r')"
    and cs: "checkpoints s' = checkpoints s"
  shows "store_evolves pg n s s'"
proof -
  have "lookup_checkpoint k s' = lookup_checkpoint k s" for k by (simp add: lookup_checkpoint_def cs)
  with ts rs show ?thesis unfolding store_evolves_def by auto
qed

lemma in_update_where:
  "x' \<in> set (update_where P f xs) \<Longrightarrow> (\<And>x. x \<in> set xs \<Longrightarrow> P x \<Longrightarrow> R x (f x)) \<Longrightarrow> (\<And>x. R x x) \<Longrightarrow>
    \<exists>x\<in>set xs. R x x'"
  by (auto simp: update_where_def)

lemma store_evolves_update:
  assumes ts: "tasks s' = update_where P g (tasks s)"
    "\<And>t. t \<in> set (tasks s) \<Longrightarrow> P t \<Longrightarrow> task_evolves t (g t)"
    and rs: "runs s' = update_where Q f (runs s) @ new" "\<And>r. r \<in> set (runs s) \<Longrightarrow> Q r \<Longrightarrow> run_evolves r (f r)"
      "\<And>r. r \<in> set new \<Longrightarrow> \<not> drawn pg n (r_id r)"
    and cs: "checkpoints s' = checkpoints s"
  shows "store_evolves pg n s s'"
proof (rule store_evolves_rows [OF _ _ cs])
  fix t' assume "t' \<in> set (tasks s')"
  then show "(\<exists>t\<in>set (tasks s). task_evolves t t') \<or> \<not> drawn pg n (t_id t')"
    unfolding ts(1) using in_update_where [where R = task_evolves] ts(2) task_evolves_refl by blast
next
  fix r' assume "r' \<in> set (runs s')"
  then consider "r' \<in> set (update_where Q f (runs s))" | "r' \<in> set new" unfolding rs(1) by auto
  then show "(\<exists>r\<in>set (runs s). run_evolves r r') \<or> \<not> drawn pg n (r_id r')"
    using in_update_where [where R = run_evolves] rs(2,3) run_evolves_refl by cases blast+
qed

subsection \<open>Row updates\<close>

lemma lifecycle_step: "lifecycle a b \<Longrightarrow> lifecycle\<^sup>*\<^sup>* a b"
  by (rule r_into_rtranclp)

lemma evolves_cancelled: "state_active (t_state t) \<Longrightarrow> task_evolves t (mark_cancelled now t)"
  by (auto simp: task_evolves_def mark_cancelled_def intro: lifecycle_step lifecycle.cancel)

lemma evolves_completed:
  "t_state t = Running \<Longrightarrow> task_evolves t (t\<lparr>t_state := Completed, t_last_attempt_run := i\<rparr>)"
  by (simp add: task_evolves_def lifecycle_step lifecycle.finish)

lemma evolves_suspended: "t_state t = Running \<Longrightarrow> task_evolves t (t\<lparr>t_state := Sleeping\<rparr>)"
  by (simp add: task_evolves_def lifecycle_step lifecycle.suspend)

lemma evolves_failure:
  "t_state t = Running \<Longrightarrow> st = Failed \<or> st = Pending \<or> st = Sleeping \<Longrightarrow>
    task_evolves t (record_failure st att i t)"
  by (auto simp: task_evolves_def record_failure_def
      intro: lifecycle_step lifecycle.give_up lifecycle.retry_now lifecycle.suspend)

lemma evolves_reopened:
  "t_state t = Failed \<Longrightarrow> task_evolves t (reopen_task (t_attempts t + 1) i t)"
  by (simp add: task_evolves_def reopen_task_def lifecycle_step lifecycle.reopen)

lemma evolves_started:
  "t_state t = Pending \<or> t_state t = Sleeping \<Longrightarrow> task_evolves t (start_task now r t)"
  by (auto simp: task_evolves_def start_task_def intro: lifecycle_step lifecycle.claim)

lemma run_evolves_active: "keeps_run_identity f \<Longrightarrow> state_active (r_state r) \<Longrightarrow> run_evolves r (f r)"
  by (simp add: run_evolves_def keeps_run_identity_def)

lemma attempt_evolves:
  assumes inv: "store_inv pg n s" and att: "running_attempt s i r t lease"
    and f: "keeps_run_identity f" and g: "task_evolves t (g t)"
    and s': "runs s' = update_where (\<lambda>r. r_id r = i) f (runs s) @ new"
      "tasks s' = update_where (\<lambda>t. t_id t = r_task_id r) g (tasks s)" "checkpoints s' = checkpoints s"
    and new: "\<And>r. r \<in> set new \<Longrightarrow> \<not> drawn pg k (r_id r)"
  shows "store_evolves pg k s s'"
proof (rule store_evolves_update [OF s'(2) _ s'(1) _ new s'(3)])
  note a = running_attemptD [OF att]
  show "task_evolves t' (g t')" if "t' \<in> set (tasks s)" "t_id t' = r_task_id r" for t'
    using that a g store_inv_task_unique [OF inv, of t' t] by simp
  show "run_evolves r' (f r')" if "r' \<in> set (runs s)" "r_id r' = i" for r'
  proof -
    have "r' = r" using that a store_inv_run_unique [OF inv, of r' r] by simp
    then show ?thesis using run_evolves_active [OF f] att by (simp add: running_attempt_def)
  qed
qed

lemma cancelled_evolves:
  assumes inv: "store_inv pg n s" and t: "find_row t_id tid (tasks s) = Some t"
    and active: "state_active (t_state t)"
  shows "store_evolves pg k s (cancelled_store now tid s)"
proof (rule store_evolves_update [where new = "[]"])
  show "task_evolves t' (mark_cancelled now t')" if "t' \<in> set (tasks s)" "t_id t' = tid" for t'
    using that find_row_SomeD [OF t] active store_inv_task_unique [OF inv, of t' t]
    by (simp add: evolves_cancelled)
  show "run_evolves r (cancel_run r)" if "r_task_id r = tid \<and> state_active (r_state r)" for r
    using that run_evolves_active [OF keeps_identity(2)] by simp
qed (simp_all add: cancelled_store_def)

lemma not_drawn_fresh: "inj (pg_uuid pg) \<Longrightarrow> n \<le> m \<Longrightarrow> \<not> drawn pg n (pg_uuid pg m)"
  by (auto simp: drawn_def inj_eq)

lemma completed_evolves:
  assumes inv: "store_inv pg n s" and att: "running_attempt s i r t lease"
  shows "store_evolves pg k s (completed_store now i (r_task_id r) res s)"
  by (rule attempt_evolves [OF inv att keeps_identity(3), where new = "[]" and
        g = "\<lambda>t. t\<lparr>t_state := Completed, t_last_attempt_run := i\<rparr>"])
    (use att in \<open>simp_all add: completed_store_def running_attempt_def evolves_completed\<close>)

lemma suspended_evolves:
  assumes inv: "store_inv pg n s" and att: "running_attempt s i r t lease"
  shows "store_evolves pg k s (suspended_store wake i (r_task_id r) s)"
  by (rule attempt_evolves [OF inv att keeps_identity(4), where new = "[]" and g = "\<lambda>t. t\<lparr>t_state := Sleeping\<rparr>"])
    (use att in \<open>simp_all add: suspended_store_def running_attempt_def evolves_suspended\<close>)

lemma exhausted_evolves:
  assumes inv: "store_inv pg n s" and att: "running_attempt s i r t lease"
  shows "store_evolves pg k s (exhausted_store now i reason (r_task_id r) a s)"
  by (rule attempt_evolves [OF inv att keeps_identity(5), where new = "[]" and g = "record_failure Failed a i"])
    (use att in \<open>simp_all add: exhausted_store_def running_attempt_def evolves_failure\<close>)

lemma failed_cancelled_evolves:
  assumes inv: "store_inv pg n s" and att: "running_attempt s i r t lease"
  shows "store_evolves pg k s (cancelled_store now' (r_task_id r) (failed_store now i reason s))"
  unfolding failed_cancelled [OF inv att]
  by (rule attempt_evolves [OF inv att keeps_identity(5), where new = "[]" and g = "mark_cancelled now'"])
    (use att in \<open>simp_all add: running_attempt_def evolves_cancelled\<close>)

lemma retried_evolves:
  assumes inv: "store_inv pg n s" and att: "running_attempt s i r t lease" and inj: "inj (pg_uuid pg)"
    and st: "st = Pending \<or> st = Sleeping" and k: "k \<le> m"
  shows "store_evolves pg k s
    (retried_store now i reason (r_task_id r) a st avail (pg_uuid pg m) s)"
  by (rule attempt_evolves [OF inv att keeps_identity(5), where g = "record_failure st a (pg_uuid pg m)" and
        new = "[new_run (pg_uuid pg m) (r_task_id r) a st avail]"])
    (use att st not_drawn_fresh [OF inj k] in
      \<open>auto simp: retried_store_def running_attempt_def new_run_def evolves_failure\<close>)

lemma renewed_evolves:
  assumes inv: "store_inv pg n s" and att: "running_attempt s i r t lease"
  shows "store_evolves pg k s (renewed_store i until s)"
  by (rule attempt_evolves [OF inv att, where new = "[]" and g = id])
    (simp_all add: renewed_store_def keeps_run_identity_def renew_run_def update_where_id)

lemma reopened_evolves:
  assumes inv: "store_inv pg n s" and t: "find_row t_id tid (tasks s) = Some t"
    and failed: "t_state t = Failed" and inj: "inj (pg_uuid pg)" and k: "k \<le> m"
  shows "store_evolves pg k s (reopened_store now tid (t_attempts t + 1) (pg_uuid pg m) s)"
proof (rule store_evolves_update [where Q = "\<lambda>_. False"])
  show "task_evolves t' (reopen_task (t_attempts t + 1) (pg_uuid pg m) t')"
    if "t' \<in> set (tasks s)" "t_id t' = tid" for t'
    using that find_row_SomeD [OF t] failed store_inv_task_unique [OF inv, of t' t]
    by (simp add: evolves_reopened)
qed (use not_drawn_fresh [OF inj k] in
    \<open>auto simp: reopened_store_def update_where_def new_run_def\<close>)

lemma spawned_evolves:
  assumes inj: "inj (pg_uuid pg)" and k: "k \<le> n"
  shows "store_evolves pg k s (spawned_store rq (pg_uuid pg n) (pg_uuid pg (Suc n)) now s)"
proof (rule store_evolves_rows)
  let ?s = "spawned_store rq (pg_uuid pg n) (pg_uuid pg (Suc n)) now s"
  fix t' assume "t' \<in> set (tasks ?s)"
  then have "t' \<in> set (tasks s) \<or> t_id t' = pg_uuid pg n"
    by (auto simp: spawned_store_def task_of_request_def)
  then show "(\<exists>t\<in>set (tasks s). task_evolves t t') \<or> \<not> drawn pg k (t_id t')"
    using not_drawn_fresh [OF inj k] task_evolves_refl by metis
next
  let ?s = "spawned_store rq (pg_uuid pg n) (pg_uuid pg (Suc n)) now s"
  fix r' assume "r' \<in> set (runs ?s)"
  then have "r' \<in> set (runs s) \<or> r_id r' = pg_uuid pg (Suc n)"
    by (auto simp: spawned_store_def new_run_def)
  then show "(\<exists>r\<in>set (runs s). run_evolves r r') \<or> \<not> drawn pg k (r_id r')"
    using not_drawn_fresh [OF inj, of k "Suc n"] k run_evolves_refl by (metis le_SucI)
qed (simp add: spawned_store_def)

lemma claimed_evolves:
  assumes inv: "store_inv pg n s" and c: "candidate_runs now j names locked scans s = Inr cs"
  shows "store_evolves pg k s (claimed_store worker expires now cs s)"
proof (rule store_evolves_update [where new = "[]"])
  have ok: "store_ok pg s" using inv by (simp add: store_inv_def)
  note facts = candidate_runs_facts(3) [OF ok c]
  show "task_evolves t (start_claimed_task now cs t)"
    if t: "t \<in> set (tasks s)" "t_id t \<in> set (map (\<lambda>(r, t). r_task_id r) cs)" for t
  proof -
    obtain r where "(r, t) \<in> set cs" "start_claimed_task now cs t = start_task now r t"
      using start_claimed_task_eq [OF inv c t] .
    then show ?thesis using facts [of r t] by (simp add: claimable_def evolves_started)
  qed
  show "run_evolves r (start_run worker expires now r)"
    if r: "r \<in> set (runs s)" "r_id r \<in> set (map (\<lambda>(r, t). r_id r) cs)" for r
  proof -
    obtain r' t where rt: "(r', t) \<in> set cs" "r_id r = r_id r'" using r(2) by auto
    then have "r' = r" using facts [OF rt(1)] r(1) store_inv_run_unique [OF inv] by metis
    then have "state_active (r_state r)" using facts [OF rt(1)] by (auto simp: claimable_def)
    then show ?thesis by (intro run_evolves_active) (simp_all add: keeps_run_identity_def start_run_def)
  qed
qed (simp_all add: claimed_store_def)

lemma put_checkpoint_evolves: "store_evolves pg k s (put_checkpoint c v s)"
  unfolding store_evolves_def
  by (auto intro: bexI task_evolves_refl run_evolves_refl checkpoint_table.put_keeps)

lemma delete_tasks_evolves: "store_evolves pg k s (delete_tasks ids s)"
proof -
  have "lookup_checkpoint (tid, name) (delete_tasks ids s) = lookup_checkpoint (tid, name) s"
    if "tid \<notin> set ids" for tid name
  proof -
    have "find_row (\<lambda>c. (c_task_id c, c_name c)) (tid, name) (delete_where (\<lambda>c. c_task_id c \<in> set ids) cs) =
        find_row (\<lambda>c. (c_task_id c, c_name c)) (tid, name) cs" for cs :: "checkpoint_row list"
      using that by (induction cs) (auto simp: find_row_def delete_where_def)
    then show ?thesis by (simp add: lookup_checkpoint_def delete_tasks_def)
  qed
  then show ?thesis unfolding store_evolves_def
    by (auto simp: delete_tasks_def set_delete_where intro: bexI task_evolves_refl run_evolves_refl)
qed

subsection \<open>Functions\<close>

lemma db_evolves_tick: "db_evolves pg db (tick db)" "db_evolves pg db (tick (tick db))"
  using db_evolves_seq [of db "Suc (seq db)"] db_evolves_seq [of db "Suc (Suc (seq db))"]
  by (simp_all add: tick_def)

lemma db_evolves_put_tick:
  assumes "map_of (storage db) q = Some s" and "store_evolves pg (seq db) s s'"
  shows "db_evolves pg db (put_store q s' (tick db))" "db_evolves pg db (put_store q s' (tick (tick db)))"
  by (rule db_evolves_put [OF assms]; simp)+

lemma cancel_task_evolves:
  assumes inv: "db_inv pg db" and run: "cancel_task pg q tid db = (Inr b, db')"
  shows "db_evolves pg db db'"
  using run
proof (rule cancel_task_found)
  fix s t
  assume q: "queue_name_ok pg q" "map_of (storage db) q = Some s" "find_row t_id tid (tasks s) = Some t"
  note si = db_inv_store [OF inv q(2)]
  then have "store_ok pg s" by (simp add: store_inv_def)
  note eval = cancel_task_eval [OF q(1,2) this q(3)]
  show ?thesis
    using run db_evolves_put_tick(1) [OF q(2) cancelled_evolves [OF si q(3)]] db_evolves_tick(1) [of pg db]
    unfolding eval by (auto split: if_splits)
qed

lemma complete_run_evolves:
  assumes inv: "db_inv pg db" and run: "complete_run pg q i res db = (Inr b, db')"
  shows "db_evolves pg db db'"
proof -
  from run obtain x d where lock: "lock_running_attempt pg q i False db = (Inr x, d)"
    by (auto simp: complete_run_def ebind_Inr_iff)
  from lock inv show ?thesis
  proof (rule attempt_success)
    fix s r t lease
    assume a: "queue_name_ok pg q" "map_of (storage db) q = Some s" "running_attempt s i r t lease"
      "False = (lease \<le> pg_clock pg (seq db))" "store_inv pg (seq db) s"
    have live: "pg_clock pg (seq db) < lease" using a(4) by simp
    have t: "find_row t_id (r_task_id r) (tasks s) = Some t" "state_active (t_state t)"
      using a(3) by (auto simp: running_attempt_def)
    show ?thesis
      using run db_evolves_put_tick(2) [OF a(2) cancelled_evolves [OF a(5) t]]
        db_evolves_put_tick(1) [OF a(2) completed_evolves [OF a(5,3)]]
      unfolding complete_run_eval [OF inv a(1-3) live] by (auto split: sum.splits bool.splits)
  qed
qed

lemma schedule_run_evolves:
  assumes inv: "db_inv pg db" and run: "schedule_run pg q i wake db = (Inr b, db')"
  shows "db_evolves pg db db'"
proof -
  from run obtain x d where lock: "lock_running_attempt pg q i False db = (Inr x, d)"
    by (auto simp: schedule_run_def ebind_Inr_iff)
  from lock inv show ?thesis
  proof (rule attempt_success)
    fix s r t lease
    assume a: "queue_name_ok pg q" "map_of (storage db) q = Some s" "running_attempt s i r t lease"
      "False = (lease \<le> pg_clock pg (seq db))" "store_inv pg (seq db) s"
    have live: "pg_clock pg (seq db) < lease" using a(4) by simp
    have t: "find_row t_id (r_task_id r) (tasks s) = Some t" "state_active (t_state t)"
      using a(3) by (auto simp: running_attempt_def)
    show ?thesis
      using run db_evolves_put_tick(2) [OF a(2) cancelled_evolves [OF a(5) t]]
        db_evolves_put_tick(1) [OF a(2) suspended_evolves [OF a(5,3)]] db_evolves_tick(1) [of pg db]
      unfolding schedule_run_eval [OF inv a(1-3) live] by (auto split: sum.splits bool.splits if_splits)
  qed
qed

lemma fail_run_evolves:
  assumes inv: "db_inv pg db" and inj: "inj (pg_uuid pg)"
    and run: "fail_run pg q i reason expired db = (Inr b, db')"
  shows "db_evolves pg db db'"
proof -
  from run obtain x d where lock: "lock_running_attempt pg q i expired db = (Inr x, d)"
    by (auto simp: fail_run_def ebind_Inr_iff)
  from lock inv show ?thesis
  proof (rule attempt_success)
    fix s r t lease
    assume a: "queue_name_ok pg q" "map_of (storage db) q = Some s" "running_attempt s i r t lease"
      "expired = (lease \<le> pg_clock pg (seq db))" "store_inv pg (seq db) s"
    have t: "find_row t_id (r_task_id r) (tasks s) = Some t" "state_active (t_state t)"
      using a(3) by (auto simp: running_attempt_def)
    show ?thesis
      using run db_evolves_put_tick(2) [OF a(2) cancelled_evolves [OF a(5) t]]
        db_evolves_put_tick(1) [OF a(2) exhausted_evolves [OF a(5,3)]]
        db_evolves_put_tick(2) [OF a(2) failed_cancelled_evolves [OF a(5,3)]]
        db_evolves_put_tick(2) [OF a(2) retried_evolves [OF a(5,3) inj]]
      unfolding fail_run_eval [OF inv inj a(1-4)] by (auto split: sum.splits bool.splits if_splits)
  qed
qed

lemma retry_task_evolves:
  assumes inv: "db_inv pg db" and inj: "inj (pg_uuid pg)" and run: "retry_task pg q tid db = (Inr i, db')"
  shows "db_evolves pg db db'"
proof -
  from run obtain s t where a: "queue_name_ok pg q" "map_of (storage db) q = Some s"
    "find_row t_id tid (tasks s) = Some t"
    unfolding retry_task_def statement_defs
    by (auto simp: sql_steps validate_step esm_Inr_iff split: option.splits)
  note ev = db_evolves_put_tick(2) [OF a(2) reopened_evolves [OF db_inv_store [OF inv a(2)] a(3) _ inj]]
  show ?thesis
    using run ev unfolding retry_task_eval [OF inv inj a] by (auto split: sum.splits bool.splits if_splits)
qed

lemma spawn_task_evolves:
  assumes inv: "db_inv pg db" and inj: "inj (pg_uuid pg)" and pg: "pg_nonneg pg"
    and run: "spawn_task pg q name params opts db = (Inr x, db')"
  shows "db_evolves pg db db'"
  using run
proof (rule spawn_task_success)
  fix s rq
  assume a: "queue_name_ok pg q" "map_of (storage db) q = Some s"
    "parse_spawn_request pg name params opts = Inr rq"
  have "db_evolves pg db (tick3 db)"
    using db_evolves_seq [of db "Suc (Suc (Suc (seq db)))"] by (simp add: tick3_def tick_def)
  moreover have "db_evolves pg db (put_store q (spawned_store rq (pg_uuid pg (seq db))
      (pg_uuid pg (Suc (seq db))) n s) (tick3 db))" for n
    by (rule db_evolves_put [OF a(2) spawned_evolves [OF inj]]) (simp_all add: tick3_def)
  ultimately show ?thesis
    using run unfolding spawn_task_eval [OF inv inj pg a] by (auto split: if_splits option.splits)
qed

lemma claim_statement_evolves:
  assumes inv: "db_inv pg db" and w: "\<not> pg_blank pg worker"
    and run: "claim_statement pg q worker expires now k names db = (Inr x, db')"
  shows "db_evolves pg db db'"
proof -
  from run obtain s where s: "map_of (storage db) q = Some s"
    unfolding claim_statement_def locked_rows_def scanned_rows_def by (auto simp: sql_steps)
  obtain cs where cs: "candidate_runs now k names (pg_locked pg (seq db)) (pg_scans pg (seq db)) s = Inr cs"
    and db': "db' = put_store q (claimed_store worker expires now cs s) db"
    using run unfolding claim_statement_eval [OF inv s w] by (auto split: sum.splits)
  show ?thesis unfolding db'
    by (rule db_evolves_put [OF s claimed_evolves [OF db_inv_store [OF inv s] cs]]) simp_all
qed

text \<open>A loop of functions that keep the invariant and evolve the database does both.\<close>

lemma ecount_evolves:
  assumes step: "\<And>x d b d'. db_inv pg d \<Longrightarrow> f x d = (Inr b, d') \<Longrightarrow> db_inv pg d' \<and> db_evolves pg d d'"
    and inv: "db_inv pg db" and run: "ecount f xs db = (Inr n, db')"
  shows "db_evolves pg db db'"
proof -
  have "establishes (\<lambda>d. db_inv pg d \<and> db_evolves pg db d) (ecount f xs)
      (\<lambda>_ d. db_inv pg d \<and> db_evolves pg db d)"
    by (intro establishes_ecount establishesI) (blast intro: db_evolves_trans dest: step)
  from establishesD [OF this _ run] inv show ?thesis by (simp add: db_evolves_refl)
qed

lemma reap_expired_run_evolves:
  assumes inv: "db_inv pg db" and inj: "inj (pg_uuid pg)"
    and run: "reap_expired_run pg q i db = (Inr b, db')"
  shows "db_evolves pg db db'"
proof -
  from run obtain x d where lock: "lock_attempt_context pg q i db = (Inr x, d)"
    by (auto simp: reap_expired_run_def ebind_Inr_iff)
  then have d: "d = tick db" by (rule lock_attempt_context_success)
  then have dinv: "db_inv pg d" using db_inv_tick [OF inv] by (simp add: tick_def)
  from run lock have "db' = d \<or> (\<exists>reason. fail_run pg q i reason True d = (Inr (), db'))"
    by (auto simp: reap_expired_run_def ebind_Inr_iff eseq_Inr_iff esm_Inr_iff split: option.splits if_splits)
  then show ?thesis
    using db_evolves_tick(1) [of pg db] fail_run_evolves [OF dinv inj] db_evolves_trans d by blast
qed

lemma reap_expired_runs_evolves:
  assumes inv: "db_inv pg db" and inj: "inj (pg_uuid pg)"
    and run: "reap_expired_runs pg q k db = (Inr n, db')"
  shows "db_evolves pg db db'"
proof -
  from run obtain xs where "ecount (reap_expired_run pg q) xs (tick db) = (Inr n, db')"
    unfolding reap_expired_runs_def locked_rows_def scanned_rows_def
    by (auto simp: sql_steps validate_step tick_def)
  moreover have "db_inv pg (tick db)" using db_inv_tick [OF inv] by (simp add: tick_def)
  ultimately have "db_evolves pg (tick db) db'"
    using ecount_evolves [where f = "reap_expired_run pg q"] reap_expired_run_inv [OF _ inj]
      reap_expired_run_evolves [OF _ inj] by blast
  then show ?thesis using db_evolves_trans [OF db_evolves_tick(1)] by blast
qed

lemma cancel_expired_tasks_evolves:
  assumes inv: "db_inv pg db" and run: "cancel_expired_tasks pg q k db = (Inr n, db')"
  shows "db_evolves pg db db'"
proof -
  from run obtain xs where "ecount (cancel_task pg q) xs (tick db) = (Inr n, db')"
    unfolding cancel_expired_tasks_def locked_rows_def scanned_rows_def
    by (auto simp: sql_steps validate_step tick_def)
  moreover have "db_inv pg (tick db)" using db_inv_tick [OF inv] by (simp add: tick_def)
  ultimately have "db_evolves pg (tick db) db'"
    using ecount_evolves [where f = "cancel_task pg q"] cancel_task_inv cancel_task_evolves by blast
  then show ?thesis using db_evolves_trans [OF db_evolves_tick(1)] by blast
qed

lemma claim_tasks_evolves:
  assumes inv: "db_inv pg db" and inj: "inj (pg_uuid pg)"
    and run: "claim_tasks pg q worker lease k names db = (Inr xs, db')"
  shows "db_evolves pg db db'"
  using run
proof (rule claim_tasks_success)
  fix d
  assume m: "claim_maintained pg q k db d" and w: "\<not> pg_blank pg worker"
    and c: "claim_statement pg q worker (pg_clock pg (seq d - 1) + lease * 1000000)
      (pg_clock pg (seq d - 1)) k names d = (Inr xs, db')"
  from m obtain n m d1 d2 where d1: "cancel_expired_tasks pg q k (tick db) = (Inr n, d1)"
    and d2: "reap_expired_runs pg q k d1 = (Inr m, d2)" and d: "d = tick d2"
    unfolding claim_maintained_def by blast
  have i0: "db_inv pg (tick db)" using db_inv_tick [OF inv] by (simp add: tick_def)
  note i1 = cancel_expired_tasks_inv [OF i0 d1]
  have "db_evolves pg db d2"
    using db_evolves_tick(1) cancel_expired_tasks_evolves [OF i0 d1]
      reap_expired_runs_evolves [OF i1 inj d2] by (blast intro: db_evolves_trans)
  then have "db_evolves pg db d" unfolding d by (rule db_evolves_trans [OF _ db_evolves_tick(1)])
  then show ?thesis
    using claim_statement_evolves [OF claim_maintained_inv [OF inv inj m] w c] by (rule db_evolves_trans)
qed

lemma supervise_run_evolves:
  assumes inv: "db_inv pg db" and inj: "inj (pg_uuid pg)"
    and run: "supervise_run pg q i renew db = (Inr x, db')"
  shows "db_evolves pg db db'"
proof -
  from run obtain u d where lock: "lock_attempt_context pg q i db = (Inr u, d)"
    unfolding supervise_run_def by (auto simp: sql_steps ebind_Inr_iff)
  from lock show ?thesis
  proof (rule lock_attempt_context_success)
    fix s r t
    assume a: "queue_name_ok pg q" "map_of (storage db) q = Some s"
      "find_row r_id i (runs s) = Some r" "find_row t_id (r_task_id r) (tasks s) = Some t"
      "u = attempt_context_of r t (pg_clock pg (seq db))" "d = tick db"
    have dinv: "db_inv pg d" using db_inv_tick [OF inv] a(6) by (simp add: tick_def)
    have first: "db_evolves pg db d" unfolding a(6) by (rule db_evolves_tick)
    have renewed: "db_evolves pg db db'"
      if w: "update_runs pg q (\<lambda>r. r_id r = i) (renew_run until) d = (Inr (), db')"
      and st: "r_state r = Running" "t_state t = Running" "t_last_attempt_run t = i"
        "r_claim_expires_at r = Some lease" for until lease
    proof -
      have att: "running_attempt s i r t lease" using a st by (simp add: running_attempt_def)
      show ?thesis
        using db_evolves_put_tick(1) [OF a(2) renewed_evolves [OF db_inv_store [OF inv a(2)] att]]
          w a by (simp add: update_runs_def write_store_success renewed_store_def)
    qed
    from supervise_run_cases [OF run lock] show ?thesis
      using first cancel_task_evolves [OF dinv] reap_expired_run_evolves [OF dinv inj] renewed
        db_evolves_trans [OF first]
      by (auto simp: a(5))
  qed
qed

lemma set_checkpoint_evolves:
  assumes inv: "db_inv pg db"
    and run: "set_task_checkpoint_state pg q tid name v i db = (Inr x, db')"
  shows "db_evolves pg db db'"
proof -
  from run obtain u d where lock: "lock_running_attempt pg q i False db = (Inr u, d)"
    and nm: "name_check pg name" and tid: "x_task_id u = tid"
    unfolding set_task_checkpoint_state_def name_check_def
    by (auto simp: sql_steps ebind_Inr_iff esm_Inr_iff split: if_splits)
  from lock inv show ?thesis
  proof (rule attempt_success)
    fix s r t lease
    assume a: "queue_name_ok pg q" "map_of (storage db) q = Some s" "running_attempt s i r t lease"
      "False = (lease \<le> pg_clock pg (seq db))" "store_inv pg (seq db) s"
      "u = attempt_context_of r t (pg_clock pg (seq db))"
    have live: "pg_clock pg (seq db) < lease" and tid': "tid = r_task_id r" using a(4,6) tid by auto
    show ?thesis
      using run db_evolves_put_tick(1) [OF a(2) put_checkpoint_evolves] db_evolves_tick(1) [of pg db]
      unfolding tid' set_checkpoint_eval [OF inv a(1-3) live nm]
      by (auto split: sum.splits bool.splits option.splits)
  qed
qed

lemma cleanup_tasks_evolves:
  assumes inv: "db_inv pg db" and run: "cleanup_tasks pg q db = (Inr n, db')"
  shows "db_evolves pg db db'"
  using run
proof (rule cleanup_tasks_success)
  fix s r
  assume a: "queue_name_ok pg q" "map_of (storage db) q = Some s" "find_row q_name q (queues db) = Some r"
  show ?thesis
    using run db_evolves_put_tick(1) [OF a(2) delete_tasks_evolves]
    unfolding cleanup_tasks_eval [OF inv a] by auto
qed

lemma cleanup_each_evolves:
  "db_inv pg db \<Longrightarrow> cleanup_each pg qs db = (Inr x, db') \<Longrightarrow> db_evolves pg db db'"
proof (induction qs arbitrary: db x)
  case Nil
  then show ?case by (simp add: esm_Inr_iff db_evolves_refl)
next
  case (Cons q qs)
  then obtain n d y where d: "cleanup_tasks pg q db = (Inr n, d)" "cleanup_each pg qs d = (Inr y, db')"
    by (auto simp: ebind_Inr_iff esm_Inr_iff)
  with Cons show ?case
    by (blast intro: db_evolves_trans dest: cleanup_tasks_evolves cleanup_tasks_inv)
qed

lemma cleanup_all_queues_evolves:
  assumes "db_inv pg db" and "cleanup_all_queues pg rq db = (Inr x, db')"
  shows "db_evolves pg db db'"
proof -
  from assms(2) obtain qs where "cleanup_each pg qs db = (Inr x, db')"
    unfolding cleanup_all_queues_def
    by (auto simp: eseq_Inr_iff ebind_Inr_iff esm_Inr_iff sql_validate_queue_name_success
        split: option.splits)
  with assms(1) show ?thesis by (rule cleanup_each_evolves)
qed

lemma create_queue_evolves:
  assumes inv: "db_inv pg db" and run: "create_queue pg q db = (Inr x, db')"
  shows "db_evolves pg db db'"
proof -
  have q: "queue_name_ok pg q" using run by (simp add: create_queue_def validate_step)
  have "store_at p (db\<lparr>queues := qs, storage := (q, empty_store) # storage db\<rparr>) = store_at p db"
    if "\<not> registered q db" for p qs
    using that registered_iff_stored [OF inv, of q] by (simp add: store_at_def)
  then show ?thesis using run unfolding create_queue_eval [OF q]
    by (auto simp: db_evolves_def store_evolves_refl split: if_splits)
qed

lemma drop_queue_evolves:
  assumes run: "drop_queue pg q db = (Inr x, db')"
  shows "db_evolves pg db db'"
proof -
  have "store_at p (db\<lparr>storage := AList.delete q (storage db), queues := qs\<rparr>) =
      (if p = q then empty_store else store_at p db)" for p qs
    by (simp add: store_at_def delete_conv')
  then show ?thesis using run unfolding drop_queue_def
    by (auto simp: db_evolves_def store_evolves_refl store_evolves_empty validate_step sql_steps
        esm_Inr_iff split: if_splits)
qed

lemma set_queue_policy_evolves:
  assumes run: "set_queue_policy pg q ttl limit db = (Inr x, db')"
  shows "db_evolves pg db db'"
proof -
  have "store_at p (db\<lparr>queues := qs\<rparr>) = store_at p db" for p qs by (simp add: store_at_def)
  then show ?thesis using run unfolding set_queue_policy_def Let_def
    by (auto simp: db_evolves_def store_evolves_refl validate_step sql_steps esm_Inr_iff
        split: if_splits option.splits)
qed

end
