(* ===== verification/DbSystem.thy ===== *)
theory DbSystem
  imports History
begin

section \<open>The database as a transition system\<close>

text \<open>
  Every call of a function of \<open>sql/steda.sql\<close> by any client is one step of \<open>db_step\<close>: a
  transaction that commits or leaves the tables as they were. The invariant \<open>db_inv\<close> holds in
  every reachable state and every execution evolves rows as \<open>db_evolves\<close> says, under two
  documented properties of the server: \<open>uuidv7()\<close> never returns a value twice, and double
  precision powers and products of non-negative numbers are not negative.
\<close>

definition pg_ok :: "pg \<Rightarrow> bool" where
  "pg_ok pg \<longleftrightarrow> inj (pg_uuid pg) \<and> pg_nonneg pg"

inductive db_step :: "pg \<Rightarrow> db \<Rightarrow> db \<Rightarrow> bool" for pg :: pg where
  do_create: "run_txn (create_queue pg q) db = (x, db') \<Longrightarrow> db_step pg db db'"
| do_drop: "run_txn (drop_queue pg q) db = (x, db') \<Longrightarrow> db_step pg db db'"
| do_policy: "run_txn (set_queue_policy pg q ttl limit) db = (x, db') \<Longrightarrow> db_step pg db db'"
| do_spawn: "run_txn (spawn_task pg q name params opts) db = (y, db') \<Longrightarrow> db_step pg db db'"
| do_claim: "run_txn (claim_tasks pg q worker lease k names) db = (cs, db') \<Longrightarrow> db_step pg db db'"
| do_complete: "run_txn (complete_run pg q i res) db = (b, db') \<Longrightarrow> db_step pg db db'"
| do_schedule: "run_txn (schedule_run pg q i wake) db = (w, db') \<Longrightarrow> db_step pg db db'"
| do_fail: "run_txn (fail_run pg q i reason expired) db = (x, db') \<Longrightarrow> db_step pg db db'"
| do_cancel: "run_txn (cancel_task pg q tid) db = (b, db') \<Longrightarrow> db_step pg db db'"
| do_retry: "run_txn (retry_task pg q tid) db = (u, db') \<Longrightarrow> db_step pg db db'"
| do_supervise: "run_txn (supervise_run pg q i renew) db = (w, db') \<Longrightarrow> db_step pg db db'"
| do_checkpoint: "run_txn (set_task_checkpoint_state pg q tid name v i) db = (c, db') \<Longrightarrow> db_step pg db db'"
| do_cleanup: "run_txn (cleanup_all_queues pg rq) db = (n, db') \<Longrightarrow> db_step pg db db'"
| do_cleanup_queue: "run_txn (cleanup_tasks pg q) db = (n, db') \<Longrightarrow> db_step pg db db'"
| do_draw: "seq db \<le> n \<Longrightarrow> db_step pg db (db\<lparr>seq := n\<rparr>)"

subsection \<open>The clock and identifier counter never goes back\<close>

named_theorems advance \<open>functions that never turn the counter back\<close>

definition advances :: "'a sql \<Rightarrow> bool" where
  "advances m \<longleftrightarrow> (\<forall>db x d. m db = (x, d) \<longrightarrow> seq db \<le> seq d)"

lemma advances_ebind [advance]:
  assumes "advances m" and "\<And>x. advances (f x)"
  shows "advances (ebind m f)"
  unfolding advances_def ebind_apply
proof (intro allI impI)
  fix db x d
  assume run: "(case m db of (Inl e, s') \<Rightarrow> (Inl e, s') | (Inr x, s') \<Rightarrow> f x s') = (x, d)"
  obtain y u where m: "m db = (y, u)" by fastforce
  then have "seq db \<le> seq u" using assms(1) by (auto simp: advances_def)
  moreover have "seq u \<le> seq d"
    using run m assms(2) by (cases y) (auto simp: advances_def)
  ultimately show "seq db \<le> seq d" by (rule order_trans)
qed

lemma advances_eseq [advance]: "advances m \<Longrightarrow> advances k \<Longrightarrow> advances (eseq m k)"
  unfolding eseq_def by (rule advances_ebind)

lemma advances_basic [advance]:
  "advances (ereturn x)" "advances (eraise e)" "advances (eassert b e)" "advances (elift r)"
  "advances (egets f)" "advances (query q g)" "advances (write_store pg q w)"
  "advances (current_time pg)" "advances (uuidv7 pg)" "advances (int4_add a c)" "advances (locked_rows pg)" "advances (scanned_rows pg)"
  by (auto simp: advances_def esm_apply query_def write_store_def current_time_def uuidv7_def
      int4_add_def locked_rows_def scanned_rows_def split: option.splits if_splits)

lemma advances_if [advance]:
  "(b \<Longrightarrow> advances m) \<Longrightarrow> (\<not> b \<Longrightarrow> advances k) \<Longrightarrow> advances (if b then m else k)"
  by simp

lemma advances_option [advance]:
  "(x = None \<Longrightarrow> advances m) \<Longrightarrow> (\<And>y. x = Some y \<Longrightarrow> advances (k y)) \<Longrightarrow>
    advances (case x of None \<Rightarrow> m | Some y \<Rightarrow> k y)"
  by (cases x) auto

lemma advances_let [advance]: "advances (k x) \<Longrightarrow> advances (let y = x in k y)"
  by simp

lemma advances_emodify: "(\<And>db. seq db \<le> seq (f db)) \<Longrightarrow> advances (emodify f)"
  by (auto simp: advances_def esm_apply)

lemma advances_ecount [advance]: "(\<And>x. advances (f x)) \<Longrightarrow> advances (ecount f xs)"
  by (induction xs) (auto intro!: advance)

lemma advances_statements [advance]:
  "advances (update_runs pg q P f)" "advances (update_tasks pg q P' g)" "advances (insert_run pg q r)"
  "advances (select_run q i)" "advances (select_task q i)" "advances (sql_validate_queue_name pg q)"
  by (simp_all add: statement_defs sql_validate_queue_name_def advance)

lemma advances_locks [advance]: "advances (lock_attempt_context pg q i)"
  "advances (context_due c obs)"
  by (simp_all add: lock_attempt_context_def context_due_def advance)

lemma advances_lock_running [advance]: "advances (lock_running_attempt pg q i e)"
  unfolding lock_running_attempt_def by (intro advance)

lemma advances_cancel [advance]: "advances (cancel_task pg q tid)"
  unfolding cancel_task_def by (intro advance)

lemma advances_run_control [advance]:
  "advances (complete_run pg q i res)" "advances (schedule_run pg q i wake)"
  "advances (retry_task pg q tid)"
  unfolding complete_run_def schedule_run_def retry_task_def by (intro advance)+

lemma advances_fail [advance]: "advances (fail_run pg q i reason e)"
  unfolding fail_run_def insert_retry_def by (intro advance)

lemma advances_spawn [advance]: "advances (spawn_task pg q name params opts)"
  unfolding spawn_task_def insert_task_def resolve_conflict_def by (intro advance)

lemma advances_reap [advance]: "advances (reap_expired_run pg q i)"
  unfolding reap_expired_run_def by (intro advance)

lemma advances_supervise [advance]: "advances (supervise_run pg q i renew)"
  unfolding supervise_run_def by (intro advance)

lemma advances_maintenance [advance]:
  "advances (reap_expired_runs pg q k)" "advances (cancel_expired_tasks pg q k)"
  unfolding reap_expired_runs_def cancel_expired_tasks_def by (intro advance)+

lemma advances_claim [advance]: "advances (claim_tasks pg q worker lease k names)"
  unfolding claim_tasks_def claim_statement_def by (intro advance)

lemma advances_checkpoint [advance]: "advances (set_task_checkpoint_state pg q tid name v i)"
  unfolding set_task_checkpoint_state_def insert_checkpoint_def by (intro advance)

lemma advances_lifecycle [advance]:
  "advances (create_queue pg q)" "advances (drop_queue pg q)" "advances (set_queue_policy pg q ttl limit)"
  unfolding create_queue_def create_queue_tables_def verify_queue_storage_def drop_queue_def
    set_queue_policy_def
  by (intro advance advances_emodify; simp)+

lemma advances_cleanup_tasks [advance]: "advances (cleanup_tasks pg q)"
  unfolding cleanup_tasks_def by (intro advance)

lemma advances_cleanup_each [advance]: "advances (cleanup_each pg qs)"
  by (induction qs) (simp_all add: advance)

lemma advances_cleanup [advance]: "advances (cleanup_all_queues pg rq)"
  unfolding cleanup_all_queues_def by (intro advance)

subsection \<open>Transactions\<close>

lemma db_inv_last_runs: "db_inv pg db \<Longrightarrow> list_all (\<lambda>(q, s). last_run_exists s) (storage db)"
  by (auto simp: db_inv_def list_all_iff intro: store_inv_last_run)

lemma run_txn_step:
  assumes inv: "db_inv pg db" and adv: "advances m"
    and ok: "\<And>x d. m db = (Inr x, d) \<Longrightarrow> db_inv pg d" "\<And>x d. m db = (Inr x, d) \<Longrightarrow> db_evolves pg db d"
    and run: "run_txn m db = (y, db')"
  shows "db_inv pg db' \<and> db_evolves pg db db'"
proof -
  obtain x d where m: "m db = (x, d)" by fastforce
  have seq: "seq db \<le> seq d" using adv m by (auto simp: advances_def)
  show ?thesis
  proof (cases x)
    case (Inl e)
    then show ?thesis using run m seq db_inv_tick [OF inv] db_evolves_seq by (auto simp: run_txn_def)
  next
    case (Inr z)
    then show ?thesis using run m ok [of z d] db_inv_last_runs by (auto simp: run_txn_def)
  qed
qed

text \<open>A successful function commits: the deferred foreign key never fires.\<close>

lemma run_txn_commits: "m db = (Inr x, d) \<Longrightarrow> db_inv pg d \<Longrightarrow> run_txn m db = (Inr x, d)"
  using db_inv_last_runs by (simp add: run_txn_def)

lemma run_txn_aborts: "m db = (Inl e, d) \<Longrightarrow> run_txn m db = (Inl e, db\<lparr>seq := seq d\<rparr>)"
  by (simp add: run_txn_def)

lemma db_step_inv:
  assumes "db_step pg db db'" and pg: "pg_ok pg" and inv: "db_inv pg db"
  shows "db_inv pg db' \<and> db_evolves pg db db'"
proof -
  have inj: "inj (pg_uuid pg)" and nn: "pg_nonneg pg" using pg by (simp_all add: pg_ok_def)
  note txn = run_txn_step [OF inv]
  show ?thesis
    using assms(1)
  proof cases
    case do_create
    show ?thesis by (rule txn [OF advances_lifecycle(1) create_queue_inv [OF inv] create_queue_evolves [OF inv] do_create])
  next
    case do_drop
    show ?thesis by (rule txn [OF advances_lifecycle(2) drop_queue_inv [OF inv] drop_queue_evolves do_drop])
  next
    case do_policy
    show ?thesis by (rule txn [OF advances_lifecycle(3) set_queue_policy_inv [OF inv] set_queue_policy_evolves do_policy])
  next
    case do_spawn
    show ?thesis by (rule txn [OF advances_spawn spawn_task_inv [OF inv inj nn] spawn_task_evolves [OF inv inj nn] do_spawn])
  next
    case do_claim
    show ?thesis by (rule txn [OF advances_claim claim_tasks_inv [OF inv inj] claim_tasks_evolves [OF inv inj] do_claim])
  next
    case do_complete
    show ?thesis by (rule txn [OF advances_run_control(1) complete_run_inv [OF inv] complete_run_evolves [OF inv] do_complete])
  next
    case do_schedule
    show ?thesis by (rule txn [OF advances_run_control(2) schedule_run_inv [OF inv] schedule_run_evolves [OF inv] do_schedule])
  next
    case do_fail
    show ?thesis by (rule txn [OF advances_fail fail_run_inv [OF inv inj] fail_run_evolves [OF inv inj] do_fail])
  next
    case do_cancel
    show ?thesis by (rule txn [OF advances_cancel cancel_task_inv [OF inv] cancel_task_evolves [OF inv] do_cancel])
  next
    case do_retry
    show ?thesis by (rule txn [OF advances_run_control(3) retry_task_inv [OF inv inj] retry_task_evolves [OF inv inj] do_retry])
  next
    case do_supervise
    show ?thesis by (rule txn [OF advances_supervise supervise_run_inv [OF inv inj] supervise_run_evolves [OF inv inj] do_supervise])
  next
    case do_checkpoint
    show ?thesis by (rule txn [OF advances_checkpoint set_checkpoint_inv [OF inv] set_checkpoint_evolves [OF inv] do_checkpoint])
  next
    case do_cleanup
    show ?thesis by (rule txn [OF advances_cleanup cleanup_all_queues_inv [OF inv] cleanup_all_queues_evolves [OF inv] do_cleanup])
  next
    case do_cleanup_queue
    show ?thesis by (rule txn [OF advances_cleanup_tasks cleanup_tasks_inv [OF inv] cleanup_tasks_evolves [OF inv] do_cleanup_queue])
  next
    case do_draw
    then show ?thesis using db_inv_tick [OF inv] db_evolves_seq by simp
  qed
qed

interpretation queue_db: transition_system "\<lambda>db. db = empty_db" "db_step pg"
    "\<lambda>db. pg_ok pg \<longrightarrow> db_inv pg db" for pg
  by unfold_locales (auto simp: db_inv_empty dest: db_step_inv)

lemma steps_evolve:
  assumes "(db_step pg)\<^sup>*\<^sup>* db db'" and "pg_ok pg" and "db_inv pg db"
  shows "db_evolves pg db db'"
  using assms queue_db.steps_related [where R = "db_evolves pg"] db_evolves_refl db_evolves_trans
    db_step_inv by blast

end
