(* ===== verification/Validation.thy ===== *)
theory Validation
  imports Types "HOL-Library.Log_Nat"
begin

section \<open>Validation at the Rust boundary\<close>

text \<open>
  The checks Rust makes before a value crosses into PostgreSQL: queue, task and workflow names
  (\<open>validate_queue_name\<close>, \<open>validate_task_name\<close>, \<open>workflow_storage_name\<close>,
  \<open>keyed_workflow_storage_name\<close>), durations (\<open>duration_seconds\<close>, \<open>duration_seconds_i64\<close>,
  \<open>Duration::as_secs_f64\<close>), counts (\<open>database_positive_i32\<close>) and spawn options
  (\<open>normalize_spawn_options\<close>). A Rust string is the list of its UTF-8 bytes, so \<open>len()\<close> and
  PostgreSQL's \<open>octet_length\<close> are both \<^const>\<open>length\<close>.
\<close>

subsection \<open>Unicode white space\<close>

abbreviation byte :: "char \<Rightarrow> nat" where "byte c \<equiv> of_char c"

text \<open>The number of bytes of the white-space character a string starts with (0 if none): the
  \<open>White_Space\<close> code points U+0009--U+000D, U+0020, U+0085, U+00A0, U+1680, U+2000--U+200A,
  U+2028, U+2029, U+202F, U+205F and U+3000, in UTF-8.\<close>

definition lead_space :: "string \<Rightarrow> nat" where
  "lead_space s =
     (case map byte (take 3 s) of
        [] \<Rightarrow> 0
      | x # ys \<Rightarrow>
          if 9 \<le> x \<and> x \<le> 13 \<or> x = 32 then 1
          else (case ys of
              [] \<Rightarrow> 0
            | y # zs \<Rightarrow>
                if x = 194 \<and> (y = 133 \<or> y = 160) then 2
                else (case zs of
                    [] \<Rightarrow> 0
                  | z # _ \<Rightarrow>
                      if x = 225 \<and> y = 154 \<and> z = 128
                       \<or> x = 226 \<and> y = 128 \<and> (128 \<le> z \<and> z \<le> 138 \<or> z = 168 \<or> z = 169 \<or> z = 175)
                       \<or> x = 226 \<and> y = 129 \<and> z = 159
                       \<or> x = 227 \<and> y = 128 \<and> z = 128
                      then 3 else 0)))"

text \<open>\<open>s.trim().is_empty()\<close>.\<close>

function all_space :: "string \<Rightarrow> bool" where
  "all_space s =
     (if s = [] then True
      else if lead_space s = 0 then False
      else all_space (drop (lead_space s) s))"
  by pat_completeness auto
termination
  by (relation "measure length") auto

declare all_space.simps [simp del]

lemma all_space_Nil [simp]: "all_space []"
  by (simp add: all_space.simps)

lemma not_all_space_ascii:
  assumes "33 \<le> byte c" and "byte c < 128"
  shows "\<not> all_space (c # cs)"
proof -
  have "lead_space (c # cs) = 0"
    using assms by (auto simp: lead_space_def split: list.splits)
  then show ?thesis by (simp add: all_space.simps)
qed

subsection \<open>Names\<close>

definition MAX_TASK_NAME_BYTES :: nat where "MAX_TASK_NAME_BYTES = 1024"
definition MAX_QUEUE_NAME_LENGTH :: nat where "MAX_QUEUE_NAME_LENGTH = 33"
definition MAX_IDEMPOTENCY_KEY_BYTES :: nat where "MAX_IDEMPOTENCY_KEY_BYTES = 1024"
definition MAX_WORKFLOW_STORAGE_NAME_BYTES :: nat where
  "MAX_WORKFLOW_STORAGE_NAME_BYTES = 1024"

definition validate_task_name :: "string \<Rightarrow> error + unit" where
  "validate_task_name name =
     (if all_space name then Inl (Error_InvalidOptions ''task name must be provided'')
      else if length name > MAX_TASK_NAME_BYTES
        then Inl (Error_InvalidOptions ''task name must be at most 1024 bytes'')
      else Inr ())"

definition validate_queue_name :: "string \<Rightarrow> error + string" where
  "validate_queue_name queue_name =
     (if all_space queue_name then Inl Error_MissingQueueName
      else if length queue_name > MAX_QUEUE_NAME_LENGTH
        then Inl (Error_QueueNameTooLong queue_name MAX_QUEUE_NAME_LENGTH)
      else Inr queue_name)"

text \<open>Decimal rendering of a \<open>usize\<close> by \<open>format!\<close>.\<close>

definition digit_char :: "nat \<Rightarrow> char" where
  "digit_char d = char_of (48 + d)"

fun show_nat :: "nat \<Rightarrow> string" where
  "show_nat n = (if n < 10 then [digit_char n] else show_nat (n div 10) @ [digit_char (n mod 10)])"

declare show_nat.simps [simp del]

definition STEP_PREFIX :: string where "STEP_PREFIX = ''$step:''"
definition KEYED_STEP_PREFIX :: string where "KEYED_STEP_PREFIX = ''$step-keyed:''"
definition SLEEP_PREFIX :: string where "SLEEP_PREFIX = ''$sleep:''"
definition TASK_WAIT_PREFIX :: string where "TASK_WAIT_PREFIX = ''$await-task:''"

definition workflow_storage_name :: "string \<Rightarrow> string \<Rightarrow> error + string" where
  "workflow_storage_name prefix name =
     (if all_space name then Inl (Error_InvalidOptions ''workflow identity must not be empty'')
      else let maximum_name_bytes = MAX_WORKFLOW_STORAGE_NAME_BYTES - length prefix in
        if length name > maximum_name_bytes
        then Inl (Error_InvalidOptions (''workflow identity must be at most ''
          @ show_nat maximum_name_bytes @ '' bytes''))
        else Inr (prefix @ name))"

definition keyed_identity :: "string \<Rightarrow> string \<Rightarrow> string" where
  "keyed_identity name key = show_nat (length name) @ '':'' @ name @ key"

definition keyed_workflow_storage_name :: "string \<Rightarrow> string \<Rightarrow> string \<Rightarrow> error + string" where
  "keyed_workflow_storage_name prefix name key =
     (if all_space name then Inl (Error_InvalidOptions ''workflow identity must not be empty'')
      else if all_space key
        then Inl (Error_InvalidOptions ''workflow instance key must not be empty'')
      else let identity = keyed_identity name key;
               maximum_identity_bytes = MAX_WORKFLOW_STORAGE_NAME_BYTES - length prefix in
        if length identity > maximum_identity_bytes
        then Inl (Error_InvalidOptions (''keyed workflow identity must be at most ''
          @ show_nat maximum_identity_bytes @ '' bytes''))
        else Inr (prefix @ identity))"

text \<open>A cross-task wait is checkpointed under the target queue and task; \<open>uuid_text\<close> is the
  display form of a UUID (the \<open>uuid\<close> crate).\<close>

definition task_wait_name :: "(uuid \<Rightarrow> string) \<Rightarrow> string \<Rightarrow> uuid \<Rightarrow> string" where
  "task_wait_name uuid_text queue_name task_id =
     TASK_WAIT_PREFIX @ queue_name @ '':'' @ uuid_text task_id"

subsection \<open>Durations and counts\<close>

text \<open>\<open>duration.as_secs().checked_add(u64::from(duration.subsec_nanos() > 0))\<close>.\<close>

definition seconds_rounded_up :: "duration \<Rightarrow> u64 option" where
  "seconds_rounded_up d = checked_add_u64 (as_secs d) (if subsec_nanos d > 0 then 1 else 0)"

definition duration_seconds :: "duration \<Rightarrow> error + int" where
  "duration_seconds d =
     (case seconds_rounded_up d of
        None \<Rightarrow> Inl (Error_InvalidOptions ''duration is too large to represent'')
      | Some seconds \<Rightarrow>
          (case i32_try_from (uint seconds) of
             None \<Rightarrow> Inl (Error_InvalidOptions
               ''duration must round to at most 2147483647 seconds'')
           | Some s \<Rightarrow> Inr s))"

definition duration_seconds_i64 :: "duration \<Rightarrow> string \<Rightarrow> error + int" where
  "duration_seconds_i64 d label =
     (case seconds_rounded_up d of
        None \<Rightarrow> Inl (Error_InvalidOptions (label @ '' is too large to represent''))
      | Some seconds \<Rightarrow>
          (case i64_try_from (uint seconds) of
             None \<Rightarrow> Inl (Error_InvalidOptions
               (label @ '' must round to at most 9223372036854775807 seconds''))
           | Some s \<Rightarrow> Inr s))"

definition database_positive_i32 :: "u32 \<Rightarrow> string \<Rightarrow> error + int" where
  "database_positive_i32 value label =
     (if value = 0 then Inl (Error_InvalidOptions (label @ '' must be at least 1''))
      else case i32_try_from (uint value) of
          None \<Rightarrow> Inl (Error_InvalidOptions (label @ '' must be at most 2147483647''))
        | Some v \<Rightarrow> Inr v)"

text \<open>IEEE 754 binary64 rounding to nearest, ties to even, of a non-negative rational in the
  normal range (a non-zero duration lies between \<open>10\<^sup>-\<^sup>9\<close> and \<open>2\<^sup>6\<^sup>5\<close> seconds).\<close>

definition pow2 :: "int \<Rightarrow> rat" where
  "pow2 e = (if 0 \<le> e then 2 ^ nat e else 1 / 2 ^ nat (- e))"

definition round_half_even :: "rat \<Rightarrow> int" where
  "round_half_even q =
     (let f = \<lfloor>q\<rfloor>; d = q - of_int f in
      if d < 1 / 2 then f else if 1 / 2 < d then f + 1 else if even f then f else f + 1)"

definition f64_exponent :: "rat \<Rightarrow> int" where
  "f64_exponent q =
     (let (a, b) = quotient_of q; e = bitlen a - bitlen b in if pow2 e \<le> q then e else e - 1)"

definition f64_round :: "rat \<Rightarrow> rat" where
  "f64_round q =
     (if q = 0 then 0
      else let ulp = pow2 (f64_exponent q - 52) in of_int (round_half_even (q / ulp)) * ulp)"

text \<open>\<open>Duration::as_secs_f64\<close>: \<open>(secs as f64) + (nanos as f64) / 1e9\<close>, rounding each operation.\<close>

definition as_secs_f64 :: "duration \<Rightarrow> rat" where
  "as_secs_f64 d =
     f64_round (f64_round (of_int (uint (as_secs d)))
       + f64_round (of_int (uint (subsec_nanos d)) / 1000000000))"

subsection \<open>Spawn options\<close>

definition MAX_DATABASE_DELAY_SECONDS :: rat where
  "MAX_DATABASE_DELAY_SECONDS = 2147483647"

definition validate_retry_delay :: "duration \<Rightarrow> string \<Rightarrow> error + unit" where
  "validate_retry_delay delay label =
     (if as_secs_f64 delay > MAX_DATABASE_DELAY_SECONDS
      then Inl (Error_InvalidOptions (label @ '' must be at most 2147483647 seconds''))
      else Inr ())"

definition factor_rejected :: "f64 \<Rightarrow> bool" where
  "factor_rejected factor = (case factor of F64 q \<Rightarrow> q \<le> 0 | _ \<Rightarrow> True)"

fun validate_retry_strategy :: "RetryStrategy \<Rightarrow> error + unit" where
  "validate_retry_strategy (Fixed delay) = validate_retry_delay delay ''retry delay''"
| "validate_retry_strategy (Exponential initial_delay factor max_d) =
     res_bind (validate_retry_delay initial_delay ''retry initial delay'') (\<lambda>_.
       if factor_rejected factor
       then Inl (Error_InvalidOptions ''retry factor must be finite and greater than zero'')
       else case max_d of
           None \<Rightarrow> Inr ()
         | Some d \<Rightarrow> validate_retry_delay d ''retry maximum delay'')"
| "validate_retry_strategy NoRetry = Inr ()"

definition validate_idempotency_key :: "string \<Rightarrow> error + unit" where
  "validate_idempotency_key key =
     (if all_space key then Inl (Error_InvalidOptions ''idempotency_key must not be empty'')
      else if length key > MAX_IDEMPOTENCY_KEY_BYTES
        then Inl (Error_InvalidOptions ''idempotency_key must be at most 1024 bytes'')
      else Inr ())"

definition validate_spawn_options :: "SpawnConfig \<Rightarrow> error + unit" where
  "validate_spawn_options options =
     (if max_attempts options = Some 0
      then Inl (Error_InvalidOptions ''max_attempts must be at least 1'')
      else res_bind (case retry_strategy options of
             None \<Rightarrow> Inr () | Some strategy \<Rightarrow> validate_retry_strategy strategy) (\<lambda>_.
           case idempotency_key options of
             None \<Rightarrow> Inr () | Some key \<Rightarrow> validate_idempotency_key key))"

fun f64_json :: "f64 \<Rightarrow> json" where
  "f64_json (F64 q) = JDec q"
| "f64_json _ = JNull"

definition retry_strategy_value :: "RetryStrategy \<Rightarrow> json" where
  "retry_strategy_value strategy =
     (case strategy of
        Fixed delay \<Rightarrow>
          JObj (json_insert ''kind'' (JStr ''fixed'')
            (json_insert ''baseSeconds'' (JDec (as_secs_f64 delay)) []))
      | Exponential initial_delay factor max_d \<Rightarrow>
          JObj (json_insert_option ''maxSeconds'' (map_option (\<lambda>d. JDec (as_secs_f64 d)) max_d)
            (json_insert ''factor'' (f64_json factor)
              (json_insert ''baseSeconds'' (JDec (as_secs_f64 initial_delay))
                (json_insert ''kind'' (JStr ''exponential'') []))))
      | NoRetry \<Rightarrow> JObj (json_insert ''kind'' (JStr ''none'') []))"

definition retry_strategy_json :: "RetryStrategy \<Rightarrow> error + json" where
  "retry_strategy_json strategy =
     res_bind (validate_retry_strategy strategy) (\<lambda>_. Inr (retry_strategy_value strategy))"

definition cancellation_json :: "CancellationPolicy \<Rightarrow> error + json_object" where
  "cancellation_json c =
     res_bind (traverse_option (\<lambda>d. duration_seconds_i64 d ''cancellation max_duration'')
         (max_duration c)) (\<lambda>md.
     res_bind (traverse_option (\<lambda>d. duration_seconds_i64 d ''cancellation max_delay'')
         (max_delay c)) (\<lambda>ml.
       Inr (json_insert_option ''maxDelay'' (map_option JInt ml)
         (json_insert_option ''maxDuration'' (map_option JInt md) []))))"

definition normalize_spawn_options :: "SpawnConfig \<Rightarrow> error + json_object" where
  "normalize_spawn_options options =
     res_bind (validate_spawn_options options) (\<lambda>_.
       let h = (case headers options of Some m \<Rightarrow> (if m = [] then None else Some (JObj m)) | None \<Rightarrow> None);
           p0 = json_insert_option ''headers'' h [] in
     res_bind (traverse_option (\<lambda>n. database_positive_i32 n ''max_attempts'')
         (max_attempts options)) (\<lambda>ma.
       let p1 = json_insert_option ''maxAttempts'' (map_option JInt ma) p0 in
     res_bind (traverse_option retry_strategy_json (retry_strategy options)) (\<lambda>rs.
       let p2 = json_insert_option ''retryStrategy'' rs p1 in
     res_bind (traverse_option cancellation_json (cancellation options)) (\<lambda>c.
       let cv = (case c of Some m \<Rightarrow> (if m = [] then None else Some (JObj m)) | None \<Rightarrow> None);
           p3 = json_insert_option ''cancellation'' cv p2 in
       Inr (json_insert_option ''idempotencyKey''
         (map_option JStr (idempotency_key options)) p3)))))"

subsection \<open>Name validators\<close>

text \<open>Every name check has the same contract: exactly the strings that are not blank and fit a
  byte limit are accepted. PostgreSQL repeats each check with its own notion of blank
  (\<open>~ '^[[:space:]]*$'\<close>); where that class is contained in Unicode white space, an accepted
  name passes the database check with the same limit.\<close>

locale name_validator =
  fixes validate :: "string \<Rightarrow> error + 'a"
    and limit :: nat
  assumes accepts_iff: "(\<exists>v. validate s = Inr v) \<longleftrightarrow> \<not> all_space s \<and> length s \<le> limit"
begin

lemma accepted_nonempty: "validate s = Inr v \<Longrightarrow> s \<noteq> []"
  using accepts_iff [of s] by auto

lemma accepted_by_database:
  assumes "\<And>t. blank t \<Longrightarrow> all_space t" and "validate s = Inr v"
  shows "\<not> blank s \<and> length s \<le> limit"
  using assms accepts_iff [of s] by blast

lemma rejected_iff: "(\<exists>e. validate s = Inl e) \<longleftrightarrow> all_space s \<or> limit < length s"
  using accepts_iff [of s] by (cases "validate s") auto

end

interpretation queue_name: name_validator validate_queue_name MAX_QUEUE_NAME_LENGTH
  by unfold_locales (auto simp: validate_queue_name_def)

interpretation task_name: name_validator validate_task_name MAX_TASK_NAME_BYTES
  by unfold_locales (auto simp: validate_task_name_def)

interpretation idempotency_key: name_validator validate_idempotency_key MAX_IDEMPOTENCY_KEY_BYTES
  by unfold_locales (auto simp: validate_idempotency_key_def)

interpretation step_identity: name_validator "workflow_storage_name STEP_PREFIX" 1018
  by unfold_locales
    (auto simp: workflow_storage_name_def MAX_WORKFLOW_STORAGE_NAME_BYTES_def STEP_PREFIX_def Let_def)

interpretation sleep_identity: name_validator "workflow_storage_name SLEEP_PREFIX" 1017
  by unfold_locales
    (auto simp: workflow_storage_name_def MAX_WORKFLOW_STORAGE_NAME_BYTES_def SLEEP_PREFIX_def Let_def)

lemma validate_queue_name_Inr:
  "validate_queue_name s = Inr v \<longleftrightarrow> v = s \<and> \<not> all_space s \<and> length s \<le> 33"
  by (auto simp: validate_queue_name_def MAX_QUEUE_NAME_LENGTH_def)

lemma workflow_storage_name_Inr:
  "workflow_storage_name prefix s = Inr v \<longleftrightarrow>
    v = prefix @ s \<and> \<not> all_space s \<and> length s \<le> 1024 - length prefix"
  by (auto simp: workflow_storage_name_def MAX_WORKFLOW_STORAGE_NAME_BYTES_def Let_def)

lemma keyed_workflow_storage_name_Inr:
  "keyed_workflow_storage_name prefix s k = Inr v \<longleftrightarrow>
    v = prefix @ keyed_identity s k \<and> \<not> all_space s \<and> \<not> all_space k
    \<and> length (keyed_identity s k) \<le> 1024 - length prefix"
  by (auto simp: keyed_workflow_storage_name_def MAX_WORKFLOW_STORAGE_NAME_BYTES_def Let_def)

subsection \<open>Decimal rendering and keyed identities\<close>

lemma byte_digit_char: "d < 10 \<Longrightarrow> byte (digit_char d) = 48 + d"
  by (simp add: digit_char_def)

lemma digit_char_inject: "d < 10 \<Longrightarrow> e < 10 \<Longrightarrow> digit_char d = digit_char e \<Longrightarrow> d = e"
  by (metis byte_digit_char add_left_cancel)

lemma show_nat_digits: "c \<in> set (show_nat n) \<Longrightarrow> 48 \<le> byte c \<and> byte c \<le> 57"
proof (induction n rule: show_nat.induct)
  case (1 n)
  show ?case
  proof (cases "n < 10")
    case True
    with "1.prems" show ?thesis by (simp add: show_nat.simps [of n] byte_digit_char)
  next
    case False
    with 1 show ?thesis by (auto simp: show_nat.simps [of n] byte_digit_char)
  qed
qed

lemma show_nat_nonempty: "show_nat n \<noteq> []"
  by (subst show_nat.simps) simp

lemma show_nat_inject: "show_nat m = show_nat n \<Longrightarrow> m = n"
proof (induction m arbitrary: n rule: show_nat.induct)
  case (1 m)
  have sm: "show_nat m = (if m < 10 then [] else show_nat (m div 10)) @ [digit_char (m mod 10)]"
    by (subst show_nat.simps) simp
  have sn: "show_nat n = (if n < 10 then [] else show_nat (n div 10)) @ [digit_char (n mod 10)]"
    by (subst show_nat.simps) simp
  from "1.prems" have last: "m mod 10 = n mod 10"
    and init: "(if m < 10 then [] else show_nat (m div 10)) = (if n < 10 then [] else show_nat (n div 10))"
    unfolding sm sn by (simp_all add: digit_char_inject)
  show ?case
  proof (cases "m < 10")
    case True
    with init have "n < 10" using show_nat_nonempty [of "n div 10"] by (auto split: if_splits)
    with True last show ?thesis by simp
  next
    case False
    with init have "\<not> n < 10" and "show_nat (m div 10) = show_nat (n div 10)"
      by (auto simp: show_nat_nonempty split: if_splits)
    with False "1.IH" have "m div 10 = n div 10" by blast
    with last show ?thesis by (metis div_mult_mod_eq)
  qed
qed

lemma colon_split:
  assumes "xs @ '':'' @ ys = xs' @ '':'' @ ys'"
    and "CHR '':'' \<notin> set xs" and "CHR '':'' \<notin> set xs'"
  shows "xs = xs' \<and> ys = ys'"
  using assms
proof (induction xs arbitrary: xs')
  case Nil
  then show ?case by (cases xs') auto
next
  case (Cons x xs)
  then show ?case by (cases xs') auto
qed

lemma colon_not_in_show_nat: "CHR '':'' \<notin> set (show_nat n)"
  using show_nat_digits [of "CHR '':''" n] by auto

lemma keyed_identity_inject:
  assumes "keyed_identity s k = keyed_identity s' k'"
  shows "s = s' \<and> k = k'"
proof -
  have "show_nat (length s) = show_nat (length s') \<and> s @ k = s' @ k'"
    using assms colon_not_in_show_nat unfolding keyed_identity_def by (intro colon_split) auto
  then show ?thesis by (auto dest: show_nat_inject)
qed

text \<open>The four workflow namespaces cannot overlap, whatever follows the prefixes.\<close>

lemma namespace_prefixes_disjoint:
  "STEP_PREFIX @ a \<noteq> KEYED_STEP_PREFIX @ b"
  "STEP_PREFIX @ a \<noteq> SLEEP_PREFIX @ b"
  "STEP_PREFIX @ a \<noteq> TASK_WAIT_PREFIX @ b"
  "KEYED_STEP_PREFIX @ a \<noteq> SLEEP_PREFIX @ b"
  "KEYED_STEP_PREFIX @ a \<noteq> TASK_WAIT_PREFIX @ b"
  "SLEEP_PREFIX @ a \<noteq> TASK_WAIT_PREFIX @ b"
  by (simp_all add: STEP_PREFIX_def KEYED_STEP_PREFIX_def SLEEP_PREFIX_def TASK_WAIT_PREFIX_def)

subsection \<open>Rounding of durations\<close>

lemma uint_pos_iff: "uint w = 0 \<or> 1 \<le> uint w" for w :: "'a::len word"
  using uint_ge_0 [of w] by linarith

lemma of_int_uint_nonneg: "0 \<le> (of_int (uint w) :: rat)"
  by (rule of_int_0_le_iff [THEN iffD2], rule uint_ge_0)

lemma try_from_uint:
  "i32_try_from (uint w) = (if uint w \<le> i32_max then Some (uint w) else None)"
  "i64_try_from (uint w) = (if uint w \<le> i64_max then Some (uint w) else None)"
  using uint_pos_iff [of w] by (auto simp: i32_try_from_def i64_try_from_def)

lemma seconds_rounded_up_Some:
  assumes "seconds_rounded_up d = Some s" and "duration_valid d"
  shows "duration_nanos d \<le> uint s * 1000000000
    \<and> uint s * 1000000000 < duration_nanos d + 1000000000"
proof -
  have n: "uint (subsec_nanos d) < 1000000000"
    using assms(2) by (simp add: duration_valid_def word_less_def)
  have n0: "uint (subsec_nanos d) = 0 \<or> 1 \<le> uint (subsec_nanos d)" by (rule uint_pos_iff)
  have "uint s = uint (as_secs d) + (if subsec_nanos d > 0 then 1 else 0)"
    using assms(1) by (auto simp: seconds_rounded_up_def dest: checked_add_u64_Some)
  moreover have "subsec_nanos d > 0 \<longleftrightarrow> uint (subsec_nanos d) > 0"
    by (simp add: word_less_def)
  ultimately show ?thesis using n n0 by (auto simp: duration_nanos_def split: if_splits)
qed

lemma duration_seconds_Inr:
  "duration_seconds d = Inr s \<longleftrightarrow>
    (\<exists>w. seconds_rounded_up d = Some w \<and> uint w = s \<and> s \<le> i32_max)"
  by (auto simp: duration_seconds_def try_from_uint split: option.splits if_splits)

lemma duration_seconds_i64_Inr:
  "duration_seconds_i64 d label = Inr s \<longleftrightarrow>
    (\<exists>w. seconds_rounded_up d = Some w \<and> uint w = s \<and> s \<le> i64_max)"
  by (auto simp: duration_seconds_i64_def try_from_uint split: option.splits if_splits)

lemma database_positive_i32_Inr:
  "database_positive_i32 n label = Inr v \<longleftrightarrow> v = uint n \<and> 1 \<le> v \<and> v \<le> i32_max"
proof -
  have "n = 0 \<longleftrightarrow> uint n = 0" by (simp add: word_uint_eq_iff)
  then show ?thesis
    using uint_pos_iff [of n]
    by (auto simp: database_positive_i32_def try_from_uint split: if_splits)
qed

lemma round_half_even_nonneg: "0 \<le> q \<Longrightarrow> 0 \<le> round_half_even q"
  by (auto simp: round_half_even_def Let_def)

lemma f64_round_nonneg: "0 \<le> q \<Longrightarrow> 0 \<le> f64_round q"
proof -
  assume "0 \<le> q"
  moreover have "0 < pow2 e" for e by (simp add: pow2_def)
  ultimately show ?thesis
    by (auto simp: f64_round_def Let_def less_imp_le intro!: mult_nonneg_nonneg round_half_even_nonneg
        divide_nonneg_nonneg)
qed

lemma as_secs_f64_nonneg: "0 \<le> as_secs_f64 d"
  unfolding as_secs_f64_def
  by (intro f64_round_nonneg add_nonneg_nonneg divide_nonneg_nonneg of_int_uint_nonneg) simp

end
