(* ===== verification/Boundary.thy ===== *)
theory Boundary
  imports Validation Policy
begin

section \<open>The Rust/SQL boundary\<close>

text \<open>
  Rust validates a submission before it is sent, and PostgreSQL validates it again. The theorems
  here relate the two checks: every retry strategy, cancellation policy and option object that
  \<open>normalize_spawn_options\<close> produces passes the corresponding database check.
\<close>

text \<open>What the boundary relies on in PostgreSQL: its \<open>[[:space:]]\<close> class is contained in Unicode
  white space, and a double that Rust prints in its shortest form reads back as itself.\<close>

definition pg_text_laws :: "pg \<Rightarrow> bool" where
  "pg_text_laws pg \<longleftrightarrow> (\<forall>s. pg_blank pg s \<longrightarrow> all_space s)"

definition pg_reads :: "pg \<Rightarrow> rat \<Rightarrow> bool" where
  "pg_reads pg q \<longleftrightarrow> pg_float8 pg q = Some q"

definition pg_reads_durations :: "pg \<Rightarrow> bool" where
  "pg_reads_durations pg \<longleftrightarrow> (\<forall>d. pg_reads pg (as_secs_f64 d))"

fun pg_reads_factor :: "pg \<Rightarrow> RetryStrategy \<Rightarrow> bool" where
  "pg_reads_factor pg (Exponential _ (F64 q) _) = pg_reads pg q"
| "pg_reads_factor pg _ = True"

text \<open>A server with a one-second clock tick, sequential identifiers and exact arithmetic, on which
  witnesses evaluate the definitions.\<close>

definition exact_pg :: pg where
  "exact_pg = \<lparr>pg_clock = (\<lambda>n. int n * 1000000), pg_uuid = (\<lambda>n. n), pg_blank = all_space,
     pg_locked = (\<lambda>_ _. False), pg_scans = (\<lambda>_ _. False), pg_float8 = Some, pg_mul = (\<lambda>a b. Some (a * b)),
     pg_power = (\<lambda>f n. Some (f ^ nat n)), pg_interval = (\<lambda>q. \<lfloor>q * 1000000\<rfloor>),
     pg_timestamp_text = (\<lambda>t. show_nat (nat t))\<rparr>"

lemma exact_pg_laws:
  "pg_nonneg exact_pg" "pg_text_laws exact_pg" "pg_reads exact_pg q" "pg_reads_durations exact_pg"
  by (simp_all add: exact_pg_def pg_nonneg_def pg_text_laws_def pg_reads_def pg_reads_durations_def)

lemma validate_retry_delay_Inr:
  "validate_retry_delay d label = Inr () \<longleftrightarrow> delay_in_range (as_secs_f64 d)"
  using as_secs_f64_nonneg [of d]
  by (auto simp: validate_retry_delay_def delay_in_range_def MAX_DATABASE_DELAY_SECONDS_def
      maximum_delay_seconds_def)

lemma retry_strategy_json_Inr:
  "retry_strategy_json s = Inr j \<longleftrightarrow> validate_retry_strategy s = Inr () \<and> j = retry_strategy_value s"
  by (auto simp: retry_strategy_json_def res_bind_eq_Inr)

lemma strategy_number_JDec:
  "jget k j = Some (JDec q) \<Longrightarrow> pg_reads pg q \<Longrightarrow> strategy_number pg k j = Inr q"
  by (simp add: strategy_number_def pg_reads_def)

lemma fixed_value_accepted:
  assumes "pg_reads_durations pg" and "validate_retry_strategy (Fixed d) = Inr ()"
  shows "fixed_delay pg (retry_strategy_value (Fixed d)) = Inr (as_secs_f64 d)"
proof -
  let ?j = "retry_strategy_value (Fixed d)"
  have get: "jget ''baseSeconds'' ?j = Some (JDec (as_secs_f64 d))"
    and keys: "unknown_key [''kind'', ''baseSeconds''] ?j = None"
    unfolding unknown_key_None_iff by (simp_all add: retry_strategy_value_def)
  have "strategy_number pg ''baseSeconds'' ?j = Inr (as_secs_f64 d)"
    using assms(1) get by (auto simp: pg_reads_durations_def intro: strategy_number_JDec)
  moreover have "delay_in_range (as_secs_f64 d)"
    using assms(2) by (simp add: validate_retry_delay_Inr)
  ultimately show ?thesis using get keys by (simp add: fixed_delay_def jhas_def has_number_def)
qed

lemma exponential_value_params:
  assumes "pg_reads_durations pg" and "pg_reads pg q"
    and "validate_retry_strategy (Exponential d (F64 q) m) = Inr ()"
  shows "exponential_params pg (retry_strategy_value (Exponential d (F64 q) m)) (as_secs_f64 d) q
    (case m of None \<Rightarrow> maximum_delay_seconds | Some x \<Rightarrow> as_secs_f64 x)"
proof -
  let ?j = "retry_strategy_value (Exponential d (F64 q) m)"
  have get: "jget ''baseSeconds'' ?j = Some (JDec (as_secs_f64 d))"
      "jget ''factor'' ?j = Some (JDec q)"
      "jget ''maxSeconds'' ?j = map_option (\<lambda>x. JDec (as_secs_f64 x)) m"
    by (simp_all add: retry_strategy_value_def)
  have "set (object_keys ?j) \<subseteq> set [''kind'', ''baseSeconds'', ''factor'', ''maxSeconds'']"
    by (simp add: retry_strategy_value_def set_keys_json_insert_option)
  then have keys: "unknown_key [''kind'', ''baseSeconds'', ''factor'', ''maxSeconds''] ?j = None"
    by (simp only: unknown_key_None_iff)
  have reads: "pg_reads pg (as_secs_f64 x)" for x
    using assms(1) by (simp add: pg_reads_durations_def)
  have range: "delay_in_range (as_secs_f64 d)" "0 < q"
      "\<And>x. m = Some x \<Longrightarrow> delay_in_range (as_secs_f64 x)"
    using assms(3)
    by (auto simp: res_bind_eq_Inr validate_retry_delay_Inr factor_rejected_def split: if_splits)
  have top: "delay_in_range maximum_delay_seconds"
    by (simp add: delay_in_range_def maximum_delay_seconds_def)
  show ?thesis
    using get keys range reads assms(2) top
    by (cases m) (simp_all add: exponential_params_def jhas_def has_number_def strategy_number_JDec)
qed

text \<open>Every retry strategy that Rust's own validation accepts is accepted by the database:
  its JSON form has a delay for every attempt number, and that delay lies between 0 and
  2147483647 seconds, so a stored strategy can never fail a later state transition.\<close>

lemma strategy_accepted:
  assumes "retry_strategy_json s = Inr j"
    and "pg_nonneg pg" and "pg_reads_durations pg" and "pg_reads_factor pg s"
    and "1 \<le> attempt"
  shows "\<exists>d. retry_delay_seconds pg j attempt = Inr d \<and> 0 \<le> d \<and> d \<le> 2147483647"
proof -
  have v: "validate_retry_strategy s = Inr ()" and j: "j = retry_strategy_value s"
    using assms(1) by (simp_all add: retry_strategy_json_Inr)
  have "\<exists>d. retry_delay_seconds pg j 1 = Inr d"
  proof (cases s)
    case (Fixed d)
    then show ?thesis using fixed_value_accepted [OF assms(3)] v j
      by (auto simp: retry_delay_seconds_cases retry_strategy_value_def)
  next
    case (Exponential d f m)
    then obtain q where f: "f = F64 q"
      using v by (auto simp: res_bind_eq_Inr factor_rejected_def split: if_splits f64.splits)
    have "exponential_params pg j (as_secs_f64 d) q
        (case m of None \<Rightarrow> maximum_delay_seconds | Some x \<Rightarrow> as_secs_f64 x)"
      using exponential_value_params [OF assms(3), of q d m] assms(4) v j Exponential f by simp
    then have "\<exists>e. exponential_delay pg j 1 = Inr e" unfolding exponential_delay_Inr by blast
    then show ?thesis using j Exponential
      by (auto simp: retry_delay_seconds_cases retry_strategy_value_def)
  next
    case NoRetry
    then show ?thesis using j
      by (simp add: retry_delay_seconds_cases retry_strategy_value_def unknown_key_def)
  qed
  then obtain d where "retry_delay_seconds pg j attempt = Inr d" "delay_in_range d"
    using retry_delay_every_attempt [OF assms(2) _ assms(5)] by blast
  then show ?thesis by (auto simp: delay_in_range_def maximum_delay_seconds_def)
qed

text \<open>The strategy the database falls back on is read like any other: its three numbers are lengths of
  whole-second durations.\<close>

lemma default_strategy_accepted:
  assumes "pg_reads_durations pg"
  shows "\<exists>d. retry_delay_seconds pg default_retry_strategy 1 = Inr d"
proof -
  have secs: "as_secs_f64 \<lparr>as_secs = 30, subsec_nanos = 0\<rparr> = 30" "as_secs_f64 \<lparr>as_secs = 2, subsec_nanos = 0\<rparr> = 2"
    "as_secs_f64 \<lparr>as_secs = 3600, subsec_nanos = 0\<rparr> = 3600"
    by code_simp+
  have reads: "pg_reads pg 30" "pg_reads pg 2" "pg_reads pg 3600"
    using assms unfolding pg_reads_durations_def by (metis secs)+
  have get: "jget ''baseSeconds'' default_retry_strategy = Some (JDec 30)"
      "jget ''factor'' default_retry_strategy = Some (JDec 2)"
      "jget ''maxSeconds'' default_retry_strategy = Some (JDec 3600)"
      "jget ''kind'' default_retry_strategy = Some (JStr ''exponential'')"
      "is_object default_retry_strategy"
    by (simp_all add: default_retry_strategy_def)
  have keys: "unknown_key [''kind'', ''baseSeconds'', ''factor'', ''maxSeconds''] default_retry_strategy = None"
    by (simp add: unknown_key_None_iff default_retry_strategy_def)
  have "exponential_params pg default_retry_strategy 30 2 3600"
    using get keys reads
    by (simp add: exponential_params_def jhas_def has_number_def strategy_number_JDec delay_in_range_def
        maximum_delay_seconds_def)
  then have "\<exists>d. exponential_delay pg default_retry_strategy 1 = Inr d" unfolding exponential_delay_Inr by blast
  then show ?thesis using get by (auto simp: retry_delay_seconds_cases)
qed

lemma cancellation_json_Inr:
  "cancellation_json c = Inr m \<Longrightarrow> map_of m k = Some v \<Longrightarrow>
    (k = ''maxDelay'' \<or> k = ''maxDuration'') \<and> (\<exists>i. v = JInt i \<and> 0 \<le> i \<and> i \<le> i64_max)"
  by (auto simp: cancellation_json_def res_bind_eq_Inr duration_seconds_i64_Inr
      traverse_option_def split: option.splits if_splits)

lemma cancellation_json_keys:
  assumes "cancellation_json c = Inr m"
  shows "fst ` set m \<subseteq> {''maxDelay'', ''maxDuration''}"
proof -
  obtain a b where "m = json_insert_option ''maxDelay'' a (json_insert_option ''maxDuration'' b [])"
    using assms by (auto simp: cancellation_json_def res_bind_eq_Inr)
  then show ?thesis by (simp add: set_keys_json_insert_option)
qed

lemma check_cancellation_whole:
  assumes "whole_policy (Some j)"
  shows "check_cancellation_key k j = Inr ()"
proof (cases "jget k j")
  case (Some v)
  then obtain i where "v = JInt i" "0 \<le> i" "i \<le> i64_max"
    using assms by (auto simp: whole_policy_def)
  moreover from this have "(of_int i :: rat) \<le> of_int i64_max" by (simp only: of_int_le_iff)
  ultimately show ?thesis using Some
    by (simp add: check_cancellation_key_def cancellation_seconds_ok_def)
qed (simp add: check_cancellation_key_def)

text \<open>Every non-empty cancellation policy that Rust builds passes the database's own
  validation unchanged, and its deadlines can afterwards be evaluated at every timestamp without
  raising.\<close>

lemma cancellation_accepted:
  assumes "cancellation_json c = Inr m" and "m \<noteq> []"
  shows "validate_cancellation_policy (Some (JObj m)) = Inr (Some (JObj m))
    \<and> (\<exists>b. cancellation_due (Some (JObj m)) enqueue_at started_at observed_at = Inr b)"
proof -
  have whole: "whole_policy (Some (JObj m))"
    using cancellation_json_Inr [OF assms(1)] by (auto simp: whole_policy_def)
  have "set (object_keys (JObj m)) \<subseteq> set [''maxDelay'', ''maxDuration'']"
    using cancellation_json_keys [OF assms(1)] by simp
  then have "unknown_key [''maxDelay'', ''maxDuration''] (JObj m) = None"
    by (simp only: unknown_key_None_iff)
  then have "validate_cancellation_policy (Some (JObj m)) = Inr (Some (JObj m))"
    using assms(2) check_cancellation_whole [OF whole] by (simp add: validate_cancellation_policy_def)
  then show ?thesis using cancellation_due_whole [OF whole] by blast
qed

end
