(* ===== verification/DbProperties.thy ===== *)
theory DbProperties
  imports DbSystem Boundary
begin

section \<open>Properties of the durable state machine\<close>

text \<open>
  The promises \<open>sql/steda.sql\<close> makes to its clients, each for every database that calls can
  reach or for every database with the invariant. The witnesses run the functions on
  \<open>exact_pg\<close>: one queue, one task, one claim.
\<close>

subsection \<open>A scenario\<close>

definition demo_task :: task_row where
  "demo_task = \<lparr>t_id = 0, t_name = ''mail'', t_params = JNull, t_headers = None,
     t_retry_strategy = default_retry_strategy, t_initial_max_attempts = 5, t_max_attempts = 5,
     t_cancellation = None, t_enqueue_at = 2000000, t_first_started_at = None, t_state = Pending,
     t_attempts = 1, t_last_attempt_run = 1, t_cancelled_at = None, t_idempotency_key = Some ''k''\<rparr>"

definition demo_running :: task_row where
  "demo_running = demo_task\<lparr>t_first_started_at := Some 6000000, t_state := Running\<rparr>"

definition demo_run :: run_row where
  "demo_run = (new_run 1 0 1 Running 6000000)\<lparr>r_claimed_by := Some ''w1'',
     r_claim_expires_at := Some 66000000, r_started_at := Some 6000000\<rparr>"

definition demo_created :: db where
  "demo_created = \<lparr>queues = [queue_defaults ''q''], storage = [(''q'', empty_store)], seq = 0\<rparr>"

definition demo_options :: "json option" where
  "demo_options = Some (JObj [(''idempotencyKey'', JStr ''k'')])"

definition demo_spawned :: db where
  "demo_spawned = \<lparr>queues = [queue_defaults ''q''], storage = [(''q'', \<lparr>tasks = [demo_task],
     runs = [new_run 1 0 1 Pending 2000000], checkpoints = []\<rparr>)], seq = 3\<rparr>"

definition demo_store :: store where
  "demo_store = \<lparr>tasks = [demo_running], runs = [demo_run], checkpoints = []\<rparr>"

definition demo_claimed :: db where
  "demo_claimed = \<lparr>queues = [queue_defaults ''q''], storage = [(''q'', demo_store)], seq = 7\<rparr>"

lemma demo_create: "run_txn (create_queue exact_pg ''q'') empty_db = (Inr (), demo_created)"
  by code_simp

lemma demo_spawn:
  "run_txn (spawn_task exact_pg ''q'' ''mail'' None demo_options) demo_created = (Inr (0, True), demo_spawned)"
  by code_simp

lemma demo_claim:
  "run_txn (claim_tasks exact_pg ''q'' ''w1'' 60 10 [''mail'']) demo_spawned =
    (Inr [\<lparr>k_run_id = 1, k_task_id = 0, k_attempt = 1, k_task_name = ''mail'', k_params = JNull,
       k_headers = None\<rparr>], demo_claimed)"
  by code_simp

lemma exact_pg_ok: "pg_ok exact_pg"
  using exact_pg_laws(1) by (simp add: pg_ok_def exact_pg_def inj_def)

lemma demo_reachable:
  "(db_step exact_pg)\<^sup>*\<^sup>* empty_db demo_created" "(db_step exact_pg)\<^sup>*\<^sup>* empty_db demo_spawned"
  "(db_step exact_pg)\<^sup>*\<^sup>* empty_db demo_claimed"
proof -
  show 1: "(db_step exact_pg)\<^sup>*\<^sup>* empty_db demo_created"
    using do_create [OF demo_create] by (rule r_into_rtranclp)
  show 2: "(db_step exact_pg)\<^sup>*\<^sup>* empty_db demo_spawned"
    using 1 do_spawn [OF demo_spawn] by (rule rtranclp.rtrancl_into_rtrancl)
  show "(db_step exact_pg)\<^sup>*\<^sup>* empty_db demo_claimed"
    using 2 do_claim [OF demo_claim] by (rule rtranclp.rtrancl_into_rtrancl)
qed

lemma demo_inv: "db_inv exact_pg demo_created" "db_inv exact_pg demo_spawned" "db_inv exact_pg demo_claimed"
  using queue_db.reachable_good [of empty_db exact_pg] demo_reachable exact_pg_ok by auto

lemma demo_facts:
  "queue_name_ok exact_pg ''q''" "map_of (storage demo_claimed) ''q'' = Some demo_store"
  "running_attempt demo_store 1 demo_run demo_running 66000000" "pg_clock exact_pg (seq demo_claimed) < 66000000"
  "task_due demo_running (pg_clock exact_pg (seq demo_claimed)) = Inr False"
  by code_simp+

subsection \<open>Tasks and runs agree\<close>

lemma reachable_inv: "pg_ok pg \<Longrightarrow> (db_step pg)\<^sup>*\<^sup>* empty_db db \<Longrightarrow> db_inv pg db"
  using queue_db.reachable_good [of empty_db pg db] by blast

text \<open>\<^bold>\<open>C1.\<close> In every database that calls can reach, every task has exactly one authoritative run:
  the run it points at carries the task's attempt number and its state (a task cancelled while its
  retry was being refused keeps a failed run), and every other run of the task is an earlier
  failed attempt. So an active task always has one run that can be claimed, resumed or reaped:
  no task is lost and none runs twice.\<close>

theorem reachable_task_has_authoritative_run:
  assumes "pg_ok pg" and "(db_step pg)\<^sup>*\<^sup>* empty_db db" and "map_of (storage db) q = Some s"
    and "t \<in> set (tasks s)"
  shows "\<exists>r\<in>set (runs s). r_task_id r = t_id t \<and> r_id r = t_last_attempt_run t
      \<and> r_attempt r = t_attempts t
      \<and> (r_state r = t_state t \<or> t_state t = Cancelled \<and> r_state r = Failed)
      \<and> (\<forall>r'\<in>set (runs s). r_task_id r' = t_id t \<and> r' \<noteq> r \<longrightarrow>
           r_state r' = Failed \<and> r_attempt r' < t_attempts t)"
proof -
  have inv: "store_inv pg (seq db) s" using db_inv_store [OF reachable_inv [OF assms(1,2)] assms(3)] .
  obtain r where r: "r \<in> set (runs s)" "r_task_id r = t_id t" "authoritative t r"
    using store_inv_authoritative [OF inv assms(4)] .
  have con: "task_consistent t (runs_of (t_id t) (runs s))" using inv assms(4) unfolding store_inv_def by blast
  have "superseded t r'" if "r' \<in> set (runs s)" "r_task_id r' = t_id t" "r' \<noteq> r" for r'
  proof -
    have "authoritative t r' \<or> superseded t r'" using con that by (auto simp: task_consistent_def set_runs_of)
    moreover have "\<not> authoritative t r'"
      using that r store_inv_run_unique [OF inv, of r' r] by (auto simp: authoritative_def)
    ultimately show ?thesis by blast
  qed
  with r show ?thesis by (intro bexI [of _ r]) (auto simp: authoritative_def superseded_def)
qed

theorem reachable_task_has_authoritative_run_witness:
  "\<exists>r\<in>set (runs demo_store). r_task_id r = 0 \<and> r_id r = 1 \<and> r_attempt r = 1 \<and> r_state r = Running"
  using reachable_task_has_authoritative_run [OF exact_pg_ok demo_reachable(3) demo_facts(2), of demo_running]
  by (auto simp: demo_store_def demo_running_def demo_task_def)

subsection \<open>Fencing\<close>

lemma ebind_fails: "m s = (Inl e, t) \<Longrightarrow> ebind m f s = (Inl e, t)"
  by (simp add: ebind_apply)

lemma run_txn_fails: "m db = (Inl e, d) \<Longrightarrow> \<exists>e n. run_txn m db = (Inl e, db\<lparr>seq := n\<rparr>)"
  using run_txn_aborts by blast

lemma stale_lock:
  assumes "\<not> (\<exists>s r t lease. map_of (storage db) q = Some s \<and> running_attempt s i r t lease
    \<and> pg_clock pg (seq db) < lease)"
  obtains e d where "lock_running_attempt pg q i False db = (Inl e, d)"
proof (cases "lock_running_attempt pg q i False db")
  case (Pair a d)
  show thesis
  proof (cases a)
    case (Inl e)
    then show thesis using Pair that by simp
  next
    case (Inr x)
    then have "lock_running_attempt pg q i False db = (Inr x, d)" using Pair by simp
    then show thesis by (rule lock_running_attempt_success) (use assms in \<open>auto simp: not_le\<close>)
  qed
qed

text \<open>\<^bold>\<open>C2.\<close> Fencing: a worker whose run is not the authoritative running attempt of its task, or
  whose lease has expired at the time the database reads, can neither complete, suspend, fail nor
  checkpoint it. Each call fails and leaves every table as it was.\<close>

theorem stale_attempt_cannot_write:
  assumes "\<not> (\<exists>s r t lease. map_of (storage db) q = Some s \<and> running_attempt s i r t lease
    \<and> pg_clock pg (seq db) < lease)"
  shows "(\<exists>e n. run_txn (complete_run pg q i res) db = (Inl e, db\<lparr>seq := n\<rparr>))
    \<and> (\<exists>e n. run_txn (schedule_run pg q i wake) db = (Inl e, db\<lparr>seq := n\<rparr>))
    \<and> (\<exists>e n. run_txn (fail_run pg q i reason False) db = (Inl e, db\<lparr>seq := n\<rparr>))
    \<and> (\<exists>e n. run_txn (set_task_checkpoint_state pg q tid name v i) db = (Inl e, db\<lparr>seq := n\<rparr>))
    \<and> (\<exists>e n. run_txn (get_task_checkpoint_states pg q tid i) db = (Inl e, db\<lparr>seq := n\<rparr>))"
proof -
  obtain e d where lock: "lock_running_attempt pg q i False db = (Inl e, d)"
    using stale_lock [OF assms] .
  have "complete_run pg q i res db = (Inl e, d)" "schedule_run pg q i wake db = (Inl e, d)"
    "fail_run pg q i reason False db = (Inl e, d)" "get_task_checkpoint_states pg q tid i db = (Inl e, d)"
    by (simp_all add: complete_run_def schedule_run_def fail_run_def get_task_checkpoint_states_def
        ebind_fails lock)
  moreover have "\<exists>e d. set_task_checkpoint_state pg q tid name v i db = (Inl e, d)"
    by (cases "pg_blank pg name"; cases "length name \<le> 1024")
      (simp_all add: set_task_checkpoint_state_def ebind_apply esm_apply lock)
  then obtain e' d' where "set_task_checkpoint_state pg q tid name v i db = (Inl e', d')" by blast
  ultimately show ?thesis by (intro conjI run_txn_fails)
qed

theorem stale_attempt_cannot_write_witness:
  "\<exists>e n. run_txn (complete_run exact_pg ''q'' 1 JNull) (demo_claimed\<lparr>seq := 66\<rparr>) =
    (Inl e, demo_claimed\<lparr>seq := n\<rparr>)"
proof -
  have "\<not> (\<exists>s r t lease. map_of (storage (demo_claimed\<lparr>seq := 66\<rparr>)) ''q'' = Some s
      \<and> running_attempt s 1 r t lease \<and> pg_clock exact_pg (seq (demo_claimed\<lparr>seq := 66\<rparr>)) < lease)"
    using demo_facts(2,3) by (auto simp: running_attempt_def exact_pg_def)
  from stale_attempt_cannot_write [OF this] show ?thesis by simp
qed

subsection \<open>Permanence\<close>

lemma drawn_task: "db_inv pg db \<Longrightarrow> map_of (storage db) q = Some s \<Longrightarrow> t \<in> set (tasks s) \<Longrightarrow>
    drawn pg (seq db) (t_id t)"
  using db_inv_store [of pg db q s] unfolding store_inv_def ids_drawn_def drawn_def by blast

lemma drawn_run: "db_inv pg db \<Longrightarrow> map_of (storage db) q = Some s \<Longrightarrow> r \<in> set (runs s) \<Longrightarrow>
    drawn pg (seq db) (r_id r)"
  using db_inv_store [of pg db q s] unfolding store_inv_def ids_drawn_def drawn_def by blast

lemma later_store:
  assumes "pg_ok pg" and "db_inv pg db" and "(db_step pg)\<^sup>*\<^sup>* db db'"
    and "map_of (storage db) q = Some s" and "map_of (storage db') q = Some s'"
  shows "store_evolves pg (seq db) s s'" and "store_inv pg (seq db') s'"
proof -
  show "store_evolves pg (seq db) s s'"
    using steps_evolve [OF assms(3,1,2)] assms(4,5) unfolding db_evolves_def store_at_def
    by (metis option.simps(5))
  have "db_inv pg db'" using queue_db.steps_good [OF assms(3)] assms(1,2) by blast
  then show "store_inv pg (seq db') s'" using assms(5) by (rule db_inv_store)
qed

lemma later_task:
  assumes "pg_ok pg" and "db_inv pg db" and "(db_step pg)\<^sup>*\<^sup>* db db'"
    and "map_of (storage db) q = Some s" and "map_of (storage db') q = Some s'"
    and "t \<in> set (tasks s)" and "t' \<in> set (tasks s')" and "t_id t' = t_id t"
  shows "task_evolves t t'"
proof -
  note st = later_store [OF assms(1-5)]
  have "drawn pg (seq db) (t_id t')" using drawn_task [OF assms(2,4,6)] assms(8) by simp
  then obtain u where "u \<in> set (tasks s)" "task_evolves u t'"
    using st(1) assms(7) unfolding store_evolves_def by blast
  moreover have "u = t"
    using calculation assms(6,8) store_inv_task_unique [OF db_inv_store [OF assms(2,4)], of u t]
    by (simp add: task_evolves_def)
  ultimately show ?thesis by simp
qed



lemma later_run:
  assumes "pg_ok pg" and "db_inv pg db" and "(db_step pg)\<^sup>*\<^sup>* db db'"
    and "map_of (storage db) q = Some s" and "map_of (storage db') q = Some s'"
    and "r \<in> set (runs s)" and "r' \<in> set (runs s')" and "r_id r' = r_id r"
  shows "run_evolves r r'"
proof -
  note st = later_store [OF assms(1-5)]
  have "drawn pg (seq db) (r_id r')" using drawn_run [OF assms(2,4,6)] assms(8) by simp
  then obtain u where "u \<in> set (runs s)" "run_evolves u r'"
    using st(1) assms(7) unfolding store_evolves_def by blast
  moreover have "u = r"
    using calculation assms(6,8) store_inv_run_unique [OF db_inv_store [OF assms(2,4)], of u r]
    by (simp add: run_evolves_def)
  ultimately show ?thesis by simp
qed

text \<open>What a read reports of a completed or cancelled task never changes.\<close>

lemma result_of_authoritative:
  assumes "store_inv pg n s" and "r \<in> set (runs s)" and "authoritative t r"
  shows "find_row r_id (t_last_attempt_run t) (runs s) = Some r"
  using assms by (subst find_row_eq_Some) (auto simp: store_inv_def store_ok_iff authoritative_def)

lemma terminal_result_stays:
  assumes "pg_ok pg" and "db_inv pg db" and "(db_step pg)\<^sup>*\<^sup>* db db'"
    and "map_of (storage db) q = Some s" and "map_of (storage db') q = Some s'"
    and "t \<in> set (tasks s)" and "t' \<in> set (tasks s')" and "t_id t' = t_id t"
    and "t_state t = Completed \<or> t_state t = Cancelled"
  shows "t' = t" and "result_of s' t' = result_of s t"
proof -
  show same: "t' = t" using later_task [OF assms(1-8)] assms(9) by (auto simp: task_evolves_def)
  have si: "store_inv pg (seq db) s" using db_inv_store [OF assms(2,4)] .
  have si': "store_inv pg (seq db') s'" using later_store(2) [OF assms(1-5)] .
  obtain r where r: "r \<in> set (runs s)" "authoritative t r"
    using store_inv_authoritative [OF si assms(6)] by blast
  obtain r' where r': "r' \<in> set (runs s')" "authoritative t r'"
    using store_inv_authoritative [OF si' assms(7)] same by blast
  have "run_evolves r r'"
    using later_run [OF assms(1-5) r(1) r'(1)] r(2) r'(2) by (simp add: authoritative_def)
  then have "t_state t = Completed \<Longrightarrow> r' = r" using r(2) by (simp add: run_evolves_def authoritative_def)
  then show "result_of s' t' = result_of s t"
    using result_of_authoritative [OF si r] result_of_authoritative [OF si' r'] same assms(9)
    by (auto simp: result_of_def Let_def)
qed

text \<open>Results are permanent: once a result read of a task reports a completed or cancelled
  outcome, every later read of that task reports the same row, value included, for as long as the
  task is stored.\<close>

lemma outcome_is_permanent:
  assumes "pg_ok pg" and "(db_step pg)\<^sup>*\<^sup>* empty_db db" and "(db_step pg)\<^sup>*\<^sup>* db db'"
    and "get_task_result pg q tid db = (Inr (Some row), db)"
    and "res_state row = Completed \<or> res_state row = Cancelled"
    and "get_task_result pg q tid db' = (Inr (Some row'), db')"
  shows "row' = row"
proof -
  note inv = reachable_inv [OF assms(1,2)]
  obtain s t where s: "map_of (storage db) q = Some s" and t: "find_row t_id tid (tasks s) = Some t"
    and row: "row = result_of s t"
    using get_task_result_row [OF assms(4)] by metis
  obtain s' t' where s': "map_of (storage db') q = Some s'" and t': "find_row t_id tid (tasks s') = Some t'"
    and row': "row' = result_of s' t'"
    using get_task_result_row [OF assms(6)] by metis
  note mem = find_row_SomeD [OF t] find_row_SomeD [OF t']
  have "t_state t = Completed \<or> t_state t = Cancelled" using assms(5) row by (simp add: result_of_def Let_def)
  then show ?thesis
    using terminal_result_stays(2) [OF assms(1) inv assms(3) s s', of t t'] mem row row' by simp
qed

definition demo_done :: db where
  "demo_done = snd (run_txn (complete_run exact_pg ''q'' 1 (JStr ''sent'')) demo_claimed)"

lemma demo_done_step: "db_step exact_pg demo_claimed demo_done"
  unfolding demo_done_def by (rule do_complete, rule surjective_pairing)

lemma outcome_is_permanent_witness:
  "get_task_result exact_pg ''q'' 0 (demo_done\<lparr>seq := 99\<rparr>) =
    (Inr (Some \<lparr>res_task_name = ''mail'', res_state = Completed, res_result = Some (JStr ''sent''),
       res_failure_reason = None\<rparr>), demo_done\<lparr>seq := 99\<rparr>)"
proof -
  let ?row = "\<lparr>res_task_name = ''mail'', res_state = Completed, res_result = Some (JStr ''sent''),
    res_failure_reason = None\<rparr>"
  have now: "get_task_result exact_pg ''q'' 0 demo_done = (Inr (Some ?row), demo_done)"
    by code_simp
  obtain row' where row': "get_task_result exact_pg ''q'' 0 (demo_done\<lparr>seq := 99\<rparr>) =
      (Inr (Some row'), demo_done\<lparr>seq := 99\<rparr>)"
    using now by (auto elim!: get_task_result_row simp: get_task_result_eval)
  have "(db_step exact_pg)\<^sup>*\<^sup>* empty_db demo_done"
    using demo_reachable(3) demo_done_step by (rule rtranclp.rtrancl_into_rtrancl)
  moreover have "(db_step exact_pg)\<^sup>*\<^sup>* demo_done (demo_done\<lparr>seq := 99\<rparr>)"
  proof (rule r_into_rtranclp, rule do_draw)
    show "seq demo_done \<le> 99" by code_simp
  qed
  ultimately have "row' = ?row"
    using outcome_is_permanent [OF exact_pg_ok _ _ now _ row'] by simp
  then show ?thesis using row' by simp
qed

subsection \<open>Idempotent submission\<close>

lemma key_unique:
  assumes ok: "store_ok pg s" and t: "t \<in> set (tasks s)" "t_idempotency_key t = Some k"
  shows "find_row t_idempotency_key (Some k) (tasks s) = Some t"
proof -
  have "distinct (map t_idempotency_key (filter (\<lambda>t. t_idempotency_key t \<noteq> None) (tasks s)))"
    using ok by (simp add: store_ok_iff filter_map comp_def)
  moreover have eq: "find_row t_idempotency_key (Some k) ts =
      find_row t_idempotency_key (Some k) (filter (\<lambda>t. t_idempotency_key t \<noteq> None) ts)"
    for ts :: "task_row list"
    by (induction ts) (auto simp: find_row_def)
  ultimately show ?thesis unfolding eq [of "tasks s"] using t by (subst find_row_eq_Some) auto
qed

lemma same_request_of_row: "same_request rq (task_of_request rq i j now)"
  by (simp add: same_request_def task_of_request_def)

lemma same_request_evolves: "same_request rq t \<Longrightarrow> task_evolves t t' \<Longrightarrow> same_request rq t'"
  by (simp add: same_request_def task_evolves_def)

text \<open>After a submission with a key, the queue holds a task with that key for the same request; while such
  a task is stored, repeating the submission returns it.\<close>

lemma spawn_leaves_request:
  assumes pg: "pg_ok pg" and inv: "db_inv pg db" and rq: "parse_spawn_request pg name params opts = Inr rq"
    and key: "q_idempotency_key rq = Some k"
    and run: "spawn_task pg q name params opts db = (Inr (tid, created), db')"
  obtains s t where "db_inv pg db'" "map_of (storage db') q = Some s" "t \<in> set (tasks s)" "t_id t = tid"
    "t_idempotency_key t = Some k" "same_request rq t"
proof -
  have inj: "inj (pg_uuid pg)" and nn: "pg_nonneg pg" using pg by (simp_all add: pg_ok_def)
  from run obtain s where q: "queue_name_ok pg q" and s: "map_of (storage db) q = Some s"
    by (rule spawn_task_success)
  note eval = run [unfolded spawn_task_eval [OF inv inj nn q s rq]]
  have inv': "db_inv pg db'" using inv inj nn run by (rule spawn_task_inv)
  show thesis
  proof (cases "key_used (q_idempotency_key rq) (tasks s)")
    case True
    then obtain t where t: "find_row t_idempotency_key (Some k) (tasks s) = Some t" "t_id t = tid" "same_request rq t"
      and db': "db' = tick3 db"
      using eval key by (auto split: option.splits if_splits)
    then show thesis using find_row_SomeD [OF t(1)] s by (intro that [OF inv']) (auto simp: tick3_def)
  next
    case False
    let ?t = "task_of_request rq tid (pg_uuid pg (Suc (seq db))) (pg_clock pg (Suc (Suc (seq db))))"
    let ?s = "spawned_store rq tid (pg_uuid pg (Suc (seq db))) (pg_clock pg (Suc (Suc (seq db)))) s"
    have "db' = put_store q ?s (tick3 db)" using eval False by (auto split: if_splits)
    then have "map_of (storage db') q = Some ?s" by simp
    moreover have "?t \<in> set (tasks ?s)" by (simp add: spawned_store_def)
    moreover have "t_id ?t = tid" "t_idempotency_key ?t = Some k" using key by (simp_all add: task_of_request_def)
    ultimately show thesis using same_request_of_row by (rule that [OF inv'])
  qed
qed

lemma spawn_repeats:
  assumes pg: "pg_ok pg" and inv: "db_inv pg db" and q: "queue_name_ok pg q"
    and rq: "parse_spawn_request pg name params opts = Inr rq" and s: "map_of (storage db) q = Some s"
    and t: "t \<in> set (tasks s)" "t_idempotency_key t = q_idempotency_key rq" "same_request rq t"
    and key: "q_idempotency_key rq \<noteq> None"
  shows "run_txn (spawn_task pg q name params opts) db = (Inr (t_id t, False), tick3 db)"
proof -
  have inj: "inj (pg_uuid pg)" and nn: "pg_nonneg pg" using pg by (simp_all add: pg_ok_def)
  obtain k where k: "q_idempotency_key rq = Some k" using key by blast
  have ok: "store_ok pg s" using db_inv_store [OF inv s] by (simp add: store_inv_def)
  have "key_used (Some k) (tasks s)" using t(1,2) k by (force simp: key_used_def)
  then have again: "spawn_task pg q name params opts db = (Inr (t_id t, False), tick3 db)"
    using key_unique [OF ok t(1), of k] t(2,3) k unfolding spawn_task_eval [OF inv inj nn q s rq] by simp
  show ?thesis using again spawn_task_inv [OF inv inj nn again] by (rule run_txn_commits)
qed

text \<open>\<^bold>\<open>C10.\<close> Idempotent submission: after a submission with an idempotency key created a task,
  repeating the same request returns that task and changes no table, whatever happened in between
  (claims, failures, manual retries that raised the budget, cancellation), as long as the task is
  still stored.\<close>

theorem replayed_submission_returns_task:
  assumes "pg_ok pg" and "(db_step pg)\<^sup>*\<^sup>* empty_db db"
    and "parse_spawn_request pg name params opts = Inr rq" and "q_idempotency_key rq = Some k"
    and "run_txn (spawn_task pg q name params opts) db = (Inr (tid, True), db1)"
    and "(db_step pg)\<^sup>*\<^sup>* db1 db2" and "map_of (storage db2) q = Some s2" and "tid \<in> t_id ` set (tasks s2)"
  shows "run_txn (spawn_task pg q name params opts) db2 = (Inr (tid, False), tick3 db2)"
proof -
  note inv = reachable_inv [OF assms(1,2)]
  have run: "spawn_task pg q name params opts db = (Inr (tid, True), db1)"
    using assms(5) by (auto simp: run_txn_def split: prod.splits sum.splits if_splits)
  have q: "queue_name_ok pg q" using run by (rule spawn_task_success)
  from spawn_leaves_request [OF assms(1) inv assms(3,4) run] obtain s1 t where
    inv1: "db_inv pg db1" and t: "map_of (storage db1) q = Some s1" "t \<in> set (tasks s1)" "t_id t = tid"
      "t_idempotency_key t = Some k" "same_request rq t" by blast
  obtain t2 where t2: "t2 \<in> set (tasks s2)" "t_id t2 = tid" using assms(8) by auto
  have ev: "task_evolves t t2" using later_task [OF assms(1) inv1 assms(6) t(1) assms(7) t(2) t2(1)] t t2 by simp
  have inv2: "db_inv pg db2" using queue_db.steps_good [OF assms(6)] assms(1) inv1 by blast
  show ?thesis
    using spawn_repeats [OF assms(1) inv2 q assms(3,7) t2(1) _ same_request_evolves [OF t(5) ev]] ev t assms(4) t2
    by (simp add: task_evolves_def)
qed

theorem replayed_submission_returns_task_witness:
  "run_txn (spawn_task exact_pg ''q'' ''mail'' None demo_options) demo_claimed = (Inr (0, False), tick3 demo_claimed)"
proof (rule replayed_submission_returns_task [OF exact_pg_ok demo_reachable(1) _ _ demo_spawn])
  let ?rq = "\<lparr>q_task_name = ''mail'', q_params = JNull, q_headers = None,
    q_retry_strategy = default_retry_strategy, q_maximum_attempts = 5, q_cancellation = None,
    q_idempotency_key = Some ''k''\<rparr>"
  show "parse_spawn_request exact_pg ''mail'' None demo_options = Inr ?rq" by code_simp
  show "q_idempotency_key ?rq = Some ''k''" by simp
  show "(db_step exact_pg)\<^sup>*\<^sup>* demo_spawned demo_claimed" using do_claim [OF demo_claim] by blast
  show "map_of (storage demo_claimed) ''q'' = Some demo_store" by (rule demo_facts)
  show "0 \<in> t_id ` set (tasks demo_store)" by code_simp
qed

text \<open>\<^bold>\<open>C33.\<close> Reusing a key for a different request raises \<open>ST004\<close> and changes no table: it is enough
  that one of the name, the parameters, the headers, the retry strategy, the number of attempts and the
  cancellation policy differs from what the stored task was submitted with, as \<open>jsonb\<close> values.\<close>

theorem conflicting_submission_rejected:
  assumes "pg_ok pg" and "(db_step pg)\<^sup>*\<^sup>* empty_db db" and "queue_name_ok pg q"
    and "map_of (storage db) q = Some s" and "t \<in> set (tasks s)"
    and "parse_spawn_request pg name params opts = Inr rq" and "q_idempotency_key rq = Some k"
    and "t_idempotency_key t = Some k"
    and "q_task_name rq \<noteq> t_name t \<or> jnorm (q_params rq) \<noteq> jnorm (t_params t)
      \<or> map_option jnorm (q_headers rq) \<noteq> map_option jnorm (t_headers t)
      \<or> jnorm (q_retry_strategy rq) \<noteq> jnorm (t_retry_strategy t)
      \<or> q_maximum_attempts rq \<noteq> t_initial_max_attempts t
      \<or> map_option jnorm (q_cancellation rq) \<noteq> map_option jnorm (t_cancellation t)"
  shows "run_txn (spawn_task pg q name params opts) db = (Inl ST004, tick3 db)"
proof -
  have inj: "inj (pg_uuid pg)" and nn: "pg_nonneg pg" using assms(1) by (simp_all add: pg_ok_def)
  note inv = reachable_inv [OF assms(1,2)]
  have ok: "store_ok pg s" using db_inv_store [OF inv assms(4)] by (simp add: store_inv_def)
  have "\<not> same_request rq t"
    using assms(9) by (auto simp: same_request_def jsonb_eq_def jsonb_distinct_def)
  moreover have "key_used (Some k) (tasks s)" using assms(5,8) by (force simp: key_used_def)
  ultimately have "spawn_task pg q name params opts db = (Inl ST004, tick3 db)"
    unfolding spawn_task_eval [OF inv inj nn assms(3,4,6)] assms(7) key_unique [OF ok assms(5,8)]
    by simp
  then have "run_txn (spawn_task pg q name params opts) db = (Inl ST004, db\<lparr>seq := seq (tick3 db)\<rparr>)"
    by (rule run_txn_aborts)
  then show ?thesis by (simp add: tick3_def tick_def)
qed

theorem conflicting_submission_rejected_witness:
  "run_txn (spawn_task exact_pg ''q'' ''other'' None demo_options) demo_claimed = (Inl ST004, tick3 demo_claimed)"
proof (rule conflicting_submission_rejected [OF exact_pg_ok demo_reachable(3) demo_facts(1,2)])
  let ?rq = "\<lparr>q_task_name = ''other'', q_params = JNull, q_headers = None,
    q_retry_strategy = default_retry_strategy, q_maximum_attempts = 5, q_cancellation = None,
    q_idempotency_key = Some ''k''\<rparr>"
  show "demo_running \<in> set (tasks demo_store)" by (simp add: demo_store_def)
  show "parse_spawn_request exact_pg ''other'' None demo_options = Inr ?rq" by code_simp
  show "q_idempotency_key ?rq = Some ''k''" by simp
  show "t_idempotency_key demo_running = Some ''k''" by code_simp
  show "q_task_name ?rq \<noteq> t_name demo_running \<or> jnorm (q_params ?rq) \<noteq> jnorm (t_params demo_running)
      \<or> map_option jnorm (q_headers ?rq) \<noteq> map_option jnorm (t_headers demo_running)
      \<or> jnorm (q_retry_strategy ?rq) \<noteq> jnorm (t_retry_strategy demo_running)
      \<or> q_maximum_attempts ?rq \<noteq> t_initial_max_attempts demo_running
      \<or> map_option jnorm (q_cancellation ?rq) \<noteq> map_option jnorm (t_cancellation demo_running)"
    by (simp add: demo_running_def demo_task_def)
qed

end
