(* ===== verification/DbBehaviour.thy ===== *)
theory DbBehaviour
  imports DbProperties
begin

section \<open>What each transition of an attempt does\<close>

text \<open>
  The functional behaviour of completion, suspension, failure, manual retry, checkpointing,
  supervision, lease reaping, claiming and cleanup, stated through what the database returns and
  holds afterwards.
\<close>

subsection \<open>Reading rows back\<close>

lemma find_updated_task:
  assumes "find_row t_id i ts = Some t" and "\<And>t. t_id (g t) = t_id t"
  shows "find_row t_id i (update_where (\<lambda>t. t_id t = i) g ts) = Some (g t)"
  using assms find_row_SomeD [OF assms(1)] by (simp add: find_row_update_where)

lemma find_updated_run:
  assumes "find_row r_id i rs = Some r" and "keeps_run_identity f"
  shows "find_row r_id i (update_where (\<lambda>r. r_id r = i) f rs) = Some (f r)"
  using assms find_row_SomeD [OF assms(1)] by (simp add: find_row_update_where keeps_run_identity_def)

lemma find_row_append:
  "find_row key k (xs @ ys) = (case find_row key k xs of None \<Rightarrow> find_row key k ys | Some x \<Rightarrow> Some x)"
  by (induction xs) (auto simp: find_row_def)

lemma find_row_single: "find_row key k [x] = (if key x = k then Some x else None)"
  by (simp add: find_row_def)

subsection \<open>Completion and cancellation\<close>

text \<open>Completion: a worker that holds a live lease on the authoritative attempt of a task with
  no cancellation deadline due commits its result; a read then reports the task completed with
  exactly that result.\<close>

lemma completion_publishes_result:
  assumes "db_inv pg db" and "queue_name_ok pg q" and "map_of (storage db) q = Some s"
    and "running_attempt s i r t lease" and "pg_clock pg (seq db) < lease"
    and "task_due t (pg_clock pg (seq db)) = Inr False"
  shows "\<exists>db'. run_txn (complete_run pg q i res) db = (Inr True, db')
    \<and> get_task_result pg q (t_id t) db' =
        (Inr (Some \<lparr>res_task_name = t_name t, res_state = Completed, res_result = Some res,
           res_failure_reason = None\<rparr>), db')"
proof -
  let ?s = "completed_store (pg_clock pg (seq db)) i (r_task_id r) res s"
  let ?db = "put_store q ?s (tick db)"
  have run: "complete_run pg q i res db = (Inr True, ?db)"
    using complete_run_eval [OF assms(1-5)] assms(6) by simp
  then have txn: "run_txn (complete_run pg q i res) db = (Inr True, ?db)"
    using complete_run_inv [OF assms(1) run] by (rule run_txn_commits)
  have att: "find_row r_id i (runs s) = Some r" "find_row t_id (t_id t) (tasks s) = Some t"
    "t_id t = r_task_id r"
    using assms(4) running_attemptD [OF assms(4)] by (simp_all add: running_attempt_def)
  have "find_row t_id (t_id t) (tasks ?s) = Some (t\<lparr>t_state := Completed, t_last_attempt_run := i\<rparr>)"
    using find_updated_task [OF att(2)] att(3) by (simp add: completed_store_def)
  moreover have "find_row r_id i (runs ?s) = Some (finish_run (pg_clock pg (seq db)) res r)"
    using find_updated_run [OF att(1) keeps_identity(3)] by (simp add: completed_store_def)
  ultimately have "get_task_result pg q (t_id t) ?db =
      (Inr (Some \<lparr>res_task_name = t_name t, res_state = Completed, res_result = Some res,
         res_failure_reason = None\<rparr>), ?db)"
    using get_task_result_eval [OF assms(2), of ?db ?s]
    by (simp add: result_of_def Let_def finish_run_def)
  with txn show ?thesis by blast
qed

lemma completion_publishes_result_witness:
  "\<exists>db'. run_txn (complete_run exact_pg ''q'' 1 (JStr ''sent'')) demo_claimed = (Inr True, db')
    \<and> get_task_result exact_pg ''q'' (t_id demo_running) db' =
        (Inr (Some \<lparr>res_task_name = t_name demo_running, res_state = Completed,
           res_result = Some (JStr ''sent''), res_failure_reason = None\<rparr>), db')"
  by (rule completion_publishes_result [OF demo_inv(3) demo_facts])

text \<open>\<^bold>\<open>C21.\<close> Cancellation wins: when the task's persisted cancellation deadline is due at the time a
  worker reports completion, failure or suspension, the call cancels the task instead. A read then
  reports it cancelled, and no result is published.\<close>

theorem due_cancellation_wins:
  assumes "pg_ok pg" and "db_inv pg db" and "queue_name_ok pg q" and "map_of (storage db) q = Some s"
    and "running_attempt s i r t lease" and "pg_clock pg (seq db) < lease"
    and "task_due t (pg_clock pg (seq db)) = Inr True"
  shows "\<exists>db'. run_txn (complete_run pg q i res) db = (Inr False, db')
    \<and> run_txn (schedule_run pg q i wake) db = (Inr ''cancelled'', db')
    \<and> run_txn (fail_run pg q i reason False) db = (Inr (), db')
    \<and> get_task_result pg q (t_id t) db' =
        (Inr (Some \<lparr>res_task_name = t_name t, res_state = Cancelled, res_result = None,
           res_failure_reason = None\<rparr>), db')"
proof -
  have inj: "inj (pg_uuid pg)" using assms(1) by (simp add: pg_ok_def)
  have lease: "False = (lease \<le> pg_clock pg (seq db))" using assms(6) by simp
  let ?s = "cancelled_store (pg_clock pg (Suc (seq db))) (r_task_id r) s"
  let ?db = "put_store q ?s (tick (tick db))"
  have run: "complete_run pg q i res db = (Inr False, ?db)" "schedule_run pg q i wake db = (Inr ''cancelled'', ?db)"
    "fail_run pg q i reason False db = (Inr (), ?db)"
    using complete_run_eval [OF assms(2-6)] schedule_run_eval [OF assms(2-6)]
      fail_run_eval [OF assms(2) inj assms(3-5) lease] assms(7) by simp_all
  have inv: "db_inv pg ?db" by (rule complete_run_inv [OF assms(2) run(1)])
  have att: "find_row t_id (t_id t) (tasks s) = Some t" "t_id t = r_task_id r"
    using assms(5) running_attemptD [OF assms(5)] by (simp_all add: running_attempt_def)
  have "find_row t_id (t_id t) (tasks ?s) = Some (mark_cancelled (pg_clock pg (Suc (seq db))) t)"
    using find_updated_task [OF att(1)] att(2) by (simp add: cancelled_store_def mark_cancelled_def)
  then have "get_task_result pg q (t_id t) ?db =
      (Inr (Some \<lparr>res_task_name = t_name t, res_state = Cancelled, res_result = None,
         res_failure_reason = None\<rparr>), ?db)"
    using get_task_result_eval [OF assms(3), of ?db ?s]
    by (simp add: result_of_def Let_def mark_cancelled_def)
  moreover have "run_txn (complete_run pg q i res) db = (Inr False, ?db)"
    using run(1) inv by (rule run_txn_commits)
  moreover have "run_txn (schedule_run pg q i wake) db = (Inr ''cancelled'', ?db)"
    using run(2) inv by (rule run_txn_commits)
  moreover have "run_txn (fail_run pg q i reason False) db = (Inr (), ?db)"
    using run(3) inv by (rule run_txn_commits)
  ultimately show ?thesis by blast
qed

definition demo_deadline_store :: store where
  "demo_deadline_store = demo_store\<lparr>tasks := [demo_running\<lparr>t_cancellation :=
     Some (JObj [(''maxDuration'', JInt 1)])\<rparr>]\<rparr>"

definition demo_deadline :: db where
  "demo_deadline = demo_claimed\<lparr>storage := [(''q'', demo_deadline_store)]\<rparr>"

lemma demo_deadline_inv: "db_inv exact_pg demo_deadline"
  by code_simp

theorem due_cancellation_wins_witness:
  "\<exists>db'. run_txn (complete_run exact_pg ''q'' 1 JNull) demo_deadline = (Inr False, db')"
proof -
  let ?t = "demo_running\<lparr>t_cancellation := Some (JObj [(''maxDuration'', JInt 1)])\<rparr>"
  have "map_of (storage demo_deadline) ''q'' = Some demo_deadline_store" by (simp add: demo_deadline_def)
  moreover have "running_attempt demo_deadline_store 1 demo_run ?t 66000000" by code_simp
  moreover have "pg_clock exact_pg (seq demo_deadline) < 66000000" by code_simp
  moreover have "task_due ?t (pg_clock exact_pg (seq demo_deadline)) = Inr True" by code_simp
  ultimately show ?thesis
    using due_cancellation_wins [OF exact_pg_ok demo_deadline_inv demo_facts(1)] by blast
qed

subsection \<open>Failure, retry and leases\<close>

text \<open>\<^bold>\<open>C20.\<close> Retry: when a live attempt fails and the retry policy and the attempt budget allow another
  one whose start does not fall on or after the cancellation deadline, the failed attempt keeps
  its reason, and a new run with the next attempt number becomes the task's authoritative run, to
  start after the delay the stored strategy prescribes.\<close>

theorem failure_schedules_retry:
  assumes "pg_ok pg" and "db_inv pg db" and "queue_name_ok pg q" and "map_of (storage db) q = Some s"
    and "running_attempt s i r t lease" and "pg_clock pg (seq db) < lease"
    and "task_due t (pg_clock pg (seq db)) = Inr False"
    and "retry_wanted (t_retry_strategy t)" and "t_attempts t < t_max_attempts t"
    and "retry_delay_seconds pg (t_retry_strategy t) (t_attempts t) = Inr delay"
    and "task_due t (retry_at pg (pg_clock pg (seq db)) delay) = Inr False"
  shows "\<exists>db' s' t' r'. run_txn (fail_run pg q i reason False) db = (Inr (), db')
    \<and> map_of (storage db') q = Some s'
    \<and> find_row t_id (t_id t) (tasks s') = Some t' \<and> t_attempts t' = t_attempts t + 1
    \<and> find_row r_id (t_last_attempt_run t') (runs s') = Some r'
    \<and> r_id r' \<noteq> i \<and> r_attempt r' = t_attempts t + 1 \<and> r_state r' = t_state t'
    \<and> t_state t' = (if retry_at pg (pg_clock pg (seq db)) delay > pg_clock pg (seq db) then Sleeping else Pending)
    \<and> r_available_at r' = retry_at pg (pg_clock pg (seq db)) delay
    \<and> Option.bind (find_row r_id i (runs s')) r_failure_reason = Some reason"
proof -
  have inj: "inj (pg_uuid pg)" using assms(1) by (simp add: pg_ok_def)
  have lease: "False = (lease \<le> pg_clock pg (seq db))" using assms(6) by simp
  note si = db_inv_store [OF assms(2,4)]
  note auth = running_attempt_authoritative [OF si assms(5)]
  have con: "task_consistent t (runs_of (t_id t) (runs s))"
    using si running_attemptD(3) [OF assms(5)] unfolding store_inv_def by blast
  define now where "now = pg_clock pg (seq db)"
  define fresh where "fresh = pg_uuid pg (Suc (seq db))"
  define st where "st = (if retry_at pg now delay > now then Sleeping else Pending)"
  define s' where "s' = retried_store now i reason (r_task_id r) (t_attempts t + 1) st (retry_at pg now delay) fresh s"
  have "retry_due pg t r" using assms(8,9) auth(2) by (simp add: retry_due_def)
  moreover have "\<not> i32_max \<le> r_attempt r" using auth(2) assms(9) con by (auto simp: task_consistent_def)
  ultimately have run: "fail_run pg q i reason False db = (Inr (), put_store q s' (tick (tick db)))"
    using fail_run_eval [OF assms(2) inj assms(3-5) lease, of reason] assms(7,10,11)
    by (simp add: auth(2) s'_def st_def now_def fresh_def)
  then have txn: "run_txn (fail_run pg q i reason False) db = (Inr (), put_store q s' (tick (tick db)))"
    using fail_run_inv [OF assms(2) inj run] by (rule run_txn_commits)
  have att: "find_row r_id i (runs s) = Some r" "find_row t_id (t_id t) (tasks s) = Some t" "t_id t = r_task_id r"
    using assms(5) running_attemptD [OF assms(5)] by (simp_all add: running_attempt_def)
  have new: "fresh \<notin> r_id ` set (runs s)" using fresh_run_id [OF inj si] by (simp add: fresh_def)
  then have "find_row r_id fresh (update_where (\<lambda>r. r_id r = i) (fail_row now reason) (runs s)) = None"
    using keeps_identity(5) [of now reason]
    by (simp add: find_row_None_iff image_update_where keeps_run_identity_def)
  then have r': "find_row r_id fresh (runs s') = Some (new_run fresh (r_task_id r) (t_attempts t + 1) st (retry_at pg now delay))"
    by (simp add: s'_def retried_store_def find_row_append find_row_single new_run_def)
  have i: "find_row r_id i (runs s') = Some (fail_row now reason r)"
    using find_updated_run [OF att(1) keeps_identity(5)]
    by (simp add: s'_def retried_store_def find_row_append)
  have t': "find_row t_id (t_id t) (tasks s') = Some (record_failure st (t_attempts t + 1) fresh t)"
    using find_updated_task [OF att(2)] att(3) by (simp add: s'_def retried_store_def record_failure_def)
  have "i \<noteq> fresh" using new find_row_SomeD [OF att(1)] by (metis imageI)
  then show ?thesis
    using txn t' r' i
    by (intro exI [of _ "put_store q s' (tick (tick db))"] exI [of _ s']
        exI [of _ "record_failure st (t_attempts t + 1) fresh t"]
        exI [of _ "new_run fresh (r_task_id r) (t_attempts t + 1) st (retry_at pg now delay)"])
      (simp add: record_failure_def new_run_def fail_row_def st_def now_def)
qed

theorem failure_schedules_retry_witness:
  "\<exists>db' s' t'. run_txn (fail_run exact_pg ''q'' 1 JNull False) demo_claimed = (Inr (), db')
    \<and> map_of (storage db') ''q'' = Some s' \<and> find_row t_id 0 (tasks s') = Some t'
    \<and> t_attempts t' = 2 \<and> t_state t' = Sleeping"
proof -
  have "retry_wanted (t_retry_strategy demo_running)" by code_simp
  moreover have "t_attempts demo_running < t_max_attempts demo_running" by code_simp
  moreover have "retry_delay_seconds exact_pg (t_retry_strategy demo_running) (t_attempts demo_running) = Inr 30"
    by code_simp
  moreover have "task_due demo_running (retry_at exact_pg (pg_clock exact_pg (seq demo_claimed)) 30) = Inr False"
    by code_simp
  ultimately have "\<exists>db' s' t' r'. run_txn (fail_run exact_pg ''q'' 1 JNull False) demo_claimed = (Inr (), db')
      \<and> map_of (storage db') ''q'' = Some s'
      \<and> find_row t_id (t_id demo_running) (tasks s') = Some t' \<and> t_attempts t' = t_attempts demo_running + 1
      \<and> t_state t' = (if retry_at exact_pg (pg_clock exact_pg (seq demo_claimed)) 30 >
          pg_clock exact_pg (seq demo_claimed) then Sleeping else Pending)"
    using failure_schedules_retry [OF exact_pg_ok demo_inv(3) demo_facts, of 30 JNull] by blast
  moreover have "t_id demo_running = 0" "t_attempts demo_running = 1"
    "retry_at exact_pg (pg_clock exact_pg (seq demo_claimed)) 30 > pg_clock exact_pg (seq demo_claimed)"
    by code_simp+
  ultimately show ?thesis by auto
qed

text \<open>Exhaustion: when a live attempt fails and no attempt is left (or the strategy is
  \<open>none\<close>), the task fails for good and a read reports the reason of that last attempt.\<close>

lemma exhausted_failure_is_reported:
  assumes "pg_ok pg" and "db_inv pg db" and "queue_name_ok pg q" and "map_of (storage db) q = Some s"
    and "running_attempt s i r t lease" and "pg_clock pg (seq db) < lease"
    and "task_due t (pg_clock pg (seq db)) = Inr False"
    and "t_attempts t < 2147483647"
    and "\<not> (retry_wanted (t_retry_strategy t) \<and> t_attempts t < t_max_attempts t)"
  shows "\<exists>db'. run_txn (fail_run pg q i reason False) db = (Inr (), db')
    \<and> get_task_result pg q (t_id t) db' =
        (Inr (Some \<lparr>res_task_name = t_name t, res_state = Failed, res_result = None,
           res_failure_reason = Some reason\<rparr>), db')"
proof -
  have inj: "inj (pg_uuid pg)" using assms(1) by (simp add: pg_ok_def)
  have lease: "False = (lease \<le> pg_clock pg (seq db))" using assms(6) by simp
  note auth = running_attempt_authoritative [OF db_inv_store [OF assms(2,4)] assms(5)]
  let ?s = "exhausted_store (pg_clock pg (seq db)) i reason (r_task_id r) (r_attempt r) s"
  let ?db = "put_store q ?s (tick db)"
  have "\<not> retry_due pg t r" "\<not> i32_max \<le> r_attempt r" using assms(8,9) auth(2) by (auto simp: retry_due_def)
  then have run: "fail_run pg q i reason False db = (Inr (), ?db)"
    using fail_run_eval [OF assms(2) inj assms(3-5) lease, of reason] assms(7) by simp
  then have txn: "run_txn (fail_run pg q i reason False) db = (Inr (), ?db)"
    using fail_run_inv [OF assms(2) inj run] by (rule run_txn_commits)
  have att: "find_row r_id i (runs s) = Some r" "find_row t_id (t_id t) (tasks s) = Some t" "t_id t = r_task_id r"
    using assms(5) running_attemptD [OF assms(5)] by (simp_all add: running_attempt_def)
  have "find_row t_id (t_id t) (tasks ?s) = Some (record_failure Failed (r_attempt r) i t)"
    using find_updated_task [OF att(2)] att(3) by (simp add: exhausted_store_def record_failure_def)
  moreover have "find_row r_id i (runs ?s) = Some (fail_row (pg_clock pg (seq db)) reason r)"
    using find_updated_run [OF att(1) keeps_identity(5)] by (simp add: exhausted_store_def)
  ultimately have "get_task_result pg q (t_id t) ?db =
      (Inr (Some \<lparr>res_task_name = t_name t, res_state = Failed, res_result = None,
         res_failure_reason = Some reason\<rparr>), ?db)"
    using get_task_result_eval [OF assms(3), of ?db ?s]
    by (simp add: result_of_def Let_def record_failure_def fail_row_def)
  with txn show ?thesis by blast
qed

definition demo_last_store :: store where
  "demo_last_store = demo_store\<lparr>tasks := [demo_running\<lparr>t_initial_max_attempts := 1, t_max_attempts := 1\<rparr>]\<rparr>"

definition demo_last :: db where
  "demo_last = demo_claimed\<lparr>storage := [(''q'', demo_last_store)]\<rparr>"

lemma exhausted_failure_is_reported_witness:
  "\<exists>db'. run_txn (fail_run exact_pg ''q'' 1 (JStr ''boom'') False) demo_last = (Inr (), db')"
proof -
  let ?t = "demo_running\<lparr>t_initial_max_attempts := 1, t_max_attempts := 1\<rparr>"
  have "db_inv exact_pg demo_last" by code_simp
  moreover have "map_of (storage demo_last) ''q'' = Some demo_last_store" by (simp add: demo_last_def)
  moreover have "running_attempt demo_last_store 1 demo_run ?t 66000000" by code_simp
  moreover have "pg_clock exact_pg (seq demo_last) < 66000000" by code_simp
  moreover have "task_due ?t (pg_clock exact_pg (seq demo_last)) = Inr False" by code_simp
  moreover have "t_attempts ?t < 2147483647" by code_simp
  moreover have "\<not> (retry_wanted (t_retry_strategy ?t) \<and> t_attempts ?t < t_max_attempts ?t)" by code_simp
  ultimately show ?thesis
    using exhausted_failure_is_reported [OF exact_pg_ok _ demo_facts(1), of demo_last demo_last_store 1
        demo_run ?t 66000000 "JStr ''boom''"] by blast
qed

text \<open>The attempt \<open>i\<close> of a task has ended, and the task has ended with it or waits for its next attempt.\<close>

definition attempt_over :: "uuid \<Rightarrow> uuid \<Rightarrow> int \<Rightarrow> store \<Rightarrow> bool" where
  "attempt_over i tid attempt s \<longleftrightarrow> (\<exists>r' t'. find_row r_id i (runs s) = Some r'
     \<and> (r_state r' = Failed \<or> r_state r' = Cancelled) \<and> find_row t_id tid (tasks s) = Some t'
     \<and> (t_state t' = Failed \<or> t_state t' = Cancelled
        \<or> (\<exists>r''. t_last_attempt_run t' \<noteq> i \<and> find_row r_id (t_last_attempt_run t') (runs s) = Some r''
            \<and> r_task_id r'' = tid \<and> r_attempt r'' = attempt \<and> r_state r'' = t_state t'
            \<and> (t_state t' = Pending \<or> t_state t' = Sleeping))))"

text \<open>The stores in which \<open>fail_run\<close> can leave an attempt all record its end.\<close>

lemma attempt_ended:
  assumes "find_row r_id i (runs s) = Some r" and "find_row t_id (r_task_id r) (tasks s) = Some t"
    and "state_active (r_state r)"
  shows "attempt_over i (r_task_id r) a (cancelled_store n (r_task_id r) s)"
    and "attempt_over i (r_task_id r) a (exhausted_store n i reason (r_task_id r) b s)"
    and "attempt_over i (r_task_id r) a (cancelled_store m (r_task_id r) (failed_store n i reason s))"
proof -
  have ids: "r_id r = i" "t_id t = r_task_id r" using find_row_SomeD assms(1,2) by metis+
  have marked: "find_row t_id (r_task_id r) (update_where (\<lambda>t. t_id t = r_task_id r) (mark_cancelled c) (tasks s)) =
      Some (mark_cancelled c t)" for c
    using find_updated_task [OF assms(2)] by (simp add: mark_cancelled_def)
  have failed: "find_row t_id (r_task_id r) (update_where (\<lambda>t. t_id t = r_task_id r) (record_failure Failed b i) (tasks s)) =
      Some (record_failure Failed b i t)"
    using find_updated_task [OF assms(2)] by (simp add: record_failure_def)
  show "attempt_over i (r_task_id r) a (cancelled_store n (r_task_id r) s)"
    using assms ids marked
    by (auto simp: attempt_over_def cancelled_store_def find_row_update_where cancel_run_def mark_cancelled_def)
  show "attempt_over i (r_task_id r) a (exhausted_store n i reason (r_task_id r) b s)"
    using assms ids failed
    by (auto simp: attempt_over_def exhausted_store_def find_row_update_where fail_row_def record_failure_def)
  show "attempt_over i (r_task_id r) a (cancelled_store m (r_task_id r) (failed_store n i reason s))"
    using assms ids marked
    by (auto simp: attempt_over_def cancelled_store_def failed_store_def find_row_update_where fail_row_def
        cancel_run_def mark_cancelled_def)
qed

lemma attempt_retried:
  assumes "find_row r_id i (runs s) = Some r" and "find_row t_id (r_task_id r) (tasks s) = Some t"
    and new: "fresh \<notin> r_id ` set (runs s)" and st: "st = Pending \<or> st = Sleeping"
  shows "attempt_over i (r_task_id r) a (retried_store n i reason (r_task_id r) a st avail fresh s)"
proof -
  let ?s = "retried_store n i reason (r_task_id r) a st avail fresh s"
  have "find_row r_id fresh (update_where (\<lambda>r. r_id r = i) (fail_row n reason) (runs s)) = None"
    using new keeps_identity(5) [of n reason]
    by (simp add: find_row_None_iff image_update_where keeps_run_identity_def)
  then have "find_row r_id fresh (runs ?s) = Some (new_run fresh (r_task_id r) a st avail)"
    by (simp add: retried_store_def find_row_append find_row_single new_run_def)
  moreover have "find_row r_id i (runs ?s) = Some (fail_row n reason r)"
    using find_updated_run [OF assms(1) keeps_identity(5)] by (simp add: retried_store_def find_row_append)
  moreover have "find_row t_id (r_task_id r) (tasks ?s) = Some (record_failure st a fresh t)"
    using find_updated_task [OF assms(2)] find_row_SomeD [OF assms(2)]
    by (simp add: retried_store_def record_failure_def)
  moreover have "fresh \<noteq> i" using new find_row_SomeD [OF assms(1)] by (metis imageI)
  ultimately show ?thesis using st
    by (simp add: attempt_over_def record_failure_def new_run_def fail_row_def)
qed

text \<open>\<^bold>\<open>C22.\<close> Abandoned work is recovered: when a worker stops renewing and its lease expires, reaping
  the run succeeds and ends that attempt, failed or cancelled; the task then has failed or is cancelled,
  or its authoritative run is a new one, pending or sleeping like the task, with the next attempt
  number. The reap cannot get stuck on the stored retry strategy or on a cancellation policy of whole
  seconds.\<close>

theorem expired_lease_is_reaped:
  assumes "pg_ok pg" and "db_inv pg db" and "queue_name_ok pg q" and "map_of (storage db) q = Some s"
    and "running_attempt s i r t lease" and "lease \<le> pg_clock pg (seq db)"
    and "pg_clock pg (seq db) \<le> pg_clock pg (Suc (seq db))"
    and "whole_policy (t_cancellation t)" and "t_attempts t < 2147483647"
  shows "\<exists>db' s' r' t'. run_txn (reap_expired_run pg q i) db = (Inr True, db')
    \<and> map_of (storage db') q = Some s' \<and> find_row r_id i (runs s') = Some r'
    \<and> (r_state r' = Failed \<or> r_state r' = Cancelled) \<and> find_row t_id (t_id t) (tasks s') = Some t'
    \<and> (t_state t' = Failed \<or> t_state t' = Cancelled
       \<or> (\<exists>r''. t_last_attempt_run t' \<noteq> i \<and> find_row r_id (t_last_attempt_run t') (runs s') = Some r''
           \<and> r_task_id r'' = t_id t \<and> r_attempt r'' = t_attempts t + 1 \<and> r_state r'' = t_state t'
           \<and> (t_state t' = Pending \<or> t_state t' = Sleeping)))"
proof -
  have inj: "inj (pg_uuid pg)" and nn: "pg_nonneg pg" using assms(1) by (simp_all add: pg_ok_def)
  note si = db_inv_store [OF assms(2,4)]
  note auth = running_attempt_authoritative [OF si assms(5)]
  have rt: "find_row r_id i (runs s) = Some r" "find_row t_id (r_task_id r) (tasks s) = Some t"
    "r_state r = Running" "t_state t = Running" "t_last_attempt_run t = i" "r_claim_expires_at r = Some lease"
    using assms(5) by (simp_all add: running_attempt_def)
  have tid: "t_id t = r_task_id r" using find_row_SomeD [OF rt(2)] by simp
  let ?d = "tick db"
  let ?reason = "lease_expired_reason pg (attempt_context_of r t (pg_clock pg (seq db))) lease"
  have d: "db_inv pg ?d" "map_of (storage ?d) q = Some s"
    using db_inv_tick [OF assms(2)] assms(4) by (simp_all add: tick_def)
  have exp: "True = (lease \<le> pg_clock pg (seq ?d))" using assms(6,7) by simp
  obtain e where e: "retry_delay_seconds pg (t_retry_strategy t) 1 = Inr e"
    using auth(3) by (auto simp: task_check_def split: sum.splits)
  have "1 \<le> r_attempt r" using auth(4) by (simp add: run_check_def)
  then obtain delay where delay: "retry_delay_seconds pg (t_retry_strategy t) (r_attempt r) = Inr delay"
    using retry_delay_every_attempt [OF nn e] by blast
  have due: "\<exists>b. task_due t obs = Inr b" for obs
    using cancellation_due_whole [OF assms(8)] by (simp add: task_due_def)
  obtain b1 b2 where b: "task_due t (pg_clock pg (seq ?d)) = Inr b1"
    "task_due t (retry_at pg (pg_clock pg (seq ?d)) delay) = Inr b2" using due by metis
  have small: "\<not> i32_max \<le> r_attempt r" using auth(2) assms(9) by simp
  have active: "state_active (r_state r)" using rt(3) by simp
  have new: "pg_uuid pg (Suc (seq ?d)) \<notin> r_id ` set (runs s)"
    using fresh_run_id [OF inj db_inv_store [OF d]] by simp
  note ended = attempt_ended [OF rt(1,2) active] attempt_retried [OF rt(1,2) new]
  have "\<exists>s' n. fail_run pg q i ?reason True ?d = (Inr (), (put_store q s' ?d)\<lparr>seq := n\<rparr>)
      \<and> attempt_over i (r_task_id r) (r_attempt r + 1) s'"
    using ended delay b small
    unfolding fail_run_eval [OF d(1) inj assms(3) d(2) assms(5) exp]
    by (cases b1; cases b2; cases "retry_due pg t r") (simp_all add: tick_def, metis+)
  then obtain s' n where run: "fail_run pg q i ?reason True ?d = (Inr (), (put_store q s' ?d)\<lparr>seq := n\<rparr>)"
    and over: "attempt_over i (t_id t) (t_attempts t + 1) s'" using tid auth(2) by auto
  have reap: "reap_expired_run pg q i db = (Inr True, (put_store q s' ?d)\<lparr>seq := n\<rparr>)"
    using lock_attempt_context_eval [OF assms(3,4) rt(1,2)] run rt assms(6)
    by (simp add: reap_expired_run_def ebind_apply esm_apply)
  then have "run_txn (reap_expired_run pg q i) db = (Inr True, (put_store q s' ?d)\<lparr>seq := n\<rparr>)"
    using reap_expired_run_inv [OF assms(2) inj reap] by (rule run_txn_commits)
  moreover have "map_of (storage ((put_store q s' ?d)\<lparr>seq := n\<rparr>)) q = Some s'" by simp
  ultimately show ?thesis using over unfolding attempt_over_def by blast
qed

theorem expired_lease_is_reaped_witness:
  "\<exists>db' s' t'. run_txn (reap_expired_run exact_pg ''q'' 1) (demo_claimed\<lparr>seq := 80\<rparr>) = (Inr True, db')
    \<and> map_of (storage db') ''q'' = Some s' \<and> find_row t_id 0 (tasks s') = Some t'
    \<and> (t_state t' = Failed \<or> t_state t' = Cancelled \<or> t_last_attempt_run t' \<noteq> 1)"
proof -
  have "db_inv exact_pg (demo_claimed\<lparr>seq := 80\<rparr>)"
    using db_inv_tick [OF demo_inv(3)] by (simp add: demo_claimed_def)
  moreover have "map_of (storage (demo_claimed\<lparr>seq := 80\<rparr>)) ''q'' = Some demo_store" using demo_facts(2) by simp
  moreover have "whole_policy (t_cancellation demo_running)" "t_attempts demo_running < 2147483647" "t_id demo_running = 0"
    by (simp_all add: whole_policy_def demo_running_def demo_task_def)
  ultimately show ?thesis
    using expired_lease_is_reaped [OF exact_pg_ok _ demo_facts(1) _ demo_facts(3), of "demo_claimed\<lparr>seq := 80\<rparr>"]
    by (fastforce simp: exact_pg_def)
qed

subsection \<open>Supervision\<close>

text \<open>Renewal: supervising a live attempt with no deadline due reports it running; it extends the
  lease to a full period from now once at most half a period is left, and writes nothing before
  that. The lease never gets shorter.\<close>

lemma supervision_renews_lease:
  assumes "db_inv pg db" and "queue_name_ok pg q" and "map_of (storage db) q = Some s"
    and "running_attempt s i r t lease" and "pg_clock pg (seq db) < lease"
    and "task_due t (pg_clock pg (seq db)) = Inr False" and "0 < n"
  shows "\<exists>db' s' lease'. supervise_run pg q i (Some n) db = (Inr ''running'', db')
    \<and> map_of (storage db') q = Some s' \<and> (\<exists>r'. running_attempt s' i r' t lease')
    \<and> lease' = (if lease \<le> pg_clock pg (seq db) + n * 500000
        then max lease (pg_clock pg (seq db) + n * 1000000) else lease)"
proof (cases "lease \<le> pg_clock pg (seq db) + n * 500000")
  case False
  then show ?thesis using supervise_run_live [OF assms] assms(3,4) by auto
next
  case True
  let ?u = "pg_clock pg (seq db) + n * 1000000"
  have "running_attempt (renewed_store i ?u s) i (renew_run ?u r) t (max lease ?u)"
    using assms(4) by (rule renewed_attempt)
  then show ?thesis using supervise_run_live [OF assms] True
    by (intro exI [of _ "put_store q (renewed_store i ?u s) (tick db)"] exI [of _ "renewed_store i ?u s"]
        exI [of _ "max lease ?u"]) auto
qed

lemma supervision_renews_lease_witness:
  "\<exists>db'. supervise_run exact_pg ''q'' 1 (Some 200) demo_claimed = (Inr ''running'', db')"
  using supervision_renews_lease [OF demo_inv(3) demo_facts, of 200] by auto

end
