(* ===== verification/Runtime.thy ===== *)
theory Runtime
  imports Metrics DbProperties
begin

section \<open>The client runtime\<close>

text \<open>
  The setting the Rust code runs in. The driver (\<open>sqlx\<close>), the network and the scheduler are the
  record \<open>env\<close>, a parameter of every definition: what other sessions do to the database before the
  \<open>n\<close>-th call of this process, whether the \<open>n\<close>-th request or its reply is lost, and how long it
  takes. The state \<open>world\<close> is what one task attempt (or one API call) sees of its process: the
  database, the transaction the caller has open, the monotonic clock, the attempt's checkpoint cache,
  the queue's counters and the start of the metrics guard while it is live. An \<open>async fn\<close> that returns \<open>Result<T>\<close> is an \<open>'a rust\<close>.
\<close>

text \<open>A request can be lost before the server acts on it, or its reply after the server committed.\<close>

datatype fault = Lost_request sqlx_error | Lost_reply sqlx_error

text \<open>The texts of identifiers, JSON documents, driver errors (with their chain of sources) and
  \<open>{:?}\<close> strings, and the parser of UUIDs.\<close>

record fmt =
  f_uuid :: "uuid \<Rightarrow> string"
  f_uuid_parse :: "string \<Rightarrow> uuid option"
  f_json :: "json \<Rightarrow> string"
  f_sqlx :: "sqlx_error \<Rightarrow> string \<times> string list"
  f_debug :: "string \<Rightarrow> string"

record env =
  e_pg :: pg
  e_others :: "nat \<Rightarrow> db \<Rightarrow> db"
  e_fault :: "nat \<Rightarrow> fault option"
  e_latency :: "nat \<Rightarrow> nat"
  e_fmt :: fmt

text \<open>A caller-owned \<open>sqlx::Transaction\<close>: the database as its statements see it (what is committed,
  and its own uncommitted writes), or failed.\<close>

datatype txn = Closed | Open db | Aborted

record world =
  w_db :: db
  w_txn :: txn
  w_tick :: nat
  w_now :: int
  w_cache :: "(string \<times> json) list"
  w_metrics :: QueueMetrics
  w_guard :: "int option"

type_synonym 'a rust = "(world, error, 'a) esm"
type_synonym 'a sqlx = "(world, sqlx_error, 'a) esm"

definition sqlx_of_sql :: "sql_error \<Rightarrow> sqlx_error" where
  "sqlx_of_sql e = Sqlx_Database (Some (sql_state e)) (sql_message e)"

definition begin_event :: "env \<Rightarrow> world \<Rightarrow> world" where
  "begin_event env w = w\<lparr>w_db := e_others env (w_tick w) (w_db w), w_tick := Suc (w_tick w),
     w_now := w_now w + int (e_latency env (w_tick w))\<rparr>"

text \<open>One statement through the pool: its own transaction. It returns after the environment's latency; a
  statement that hangs for ever is not modelled.\<close>

definition pool_call :: "env \<Rightarrow> 'a sql \<Rightarrow> 'a sqlx" where
  "pool_call env m = (\<lambda>w.
     let w1 = begin_event env w; (r, d) = run_txn m (w_db w1) in
     case e_fault env (w_tick w) of
       Some (Lost_request e) \<Rightarrow> (Inl e, w1)
     | Some (Lost_reply e) \<Rightarrow> (Inl e, w1\<lparr>w_db := d\<rparr>)
     | None \<Rightarrow> (map_sum sqlx_of_sql id r, w1\<lparr>w_db := d\<rparr>))"

text \<open>SQLSTATE \<open>25P02\<close>: a failed transaction refuses every further statement.\<close>

definition in_failed_transaction :: sqlx_error where
  "in_failed_transaction = Sqlx_Database (Some ''25P02'') ''current transaction is aborted''"

fun fault_error :: "fault \<Rightarrow> sqlx_error" where
  "fault_error (Lost_request e) = e"
| "fault_error (Lost_reply e) = e"

text \<open>One statement through the caller's transaction, at PostgreSQL's default isolation level \<open>READ
  COMMITTED\<close>: the statement sees what other sessions committed since the last one, on top of the
  transaction's own writes, which stay invisible to them. Nothing is committed here.\<close>

definition txn_call :: "env \<Rightarrow> 'a sql \<Rightarrow> 'a sqlx" where
  "txn_call env m = (\<lambda>w.
     let w1 = begin_event env w in
     case w_txn w of
       Open d \<Rightarrow>
         (case e_fault env (w_tick w) of
            Some f \<Rightarrow> (Inl (fault_error f), w1\<lparr>w_txn := Aborted\<rparr>)
          | None \<Rightarrow>
              (case m (e_others env (w_tick w) d) of
                 (Inl e, d') \<Rightarrow> (Inl (sqlx_of_sql e), w1\<lparr>w_txn := Aborted\<rparr>)
               | (Inr x, d') \<Rightarrow> (Inr x, w1\<lparr>w_txn := Open d'\<rparr>)))
     | _ \<Rightarrow> (Inl in_failed_transaction, w1))"

text \<open>The \<open>E: Executor\<close> argument of the queue's internal operations: the pool, or the connection
  of the caller's transaction.\<close>

datatype executor = Pool | Connection

fun execute :: "env \<Rightarrow> executor \<Rightarrow> 'a sql \<Rightarrow> 'a sqlx" where
  "execute env Pool m = pool_call env m"
| "execute env Connection m = txn_call env m"

text \<open>\<open>map_err\<close>; the operator \<open>?\<close> on a driver error is \<open>map_err Error_Database\<close>.\<close>

definition map_err :: "('e \<Rightarrow> 'f) \<Rightarrow> ('s, 'e, 'a) esm \<Rightarrow> ('s, 'f, 'a) esm" where
  "map_err f m = (\<lambda>s. case m s of (r, t) \<Rightarrow> (map_sum f id r, t))"

definition sleep :: "env \<Rightarrow> int \<Rightarrow> 'a \<Rightarrow> (world, 'e, 'a) esm" where
  "sleep env nanos x = (\<lambda>w. let w1 = begin_event env w in (Inr x, w1\<lparr>w_now := w_now w1 + nanos\<rparr>))"

definition instant_now :: "(world, 'e, int) esm" where
  "instant_now = egets w_now"

lemma map_err_apply [esm]: "map_err f m s = (map_sum f id (fst (m s)), snd (m s))"
  by (simp add: map_err_def split: prod.splits)

lemma map_err_Inr_iff: "map_err f m s = (Inr x, t) \<longleftrightarrow> m s = (Inr x, t)"
  by (cases "m s"; cases "fst (m s)") (auto simp: map_err_def)

lemma begin_event_sel [simp]:
  "w_txn (begin_event env w) = w_txn w" "w_cache (begin_event env w) = w_cache w"
  "w_metrics (begin_event env w) = w_metrics w" "w_guard (begin_event env w) = w_guard w" "w_tick (begin_event env w) = Suc (w_tick w)"
  "w_now (begin_event env w) = w_now w + int (e_latency env (w_tick w))"
  "w_db (begin_event env w) = e_others env (w_tick w) (w_db w)"
  by (simp_all add: begin_event_def)

subsection \<open>Effects\<close>

text \<open>What an operation may do to the world, as a relation between the states before and after
  it. Relations of interest are preorders, so they are kept by sequencing.\<close>

named_theorems effects \<open>effects of client operations\<close>

definition effect :: "('s \<Rightarrow> 's \<Rightarrow> bool) \<Rightarrow> ('s, 'e, 'a) esm \<Rightarrow> bool" where
  "effect R m \<longleftrightarrow> (\<forall>s r t. m s = (r, t) \<longrightarrow> R s t)"

lemma effectI: "(\<And>s r t. m s = (r, t) \<Longrightarrow> R s t) \<Longrightarrow> effect R m"
  by (simp add: effect_def)

lemma effectD: "effect R m \<Longrightarrow> m s = (r, t) \<Longrightarrow> R s t"
  by (simp add: effect_def)

lemma effect_if [effects]: "effect R m \<Longrightarrow> effect R k \<Longrightarrow> effect R (if b then m else k)"
  by simp

lemma effect_option [effects]:
  "effect R m \<Longrightarrow> (\<And>y. effect R (f y)) \<Longrightarrow> effect R (case x of None \<Rightarrow> m | Some y \<Rightarrow> f y)"
  by (cases x) simp_all

lemma effect_let [effects]: "effect R (k x) \<Longrightarrow> effect R (let y = x in k y)"
  by simp

lemma effect_prod [effects]: "(\<And>a b. effect R (f a b)) \<Longrightarrow> effect R (case x of (a, b) \<Rightarrow> f a b)"
  by (cases x) simp

lemma effect_map_err [effects]: "effect R m \<Longrightarrow> effect R (map_err f m)"
  by (fastforce simp: effect_def map_err_def split: prod.splits)

locale effect_order =
  fixes R :: "'s \<Rightarrow> 's \<Rightarrow> bool"
  assumes effect_refl: "R s s"
    and effect_trans: "R s t \<Longrightarrow> R t u \<Longrightarrow> R s u"
begin

lemma effect_pure [effects]:
  "effect R (ereturn x)" "effect R (eraise e)" "effect R (eassert b e)" "effect R (elift r)"
  "effect R (egets f)"
  by (auto simp: effect_def esm_apply effect_refl split: if_splits)

lemma effect_ebind [effects]:
  assumes "effect R m" and "\<And>x. effect R (f x)"
  shows "effect R (ebind m f)"
proof (rule effectI)
  fix s r t
  assume run: "ebind m f s = (r, t)"
  obtain y u where m: "m s = (y, u)" by fastforce
  then have "R s u" using assms(1) by (blast dest: effectD)
  moreover have "R u t"
    using run m assms(2) effect_refl by (cases y) (auto simp: ebind_apply dest: effectD)
  ultimately show "R s t" by (rule effect_trans)
qed

lemma effect_eseq [effects]: "effect R m \<Longrightarrow> effect R k \<Longrightarrow> effect R (eseq m k)"
  unfolding eseq_def by (rule effect_ebind)

end

text \<open>The protocol: an operation changes the database only through calls of the functions of
  \<open>sql/steda.sql\<close>, and the clock does not run backwards.\<close>

definition protocol :: "pg \<Rightarrow> world \<Rightarrow> world \<Rightarrow> bool" where
  "protocol pg w w' \<longleftrightarrow>
     (pg_ok pg \<and> db_inv pg (w_db w) \<longrightarrow> (db_step pg)\<^sup>*\<^sup>* (w_db w) (w_db w') \<and> db_inv pg (w_db w'))
   \<and> w_now w \<le> w_now w' \<and> w_tick w \<le> w_tick w'"

definition same_metrics :: "world \<Rightarrow> world \<Rightarrow> bool" where
  "same_metrics w w' \<longleftrightarrow> w_metrics w' = w_metrics w \<and> w_guard w' = w_guard w"

definition same_cache :: "world \<Rightarrow> world \<Rightarrow> bool" where
  "same_cache w w' \<longleftrightarrow> w_cache w' = w_cache w"

definition same_txn :: "world \<Rightarrow> world \<Rightarrow> bool" where
  "same_txn w w' \<longleftrightarrow> w_txn w' = w_txn w"

interpretation protocol: effect_order "protocol pg" for pg
  by unfold_locales (auto simp: protocol_def)

interpretation same_metrics: effect_order same_metrics
  by unfold_locales (auto simp: same_metrics_def)

interpretation same_cache: effect_order same_cache
  by unfold_locales (auto simp: same_cache_def)

interpretation same_txn: effect_order same_txn
  by unfold_locales (auto simp: same_txn_def)

text \<open>The assumption on the environment: the other sessions are Steda clients too.\<close>

definition env_ok :: "env \<Rightarrow> bool" where
  "env_ok env \<longleftrightarrow> pg_ok (e_pg env) \<and> (\<forall>n db. (db_step (e_pg env))\<^sup>*\<^sup>* db (e_others env n db))"

definition sql_protocol :: "pg \<Rightarrow> 'a sql \<Rightarrow> bool" where
  "sql_protocol pg m \<longleftrightarrow>
     (\<forall>db. pg_ok pg \<longrightarrow> db_inv pg db \<longrightarrow> (db_step pg)\<^sup>*\<^sup>* db (snd (run_txn m db)))"

lemma steps_inv: "pg_ok pg \<Longrightarrow> db_inv pg db \<Longrightarrow> (db_step pg)\<^sup>*\<^sup>* db db' \<Longrightarrow> db_inv pg db'"
  using queue_db.steps_good [of pg db db'] by simp

lemma env_steps: "env_ok env \<Longrightarrow> (db_step (e_pg env))\<^sup>*\<^sup>* db (e_others env n db)"
  by (simp add: env_ok_def)

lemma protocol_begin: "env_ok env \<Longrightarrow> protocol (e_pg env) w (begin_event env w)"
  using steps_inv [OF _ _ env_steps] env_steps by (simp add: protocol_def)

lemma protocol_db:
  assumes "pg_ok pg \<Longrightarrow> db_inv pg (w_db w) \<Longrightarrow> (db_step pg)\<^sup>*\<^sup>* (w_db w) d"
  shows "protocol pg w (w\<lparr>w_db := d\<rparr>)"
  using assms steps_inv [OF _ _ assms] by (simp add: protocol_def)

lemma protocol_pool_call:
  assumes env: "env_ok env" and m: "sql_protocol (e_pg env) m"
  shows "effect (protocol (e_pg env)) (pool_call env m)"
proof (rule effectI)
  fix w r w'
  assume run: "pool_call env m w = (r, w')"
  let ?w = "begin_event env w" and ?d = "snd (run_txn m (e_others env (w_tick w) (w_db w)))"
  have start: "protocol (e_pg env) w ?w" using env by (rule protocol_begin)
  have "protocol (e_pg env) ?w (?w\<lparr>w_db := ?d\<rparr>)"
    using m by (intro protocol_db) (simp add: sql_protocol_def)
  then have "protocol (e_pg env) w (?w\<lparr>w_db := ?d\<rparr>)"
    using start by (blast intro: protocol.effect_trans)
  moreover have "w' = ?w \<or> w' = ?w\<lparr>w_db := ?d\<rparr>"
    using run by (auto simp: pool_call_def Let_def split: prod.splits option.splits fault.splits)
  ultimately show "protocol (e_pg env) w w'" using start by blast
qed

lemma protocol_txn_call:
  assumes env: "env_ok env"
  shows "effect (protocol (e_pg env)) (txn_call env m)"
proof (rule effectI)
  fix w r w'
  assume run: "txn_call env m w = (r, w')"
  have start: "protocol (e_pg env) w (begin_event env w)" using env by (rule protocol_begin)
  then have "protocol (e_pg env) w ((begin_event env w)\<lparr>w_txn := t\<rparr>)" for t
    by (simp add: protocol_def)
  moreover have "w' = begin_event env w \<or> (\<exists>t. w' = (begin_event env w)\<lparr>w_txn := t\<rparr>)"
    using run by (cases "w_txn w")
      (auto simp: txn_call_def Let_def split: option.splits prod.splits sum.splits)
  ultimately show "protocol (e_pg env) w w'" using start by blast
qed

lemma protocol_execute [effects]:
  "env_ok env \<Longrightarrow> sql_protocol (e_pg env) m \<Longrightarrow> effect (protocol (e_pg env)) (execute env x m)"
  by (cases x) (simp_all add: protocol_pool_call protocol_txn_call)

lemma protocol_sleep [effects]:
  assumes "env_ok env" and "0 \<le> d"
  shows "effect (protocol (e_pg env)) (sleep env d x)"
proof (rule effectI)
  fix w r w'
  assume "sleep env d x w = (r, w')"
  then have "w' = (begin_event env w)\<lparr>w_now := w_now (begin_event env w) + d\<rparr>"
    by (auto simp: sleep_def Let_def)
  then show "protocol (e_pg env) w w'"
    using protocol_begin [OF assms(1), of w] assms(2) by (simp add: protocol_def)
qed

lemma frame_execute [effects]:
  "effect same_metrics (execute env x m)" "effect same_cache (execute env x m)"
  by (cases x; auto simp: effect_def same_metrics_def same_cache_def pool_call_def txn_call_def
      Let_def split: prod.splits option.splits fault.splits txn.splits sum.splits)+

lemma same_txn_pool [effects]: "effect same_txn (execute env Pool m)"
  by (auto simp: effect_def same_txn_def pool_call_def Let_def
      split: prod.splits option.splits fault.splits)

lemma frame_sleep [effects]:
  "effect same_metrics (sleep env d x)" "effect same_cache (sleep env d x)"
  "effect same_txn (sleep env d x)"
  by (auto simp: effect_def same_metrics_def same_cache_def same_txn_def sleep_def Let_def)

subsection \<open>The statements of the client\<close>

text \<open>Every statement the client sends is a step of the database, or only reads.\<close>

definition reads_only :: "db \<Rightarrow> db \<Rightarrow> bool" where
  "reads_only db db' \<longleftrightarrow>
     seq db \<le> seq db' \<and> queues db' = queues db \<and> storage db' = storage db"

interpretation reads_only: effect_order reads_only
  by unfold_locales (auto simp: reads_only_def)

lemma reads_only_statements [effects]:
  "effect reads_only (current_time pg)" "effect reads_only (query q f)"
  by (auto simp: effect_def reads_only_def current_time_def query_def split: option.splits)

lemma reads_only_validate [effects]: "effect reads_only (sql_validate_queue_name pg q)"
  unfolding sql_validate_queue_name_def by (intro effects)

lemma sql_protocol_step:
  "(\<And>x db db'. run_txn m db = (x, db') \<Longrightarrow> db_step pg db db') \<Longrightarrow> sql_protocol pg m"
  unfolding sql_protocol_def by (metis prod.collapse r_into_rtranclp)

lemma sql_protocol_reads:
  assumes "effect reads_only m"
  shows "sql_protocol pg m"
proof (rule sql_protocol_step)
  fix x db db'
  assume run: "run_txn m db = (x, db')"
  obtain y d where m: "m db = (y, d)" by fastforce
  then have "reads_only db d" using assms by (blast dest: effectD)
  then have "reads_only db db'" using run m
    by (cases y) (auto simp: reads_only_def run_txn_def split: if_splits)
  then have "seq db \<le> seq db'" "db' = db\<lparr>seq := seq db'\<rparr>" by (auto simp: reads_only_def)
  then show "db_step pg db db'" by (metis do_draw)
qed

lemma sql_protocol_calls [effects]:
  "sql_protocol pg (create_queue pg q)" "sql_protocol pg (drop_queue pg q)"
  "sql_protocol pg (set_queue_policy pg q ttl limit)"
  "sql_protocol pg (spawn_task pg q name params opts)"
  "sql_protocol pg (claim_tasks pg q worker lease k names)"
  "sql_protocol pg (complete_run pg q i res)" "sql_protocol pg (schedule_run pg q i wake)"
  "sql_protocol pg (fail_run pg q i reason expired)" "sql_protocol pg (cancel_task pg q tid)"
  "sql_protocol pg (retry_task pg q tid)" "sql_protocol pg (supervise_run pg q i renew)"
  "sql_protocol pg (set_task_checkpoint_state pg q tid name v i)"
  "sql_protocol pg (cleanup_all_queues pg rq)" "sql_protocol pg (cleanup_tasks pg q)"
  by (rule sql_protocol_step, erule db_step.intros)+

lemma sql_protocol_lookups [effects]:
  "sql_protocol pg (get_task_result pg q tid)" "sql_protocol pg (get_queue_policy pg q)"
  "sql_protocol pg list_queues" "sql_protocol pg (current_time pg)"
  by (intro sql_protocol_reads; auto simp: get_task_result_def get_queue_policy_def list_queues_def
      intro!: effects)+

end
