(* ===== verification/Client.thy ===== *)
theory Client
  imports Runtime Validation
begin

section \<open>The queue client\<close>

text \<open>
  \<open>src/db.rs\<close>, \<open>src/queue.rs\<close> and the queue-independent operations of \<open>src/steda.rs\<close>: the
  statements the crate sends, the decoding of the rows that come back, and the mapping of failures
  to the crate's errors. \<open>spawn\<close> and \<open>supervise_run\<close> translate Steda's SQLSTATE codes
  (\<^const>\<open>map_sqlx_error\<close>); the other operations report every driver error as it is.
\<close>

subsection \<open>Rows\<close>

text \<open>\<open>claimed_task_from_row\<close>.\<close>

definition claimed_headers_of :: "fmt \<Rightarrow> json option \<Rightarrow> error + json_object option" where
  "claimed_headers_of F value =
     (case value of
        Some (JObj kvs) \<Rightarrow> Inr (Some kvs)
      | Some JNull \<Rightarrow> Inr None
      | None \<Rightarrow> Inr None
      | Some other \<Rightarrow>
          Inl (Error_InvalidTaskHeaders (''headers payload must be a JSON object, got '' @ f_json F other)))"

definition claimed_task_from_row :: "fmt \<Rightarrow> claim_row \<Rightarrow> error + ClaimedTask" where
  "claimed_task_from_row F row =
     res_bind (claimed_headers_of F (k_headers row)) (\<lambda>hs.
       case u32_try_from (k_attempt row) of
         None \<Rightarrow> Inl (Error_Other ''PostgreSQL returned a negative task attempt'')
       | Some attempt \<Rightarrow>
           Inr \<lparr>claimed_run_id = k_run_id row, claimed_task_id = k_task_id row,
             claimed_task_name = k_task_name row, claimed_attempt = attempt,
             claimed_params = k_params row, claimed_headers = hs\<rparr>)"

datatype RunSupervision =
    Sup_Running | Sup_Completed | Sup_Failed | Sup_Cancelled | Sup_Suspended | Sup_LeaseLost

definition supervision_of_text :: "fmt \<Rightarrow> string \<Rightarrow> error + RunSupervision" where
  "supervision_of_text F outcome =
     (if outcome = ''running'' then Inr Sup_Running
      else if outcome = ''completed'' then Inr Sup_Completed
      else if outcome = ''failed'' then Inr Sup_Failed
      else if outcome = ''cancelled'' then Inr Sup_Cancelled
      else if outcome = ''suspended'' then Inr Sup_Suspended
      else if outcome = ''lease_lost'' then Inr Sup_LeaseLost
      else Inl (Error_Other (''PostgreSQL returned unknown run supervision outcome '' @ f_debug F outcome)))"

definition snapshot_of_text ::
    "fmt \<Rightarrow> uuid \<Rightarrow> string \<Rightarrow> json option \<Rightarrow> json option \<Rightarrow> error + TaskResultSnapshot" where
  "snapshot_of_text F task_id state res failure =
     (if state = ''pending'' then Inr Snap_Pending
      else if state = ''running'' then Inr Snap_Running
      else if state = ''sleeping'' then Inr Snap_Sleeping
      else if state = ''completed'' then
        (case res of None \<Rightarrow> Inl (Error_Other (''completed task '' @ f_uuid F task_id @ '' has no persisted result''))
         | Some v \<Rightarrow> Inr (Snap_Completed v))
      else if state = ''failed'' then
        (case failure of None \<Rightarrow> Inl (Error_Other (''failed task '' @ f_uuid F task_id @ '' has no persisted failure''))
         | Some v \<Rightarrow> Inr (Snap_Failed v))
      else if state = ''cancelled'' then Inr Snap_Cancelled
      else Inl (Error_Other (''PostgreSQL returned unknown task state '' @ f_debug F state
        @ '' for task '' @ f_uuid F task_id)))"

text \<open>\<open>queue_policy_from_row\<close>, over the columns \<open>ceil(extract(epoch FROM cleanup_ttl))\<close> and
  \<open>cleanup_limit\<close>.\<close>

definition queue_policy_from_row :: "string \<Rightarrow> int \<Rightarrow> int \<Rightarrow> error + QueuePolicy" where
  "queue_policy_from_row name cleanup_ttl_seconds cleanup_limit =
     (case u64_try_from cleanup_ttl_seconds of
        None \<Rightarrow> Inl (Error_Other ''PostgreSQL returned a negative queue cleanup TTL'')
      | Some ttl \<Rightarrow>
          (case u32_try_from cleanup_limit of
             None \<Rightarrow> Inl (Error_Other ''PostgreSQL returned an invalid queue cleanup limit'')
           | Some limit \<Rightarrow>
               if limit = 0
               then Inl (Error_Other ''PostgreSQL returned an invalid queue cleanup limit'')
               else Inr \<lparr>policy_queue_name = name, policy_cleanup_ttl = ttl,
                 policy_cleanup_limit = limit\<rparr>))"

definition cleanup_count :: "int \<Rightarrow> error + int" where
  "cleanup_count n =
     (case u32_try_from n of
        None \<Rightarrow> Inl (Error_Other ''PostgreSQL returned a negative cleanup count'')
      | Some k \<Rightarrow> Inr k)"

subsection \<open>Shared database helpers\<close>

definition client_claim_tasks ::
    "env \<Rightarrow> string \<Rightarrow> string \<Rightarrow> int \<Rightarrow> int \<Rightarrow> string list \<Rightarrow> ClaimedTask list rust" where
  "client_claim_tasks env queue_name worker_id lease_seconds batch_size supported_tasks =
     ebind (map_err Error_Database (execute env Pool
       (claim_tasks (e_pg env) queue_name worker_id lease_seconds batch_size supported_tasks)))
     (\<lambda>rows. elift (traverse_list (claimed_task_from_row (e_fmt env)) rows))"

definition client_supervise_run :: "env \<Rightarrow> string \<Rightarrow> uuid \<Rightarrow> int option \<Rightarrow> RunSupervision rust" where
  "client_supervise_run env queue_name run_id renew_for_seconds =
     ebind (map_err map_sqlx_error (execute env Pool
       (supervise_run (e_pg env) queue_name run_id renew_for_seconds)))
     (\<lambda>outcome. elift (supervision_of_text (e_fmt env) outcome))"

definition fetch_task_result_snapshot_with ::
    "env \<Rightarrow> executor \<Rightarrow> string \<Rightarrow> string \<Rightarrow> uuid \<Rightarrow> TaskResultSnapshot option rust" where
  "fetch_task_result_snapshot_with env exec queue_name task_name task_id =
     ebind (map_err Error_Database (execute env exec
       (get_task_result (e_pg env) queue_name task_id))) (\<lambda>row.
     case row of
       None \<Rightarrow> ereturn None
     | Some r \<Rightarrow>
         if res_task_name r \<noteq> task_name
         then eraise (Error_TaskNameMismatch task_id task_name (res_task_name r))
         else elift (res_bind (snapshot_of_text (e_fmt env) task_id (state_text (res_state r)) (res_result r)
           (res_failure_reason r)) (\<lambda>snap. Inr (Some snap))))"

definition fetch_task_result_snapshot ::
    "env \<Rightarrow> string \<Rightarrow> string \<Rightarrow> uuid \<Rightarrow> TaskResultSnapshot option rust" where
  "fetch_task_result_snapshot env queue_name task_name task_id =
     fetch_task_result_snapshot_with env Pool queue_name task_name task_id"

text \<open>The polling loop: 50 ms, doubling up to one second, cut at the caller's deadline. \<open>None\<close>
  stands for a wait that never returns.\<close>

definition INITIAL_RESULT_BACKOFF :: int where "INITIAL_RESULT_BACKOFF = 50000000"
definition MAX_RESULT_BACKOFF :: int where "MAX_RESULT_BACKOFF = 1000000000"

type_synonym 'a async = "world \<Rightarrow> ((error + 'a) \<times> world) option"

definition next_backoff :: "int \<Rightarrow> int" where
  "next_backoff delay = min (delay * 2) MAX_RESULT_BACKOFF"

partial_function (option) await_loop ::
    "env \<Rightarrow> string \<Rightarrow> string \<Rightarrow> uuid \<Rightarrow> int option \<Rightarrow> int \<Rightarrow> int \<Rightarrow> TaskResultSnapshot async" where
  "await_loop env queue_name task_name task_id timeout started delay w =
     (case fetch_task_result_snapshot env queue_name task_name task_id w of
        (Inl e, w1) \<Rightarrow> Some (Inl e, w1)
      | (Inr found, w1) \<Rightarrow>
          (case found of
             None \<Rightarrow> Some (Inl (Error_TaskNotFound task_id), w1)
           | Some snapshot \<Rightarrow>
               if snapshot_is_terminal snapshot then Some (Inr snapshot, w1)
               else (case timeout of
                   None \<Rightarrow>
                     await_loop env queue_name task_name task_id timeout started (next_backoff delay)
                       (snd (sleep env delay () w1 :: (error + unit) \<times> world))
                 | Some limit \<Rightarrow>
                     if limit \<le> w_now w1 - started
                     then Some (Inl (Error_Timeout (''timed out waiting for task '' @ f_uuid (e_fmt env) task_id)), w1)
                     else await_loop env queue_name task_name task_id timeout started
                       (next_backoff (min delay (limit - (w_now w1 - started))))
                       (snd (sleep env (min delay (limit - (w_now w1 - started))) () w1
                         :: (error + unit) \<times> world)))))"

definition await_task_result_snapshot ::
    "env \<Rightarrow> string \<Rightarrow> string \<Rightarrow> uuid \<Rightarrow> duration option \<Rightarrow> TaskResultSnapshot async" where
  "await_task_result_snapshot env queue_name task_name task_id timeout w =
     await_loop env queue_name task_name task_id (map_option duration_nanos timeout) (w_now w)
       INITIAL_RESULT_BACKOFF w"

subsection \<open>Queue handles\<close>

text \<open>The execution service of the handle is \<open>'svc\<close>; its pool and counters are the environment
  and the world.\<close>

record 'svc Queue =
  Queue_name :: string
  Queue_execution :: 'svc

definition Queue_from_parts :: "string \<Rightarrow> 'svc \<Rightarrow> error + 'svc Queue" where
  "Queue_from_parts name service =
     res_bind (validate_queue_name name) (\<lambda>n. Inr \<lparr>Queue_name = n, Queue_execution = service\<rparr>)"

definition Queue_metrics :: "QueueMetrics rust" where
  "Queue_metrics = egets w_metrics"

definition spawn_serialized_with ::
    "env \<Rightarrow> 'svc Queue \<Rightarrow> string \<Rightarrow> json \<Rightarrow> SpawnConfig \<Rightarrow> executor \<Rightarrow> SpawnResult rust" where
  "spawn_serialized_with env self task_name params options exec =
     eseq (elift (validate_task_name task_name))
     (ebind (elift (normalize_spawn_options options)) (\<lambda>options_json.
     ebind (map_err map_sqlx_error (execute env exec
       (spawn_task (e_pg env) (Queue_name self) task_name (Some params) (Some (JObj options_json)))))
     (\<lambda>row. ereturn \<lparr>spawned_task_id = fst row, spawned_created = snd row\<rparr>)))"

definition cancel_task_with :: "env \<Rightarrow> 'svc Queue \<Rightarrow> uuid \<Rightarrow> executor \<Rightarrow> unit rust" where
  "cancel_task_with env self task_id exec =
     ebind (map_err Error_Database (execute env exec (cancel_task (e_pg env) (Queue_name self) task_id)))
       (\<lambda>_. ereturn ())"

definition retry_task_with :: "env \<Rightarrow> 'svc Queue \<Rightarrow> uuid \<Rightarrow> executor \<Rightarrow> uuid rust" where
  "retry_task_with env self task_id exec =
     map_err Error_Database (execute env exec (retry_task (e_pg env) (Queue_name self) task_id))"

definition policy_arguments :: "QueuePolicyOptions \<Rightarrow> error + (int option \<times> int option)" where
  "policy_arguments options =
     res_bind (traverse_option duration_seconds (opt_cleanup_ttl options)) (\<lambda>ttl.
     res_bind (traverse_option (\<lambda>n. database_positive_i32 n ''cleanup_limit'')
       (opt_cleanup_limit options)) (\<lambda>limit. Inr (ttl, limit)))"

text \<open>\<open>create_with_policy\<close> runs both statements in one transaction.\<close>

definition create_transaction :: "pg \<Rightarrow> string \<Rightarrow> int option \<Rightarrow> int option \<Rightarrow> unit sql" where
  "create_transaction pg q ttl limit =
     eseq (create_queue pg q)
       (if ttl \<noteq> None \<or> limit \<noteq> None then set_queue_policy pg q ttl limit else ereturn ())"

definition Queue_create_with_policy :: "env \<Rightarrow> 'svc Queue \<Rightarrow> QueuePolicyOptions \<Rightarrow> unit rust" where
  "Queue_create_with_policy env self policy =
     ebind (elift (policy_arguments policy)) (\<lambda>(ttl, limit).
       map_err Error_Database (execute env Pool
         (create_transaction (e_pg env) (Queue_name self) ttl limit)))"

definition Queue_create :: "env \<Rightarrow> 'svc Queue \<Rightarrow> unit rust" where
  "Queue_create env self = Queue_create_with_policy env self QueuePolicyOptions_new"

definition Queue_set_policy :: "env \<Rightarrow> 'svc Queue \<Rightarrow> QueuePolicyOptions \<Rightarrow> unit rust" where
  "Queue_set_policy env self options =
     ebind (elift (policy_arguments options)) (\<lambda>(ttl, limit).
       map_err Error_Database (execute env Pool
         (set_queue_policy (e_pg env) (Queue_name self) ttl limit)))"

text \<open>\<open>ceil(extract(epoch FROM cleanup_ttl))::bigint\<close>.\<close>

definition ttl_column :: "queue_row \<Rightarrow> int" where
  "ttl_column r = \<lceil>of_int (q_cleanup_ttl r) / (1000000 :: rat)\<rceil>"

definition Queue_policy :: "env \<Rightarrow> 'svc Queue \<Rightarrow> QueuePolicy option rust" where
  "Queue_policy env self =
     ebind (map_err Error_Database (execute env Pool (get_queue_policy (e_pg env) (Queue_name self))))
     (\<lambda>row. elift (traverse_option
       (\<lambda>r. queue_policy_from_row (q_name r) (ttl_column r) (q_cleanup_limit r)) row))"

definition Queue_delete :: "env \<Rightarrow> 'svc Queue \<Rightarrow> unit rust" where
  "Queue_delete env self =
     map_err Error_Database (execute env Pool (drop_queue (e_pg env) (Queue_name self)))"

definition fetch_task_result ::
    "env \<Rightarrow> 'svc Queue \<Rightarrow> string \<Rightarrow> uuid \<Rightarrow> TaskResultSnapshot option rust" where
  "fetch_task_result env self task_name task_id =
     fetch_task_result_snapshot env (Queue_name self) task_name task_id"

definition ensure_task_ref_with ::
    "env \<Rightarrow> 'svc Queue \<Rightarrow> string \<Rightarrow> uuid \<Rightarrow> executor \<Rightarrow> unit rust" where
  "ensure_task_ref_with env self task_name task_id exec =
     ebind (fetch_task_result_snapshot_with env exec (Queue_name self) task_name task_id) (\<lambda>found.
       case found of None \<Rightarrow> eraise (Error_TaskNotFound task_id) | Some _ \<Rightarrow> ereturn ())"

definition Queue_cleanup :: "env \<Rightarrow> 'svc Queue \<Rightarrow> int rust" where
  "Queue_cleanup env self =
     ebind (map_err Error_Database (execute env Pool (cleanup_tasks (e_pg env) (Queue_name self))))
       (\<lambda>n. elift (cleanup_count n))"

subsection \<open>The root handle\<close>

record 'svc Steda =
  steda_execution :: 'svc

definition Steda_queue :: "'svc Steda \<Rightarrow> string \<Rightarrow> error + 'svc Queue" where
  "Steda_queue self name = Queue_from_parts name (steda_execution self)"

definition Steda_queues :: "env \<Rightarrow> string list rust" where
  "Steda_queues env = map_err Error_Database (execute env Pool list_queues)"

definition Steda_cleanup :: "env \<Rightarrow> QueueCleanup list rust" where
  "Steda_cleanup env =
     ebind (map_err Error_Database (execute env Pool (cleanup_all_queues (e_pg env) None))) (\<lambda>rows.
       elift (traverse_list (\<lambda>(q, n). res_bind (cleanup_count n) (\<lambda>k.
         Inr \<lparr>cleanup_queue_name = q, cleanup_tasks_deleted = k\<rparr>)) rows))"

subsection \<open>Every operation keeps to the database protocol\<close>

lemma sql_protocol_create [effects]: "sql_protocol pg (create_transaction pg q ttl limit)"
proof -
  have "(db_step pg)\<^sup>*\<^sup>* db (snd (run_txn (create_transaction pg q ttl limit) db))"
    if pg: "pg_ok pg" and inv: "db_inv pg db" for db
  proof -
    let ?m = "create_transaction pg q ttl limit"
    have adv: "advances ?m"
      unfolding create_transaction_def by (intro advance)
    obtain x d where m: "?m db = (x, d)" by fastforce
    have seq: "seq db \<le> seq d" using adv m by (auto simp: advances_def)
    show ?thesis
    proof (cases x)
      case (Inl e)
      then have "run_txn ?m db = (Inl e, db\<lparr>seq := seq d\<rparr>)" using m by (simp add: run_txn_aborts)
      then show ?thesis using do_draw [OF seq, of pg] by (simp add: r_into_rtranclp)
    next
      case (Inr u)
      then obtain d1 where c: "create_queue pg q db = (Inr (), d1)"
        and p: "d = d1 \<or> set_queue_policy pg q ttl limit d1 = (Inr (), d)"
        using m by (auto simp: create_transaction_def esm_success split: if_splits)
      have i1: "db_inv pg d1" using c inv by (blast intro: create_queue_inv)
      have "run_txn (create_queue pg q) db = (Inr (), d1)" using c i1 by (rule run_txn_commits)
      then have s1: "db_step pg db d1" by (rule do_create)
      have i2: "db_inv pg d" using p i1 by (blast intro: set_queue_policy_inv)
      have s2: "d = d1 \<or> db_step pg d1 d"
        using p i2 by (metis do_policy run_txn_commits)
      have "run_txn ?m db = (Inr (), d)" using m Inr i2 by (simp add: run_txn_commits)
      then show ?thesis using s1 s2 by (auto intro: converse_rtranclp_into_rtranclp)
    qed
  qed
  then show ?thesis by (simp add: sql_protocol_def)
qed

lemma client_protocol [effects]:
  assumes "env_ok env"
  shows "effect (protocol (e_pg env)) (client_claim_tasks env q wid lease k names)"
    "effect (protocol (e_pg env)) (client_supervise_run env q i renew)"
    "effect (protocol (e_pg env)) (fetch_task_result_snapshot_with env x q name tid)"
    "effect (protocol (e_pg env)) (spawn_serialized_with env self name params options x)"
    "effect (protocol (e_pg env)) (cancel_task_with env self tid x)"
    "effect (protocol (e_pg env)) (retry_task_with env self tid x)"
    "effect (protocol (e_pg env)) (Queue_create_with_policy env self policy)"
    "effect (protocol (e_pg env)) (Queue_set_policy env self policy)"
    "effect (protocol (e_pg env)) (Queue_policy env self)"
    "effect (protocol (e_pg env)) (Queue_delete env self)"
    "effect (protocol (e_pg env)) (Queue_cleanup env self)"
    "effect (protocol (e_pg env)) (Steda_queues env)"
    "effect (protocol (e_pg env)) (Steda_cleanup env)"
  unfolding client_claim_tasks_def client_supervise_run_def fetch_task_result_snapshot_with_def
    spawn_serialized_with_def cancel_task_with_def retry_task_with_def Queue_create_with_policy_def
    Queue_set_policy_def Queue_policy_def Queue_delete_def Queue_cleanup_def Steda_queues_def
    Steda_cleanup_def
  using assms by (intro effects; assumption)+

lemma client_frames [effects]:
  "effect same_metrics (client_claim_tasks env q wid lease k names)"
  "effect same_cache (client_claim_tasks env q wid lease k names)"
  "effect same_metrics (client_supervise_run env q i renew)"
  "effect same_cache (client_supervise_run env q i renew)"
  "effect same_metrics (fetch_task_result_snapshot_with env x q name tid)"
  "effect same_cache (fetch_task_result_snapshot_with env x q name tid)"
  unfolding client_claim_tasks_def client_supervise_run_def fetch_task_result_snapshot_with_def
  by (intro effects)+

subsection \<open>Snapshots\<close>

fun snapshot_state :: "TaskResultSnapshot \<Rightarrow> TaskState" where
  "snapshot_state Snap_Pending = Pending"
| "snapshot_state Snap_Running = Running"
| "snapshot_state Snap_Sleeping = Sleeping"
| "snapshot_state (Snap_Completed _) = Completed"
| "snapshot_state (Snap_Failed _) = Failed"
| "snapshot_state Snap_Cancelled = Cancelled"

lemma snapshot_terminal_iff: "snapshot_is_terminal s \<longleftrightarrow> state_terminal (snapshot_state s)"
  by (cases s) simp_all

text \<open>A row decodes exactly when it carries the payload its state needs.\<close>

lemma snapshot_of_text_state:
  assumes "st = Completed \<Longrightarrow> res \<noteq> None" and "st = Failed \<Longrightarrow> failure \<noteq> None"
  shows "\<exists>snap. snapshot_of_text F tid (state_text st) res failure = Inr snap \<and> snapshot_state snap = st
    \<and> (\<forall>v. snap = Snap_Completed v \<longrightarrow> res = Some v) \<and> (\<forall>v. snap = Snap_Failed v \<longrightarrow> failure = Some v)"
  using assms by (cases st) (auto simp: snapshot_of_text_def)

lemma fetch_error_cases:
  assumes "fetch_task_result_snapshot_with env x q name tid w = (Inl e, w')"
  shows "(\<exists>d. e = Error_Database d) \<or> (\<exists>n. e = Error_TaskNameMismatch tid name n) \<or> (\<exists>m. e = Error_Other m)"
  using assms unfolding fetch_task_result_snapshot_with_def ebind_apply map_err_apply
  by (cases "fst (execute env x (get_task_result (e_pg env) q tid) w)")
    (auto simp: esm_apply snapshot_of_text_def res_bind_eq_Inl split: option.splits if_splits)

subsection \<open>Waiting for a result\<close>

definition forward :: "world \<Rightarrow> world \<Rightarrow> bool" where
  "forward w w' \<longleftrightarrow> w_now w \<le> w_now w'"

interpretation forward: effect_order forward
  by unfold_locales (auto simp: forward_def)

lemma forward_execute [effects]: "effect forward (execute env x m)"
  by (cases x) (auto simp: effect_def forward_def pool_call_def txn_call_def Let_def
      split: prod.splits option.splits fault.splits txn.splits sum.splits)

lemma forward_fetch: "effect forward (fetch_task_result_snapshot env q name tid)"
  unfolding fetch_task_result_snapshot_def fetch_task_result_snapshot_with_def by (intro effects)

lemma w_now_sleep: "w_now (snd (sleep env d x w)) = w_now w + int (e_latency env (w_tick w)) + d"
  by (simp add: sleep_def Let_def)

lemma next_backoff_pos: "0 < d \<Longrightarrow> 0 < next_backoff d \<and> next_backoff d \<le> MAX_RESULT_BACKOFF"
  by (simp add: next_backoff_def MAX_RESULT_BACKOFF_def)

text \<open>With a deadline the loop returns, whatever the database, the network and the other sessions
  do.\<close>

lemma await_loop_returns:
  assumes "0 < delay"
  shows "\<exists>r. await_loop env q name tid (Some limit) started delay w = Some r"
  using assms
proof (induction "nat (limit - (w_now w - started))" arbitrary: delay w rule: less_induct)
  case less
  obtain r w1 where f: "fetch_task_result_snapshot env q name tid w = (r, w1)" by fastforce
  have fwd: "w_now w \<le> w_now w1" using forward_fetch f by (fastforce simp: forward_def dest: effectD)
  define d where "d = min delay (limit - (w_now w1 - started))"
  have "\<exists>y. await_loop env q name tid (Some limit) started (next_backoff d)
      (snd (sleep env d () w1 :: (error + unit) \<times> world)) = Some y"
    if "w_now w1 - started < limit"
  proof (rule less.hyps)
    have "0 < d" using less.prems that by (simp add: d_def)
    then show "nat (limit - (w_now (snd (sleep env d () w1 :: (error + unit) \<times> world)) - started))
        < nat (limit - (w_now w - started))"
      using fwd that by (simp add: w_now_sleep)
    show "0 < next_backoff d" using \<open>0 < d\<close> by (simp add: next_backoff_pos)
  qed
  then show ?case
    unfolding await_loop.simps [of env q name tid "Some limit" started delay w] f d_def
    by (auto split: sum.splits option.splits)
qed

end
