(* ===== verification/TaskApi.thy ===== *)
theory TaskApi
  imports Client
begin

section \<open>Typed tasks, references and handles\<close>

text \<open>
  \<open>src/task.rs\<close>: task definitions, the submission builder \<open>Spawn\<close>, the serialized reference
  \<open>TaskRef\<close>, typed snapshots and the handles that observe and control one logical task, with the
  attachment operations of \<open>src/queue.rs\<close> and \<open>src/steda.rs\<close>. The Rust type parameters
  \<open>Input\<close> and \<open>Output\<close> only select the \<open>serde\<close> implementations of the application; here these
  are arguments (\<open>ser\<close>, \<open>dec\<close>) of the operations that use them.
\<close>

subsection \<open>Rendering and serialization supplied from outside\<close>

type_synonym 'a ser = "'a \<Rightarrow> string + json"
type_synonym 'a dec = "json \<Rightarrow> string + 'a"

definition serde :: "string + 'a \<Rightarrow> error + 'a" where
  "serde r = map_sum Error_Serialization id r"

lemma serde_simps [simp]: "serde (Inl m) = Inl (Error_Serialization m)" "serde (Inr x) = Inr x"
  by (simp_all add: serde_def)

lemma serde_Inr_iff: "serde r = Inr x \<longleftrightarrow> r = Inr x"
  by (cases r) (simp_all add: serde_def)

text \<open>\<open>impl Display for Error\<close>.\<close>

fun error_text :: "fmt \<Rightarrow> error \<Rightarrow> string" where
  "error_text F (Error_Database x) = ''database error: '' @ fst (f_sqlx F x)"
| "error_text F (Error_InvalidOptions m) = m"
| "error_text F Error_MissingQueueName = ''queue name must be provided''"
| "error_text F (Error_QueueNameTooLong name m) =
     ''queue name '' @ f_debug F name @ '' is too long (max '' @ show_nat m @ '' bytes)''"
| "error_text F (Error_TaskNotFound i) = ''task '' @ f_uuid F i @ '' not found''"
| "error_text F (Error_TaskNameMismatch i expected actual) =
     ''task '' @ f_uuid F i @ '' is persisted as '' @ f_debug F actual
       @ '', but the task reference names '' @ f_debug F expected"
| "error_text F (Error_TaskFailed failure) = ''task failed: '' @ f_json F failure"
| "error_text F Error_Suspended = ''task suspended''"
| "error_text F Error_Cancelled = ''task cancelled''"
| "error_text F Error_FailedRun = ''task already failed''"
| "error_text F Error_LeaseLost = ''task lease lost''"
| "error_text F Error_IdempotencyConflict =
     ''idempotency key conflicts with an existing task request''"
| "error_text F (Error_Timeout m) = m"
| "error_text F (Error_InvalidTaskHeaders m) = ''invalid task headers: '' @ m"
| "error_text F (Error_Serialization m) = ''serialization error: '' @ m"
| "error_text F (Error_Task chain) = (case chain of [] \<Rightarrow> [] | m # _ \<Rightarrow> m)"
| "error_text F (Error_Other m) = m"

subsection \<open>Task definitions and submissions\<close>

record Task =
  Task_name :: string

definition Task_new :: "string \<Rightarrow> Task" where
  "Task_new name = \<lparr>Task_name = name\<rparr>"

record TaskRef =
  ref_queue_name :: string
  ref_task_name :: string
  ref_task_id :: uuid

definition TaskRef_from_parts :: "Task \<Rightarrow> string \<Rightarrow> uuid \<Rightarrow> TaskRef" where
  "TaskRef_from_parts task queue_name task_id =
     \<lparr>ref_queue_name = queue_name, ref_task_name = Task_name task, ref_task_id = task_id\<rparr>"

record 'svc TaskHandle =
  handle_queue :: "'svc Queue"
  handle_ref :: TaskRef

definition TaskHandle_new :: "'svc Queue \<Rightarrow> Task \<Rightarrow> uuid \<Rightarrow> 'svc TaskHandle" where
  "TaskHandle_new queue task task_id =
     \<lparr>handle_queue = queue, handle_ref = TaskRef_from_parts task (Queue_name queue) task_id\<rparr>"

definition TaskHandle_from_ref :: "'svc Queue \<Rightarrow> TaskRef \<Rightarrow> 'svc TaskHandle" where
  "TaskHandle_from_ref queue task_ref = \<lparr>handle_queue = queue, handle_ref = task_ref\<rparr>"

abbreviation handle_task_id :: "'svc TaskHandle \<Rightarrow> uuid" where
  "handle_task_id self \<equiv> ref_task_id (handle_ref self)"

record 'svc SpawnedTask =
  spawned_handle :: "'svc TaskHandle"
  spawned_new :: bool

definition SpawnedTask_new :: "'svc TaskHandle \<Rightarrow> bool \<Rightarrow> 'svc SpawnedTask" where
  "SpawnedTask_new handle created = \<lparr>spawned_handle = handle, spawned_new = created\<rparr>"

text \<open>\<open>Spawn\<close>: the input stays typed until the call is awaited.\<close>

record ('i, 'svc) Spawn =
  spawn_queue :: "'svc Queue"
  spawn_task_def :: Task
  spawn_input :: 'i
  spawn_config :: SpawnConfig

definition Spawn_new :: "'svc Queue \<Rightarrow> Task \<Rightarrow> 'i \<Rightarrow> ('i, 'svc) Spawn" where
  "Spawn_new queue task input = \<lparr>spawn_queue = queue, spawn_task_def = task, spawn_input = input,
     spawn_config = SpawnConfig_default\<rparr>"

definition Spawn_max_attempts :: "u32 \<Rightarrow> ('i, 'svc) Spawn \<Rightarrow> ('i, 'svc) Spawn" where
  "Spawn_max_attempts n self = self\<lparr>spawn_config := (spawn_config self)\<lparr>max_attempts := Some n\<rparr>\<rparr>"

definition Spawn_retry_strategy :: "RetryStrategy \<Rightarrow> ('i, 'svc) Spawn \<Rightarrow> ('i, 'svc) Spawn" where
  "Spawn_retry_strategy strategy self =
     self\<lparr>spawn_config := (spawn_config self)\<lparr>retry_strategy := Some strategy\<rparr>\<rparr>"

definition Spawn_headers :: "json_object \<Rightarrow> ('i, 'svc) Spawn \<Rightarrow> ('i, 'svc) Spawn" where
  "Spawn_headers hs self = self\<lparr>spawn_config := (spawn_config self)\<lparr>headers := Some hs\<rparr>\<rparr>"

definition Spawn_cancellation :: "CancellationPolicy \<Rightarrow> ('i, 'svc) Spawn \<Rightarrow> ('i, 'svc) Spawn" where
  "Spawn_cancellation c self = self\<lparr>spawn_config := (spawn_config self)\<lparr>cancellation := Some c\<rparr>\<rparr>"

definition Spawn_idempotency_key :: "string \<Rightarrow> ('i, 'svc) Spawn \<Rightarrow> ('i, 'svc) Spawn" where
  "Spawn_idempotency_key key self =
     self\<lparr>spawn_config := (spawn_config self)\<lparr>idempotency_key := Some key\<rparr>\<rparr>"

definition spawn_typed_with ::
    "env \<Rightarrow> 'i ser \<Rightarrow> 'svc Queue \<Rightarrow> Task \<Rightarrow> 'i \<Rightarrow> SpawnConfig \<Rightarrow> executor \<Rightarrow> 'svc SpawnedTask rust" where
  "spawn_typed_with env ser self task input options exec =
     ebind (elift (serde (ser input))) (\<lambda>params.
     ebind (spawn_serialized_with env self (Task_name task) params options exec) (\<lambda>spawned.
       ereturn (SpawnedTask_new (TaskHandle_new self task (spawned_task_id spawned))
         (spawned_created spawned))))"

text \<open>Awaiting the builder submits through the pool; \<open>submit\<close> through the caller's transaction.\<close>

definition Spawn_into_future :: "env \<Rightarrow> 'i ser \<Rightarrow> ('i, 'svc) Spawn \<Rightarrow> 'svc SpawnedTask rust" where
  "Spawn_into_future env ser self =
     spawn_typed_with env ser (spawn_queue self) (spawn_task_def self) (spawn_input self)
       (spawn_config self) Pool"

definition Spawn_submit :: "env \<Rightarrow> 'i ser \<Rightarrow> ('i, 'svc) Spawn \<Rightarrow> 'svc SpawnedTask rust" where
  "Spawn_submit env ser self =
     spawn_typed_with env ser (spawn_queue self) (spawn_task_def self) (spawn_input self)
       (spawn_config self) Connection"

definition Queue_spawn :: "'svc Queue \<Rightarrow> Task \<Rightarrow> 'i \<Rightarrow> ('i, 'svc) Spawn" where
  "Queue_spawn self task input = Spawn_new self task input"

definition Queue_task :: "'svc Queue \<Rightarrow> Task \<Rightarrow> uuid \<Rightarrow> error + 'svc TaskHandle" where
  "Queue_task self task task_id =
     res_bind (validate_task_name (Task_name task)) (\<lambda>_. Inr (TaskHandle_new self task task_id))"

definition Steda_task :: "'svc Steda \<Rightarrow> TaskRef \<Rightarrow> error + 'svc TaskHandle" where
  "Steda_task self task =
     res_bind (validate_task_name (ref_task_name task)) (\<lambda>_.
     res_bind (Steda_queue self (ref_queue_name task)) (\<lambda>queue.
       Inr (TaskHandle_from_ref queue task)))"

subsection \<open>References on the wire\<close>

definition TaskRef_serialize :: "fmt \<Rightarrow> TaskRef \<Rightarrow> json" where
  "TaskRef_serialize F self =
     JObj (json_insert ''taskId'' (JStr (f_uuid F (ref_task_id self)))
       (json_insert ''taskName'' (JStr (ref_task_name self))
         (json_insert ''queueName'' (JStr (ref_queue_name self)) [])))"

text \<open>The derived \<open>TaskRefWire::deserialize\<close>: an object (unknown fields are ignored) or the
  sequence of the three fields.\<close>

definition wire_fields :: "json \<Rightarrow> (json \<times> json \<times> json) option" where
  "wire_fields j =
     (case j of
        JObj kvs \<Rightarrow>
          (case (map_of kvs ''queueName'', map_of kvs ''taskName'', map_of kvs ''taskId'') of
             (Some q, Some n, Some i) \<Rightarrow> Some (q, n, i)
           | _ \<Rightarrow> None)
      | JArr [q, n, i] \<Rightarrow> Some (q, n, i)
      | _ \<Rightarrow> None)"

definition wire_deserialize :: "fmt \<Rightarrow> json \<Rightarrow> string + TaskRef" where
  "wire_deserialize F j =
     (case wire_fields j of
        Some (JStr q, JStr n, JStr i) \<Rightarrow>
          (case f_uuid_parse F i of
             Some u \<Rightarrow> Inr \<lparr>ref_queue_name = q, ref_task_name = n, ref_task_id = u\<rparr>
           | None \<Rightarrow> Inl ''UUID parsing failed'')
      | _ \<Rightarrow> Inl ''invalid type or missing field'')"

definition TaskRef_deserialize :: "fmt \<Rightarrow> json \<Rightarrow> string + TaskRef" where
  "TaskRef_deserialize F j =
     res_bind (wire_deserialize F j) (\<lambda>wire.
     res_bind (map_sum (error_text F) id (validate_task_name (ref_task_name wire))) (\<lambda>_.
     res_bind (map_sum (error_text F) id (validate_queue_name (ref_queue_name wire))) (\<lambda>q.
       Inr \<lparr>ref_queue_name = q, ref_task_name = ref_task_name wire,
         ref_task_id = ref_task_id wire\<rparr>)))"

subsection \<open>Typed snapshots\<close>

datatype 'a TaskSnapshot =
    Typed_Pending
  | Typed_Running
  | Typed_Sleeping
  | Typed_Completed 'a
  | Typed_Failed json
  | Typed_Cancelled

fun TaskSnapshot_state :: "'a TaskSnapshot \<Rightarrow> TaskState" where
  "TaskSnapshot_state Typed_Pending = Pending"
| "TaskSnapshot_state Typed_Running = Running"
| "TaskSnapshot_state Typed_Sleeping = Sleeping"
| "TaskSnapshot_state (Typed_Completed _) = Completed"
| "TaskSnapshot_state (Typed_Failed _) = Failed"
| "TaskSnapshot_state Typed_Cancelled = Cancelled"

fun TaskSnapshot_is_terminal :: "'a TaskSnapshot \<Rightarrow> bool" where
  "TaskSnapshot_is_terminal (Typed_Completed _) = True"
| "TaskSnapshot_is_terminal (Typed_Failed _) = True"
| "TaskSnapshot_is_terminal Typed_Cancelled = True"
| "TaskSnapshot_is_terminal _ = False"

fun decode_snapshot :: "'a dec \<Rightarrow> TaskResultSnapshot \<Rightarrow> error + 'a TaskSnapshot" where
  "decode_snapshot dec Snap_Pending = Inr Typed_Pending"
| "decode_snapshot dec Snap_Running = Inr Typed_Running"
| "decode_snapshot dec Snap_Sleeping = Inr Typed_Sleeping"
| "decode_snapshot dec (Snap_Completed v) = res_bind (serde (dec v)) (\<lambda>x. Inr (Typed_Completed x))"
| "decode_snapshot dec (Snap_Failed failure) = Inr (Typed_Failed failure)"
| "decode_snapshot dec Snap_Cancelled = Inr Typed_Cancelled"

fun decode_result :: "'a dec \<Rightarrow> TaskResultSnapshot \<Rightarrow> error + 'a" where
  "decode_result dec (Snap_Completed v) = serde (dec v)"
| "decode_result dec (Snap_Failed failure) = Inl (Error_TaskFailed failure)"
| "decode_result dec Snap_Cancelled = Inl Error_Cancelled"
| "decode_result dec _ = Inl (Error_Other ''task result wait returned a non-terminal snapshot'')"

subsection \<open>Handles\<close>

definition handle_snapshot :: "env \<Rightarrow> 'a dec \<Rightarrow> 'svc TaskHandle \<Rightarrow> 'a TaskSnapshot option rust" where
  "handle_snapshot env dec self =
     ebind (fetch_task_result env (handle_queue self) (ref_task_name (handle_ref self))
       (handle_task_id self))
     (\<lambda>found. elift (traverse_option (decode_snapshot dec) found))"

text \<open>\<open>cancel\<close> and \<open>retry\<close> run through the pool, \<open>cancel_in\<close> and \<open>retry_in\<close> through the caller's
  transaction; each first checks that the reference still names the persisted task.\<close>

definition handle_cancel_with :: "env \<Rightarrow> 'svc TaskHandle \<Rightarrow> executor \<Rightarrow> unit rust" where
  "handle_cancel_with env self exec =
     eseq (ensure_task_ref_with env (handle_queue self) (ref_task_name (handle_ref self))
       (handle_task_id self) exec)
     (cancel_task_with env (handle_queue self) (handle_task_id self) exec)"

definition handle_retry_with :: "env \<Rightarrow> 'svc TaskHandle \<Rightarrow> executor \<Rightarrow> uuid rust" where
  "handle_retry_with env self exec =
     eseq (ensure_task_ref_with env (handle_queue self) (ref_task_name (handle_ref self))
       (handle_task_id self) exec)
     (retry_task_with env (handle_queue self) (handle_task_id self) exec)"

definition handle_cancel :: "env \<Rightarrow> 'svc TaskHandle \<Rightarrow> unit rust" where
  "handle_cancel env self = handle_cancel_with env self Pool"

definition handle_cancel_in :: "env \<Rightarrow> 'svc TaskHandle \<Rightarrow> unit rust" where
  "handle_cancel_in env self = handle_cancel_with env self Connection"

definition handle_retry :: "env \<Rightarrow> 'svc TaskHandle \<Rightarrow> uuid rust" where
  "handle_retry env self = handle_retry_with env self Pool"

definition handle_retry_in :: "env \<Rightarrow> 'svc TaskHandle \<Rightarrow> uuid rust" where
  "handle_retry_in env self = handle_retry_with env self Connection"

definition result_inner :: "env \<Rightarrow> 'a dec \<Rightarrow> 'svc TaskHandle \<Rightarrow> duration option \<Rightarrow> 'a async" where
  "result_inner env dec self timeout w =
     (case await_task_result_snapshot env (Queue_name (handle_queue self))
         (ref_task_name (handle_ref self)) (handle_task_id self) timeout w of
        None \<Rightarrow> None
      | Some (r, w') \<Rightarrow> Some (res_bind r (decode_result dec), w'))"

definition handle_result :: "env \<Rightarrow> 'a dec \<Rightarrow> 'svc TaskHandle \<Rightarrow> 'a async" where
  "handle_result env dec self = result_inner env dec self None"

definition handle_result_with_timeout ::
    "env \<Rightarrow> 'a dec \<Rightarrow> 'svc TaskHandle \<Rightarrow> duration \<Rightarrow> 'a async" where
  "handle_result_with_timeout env dec self timeout = result_inner env dec self (Some timeout)"

text \<open>\<open>SpawnedTask\<close> delegates every operation to its handle.\<close>

definition spawned_task_ref :: "'svc SpawnedTask \<Rightarrow> TaskRef" where
  "spawned_task_ref self = handle_ref (spawned_handle self)"

definition spawned_snapshot :: "env \<Rightarrow> 'a dec \<Rightarrow> 'svc SpawnedTask \<Rightarrow> 'a TaskSnapshot option rust" where
  "spawned_snapshot env dec self = handle_snapshot env dec (spawned_handle self)"

definition spawned_cancel :: "env \<Rightarrow> 'svc SpawnedTask \<Rightarrow> unit rust" where
  "spawned_cancel env self = handle_cancel env (spawned_handle self)"

definition spawned_cancel_in :: "env \<Rightarrow> 'svc SpawnedTask \<Rightarrow> unit rust" where
  "spawned_cancel_in env self = handle_cancel_in env (spawned_handle self)"

definition spawned_retry_in :: "env \<Rightarrow> 'svc SpawnedTask \<Rightarrow> uuid rust" where
  "spawned_retry_in env self = handle_retry_in env (spawned_handle self)"

definition spawned_retry :: "env \<Rightarrow> 'svc SpawnedTask \<Rightarrow> uuid rust" where
  "spawned_retry env self = handle_retry env (spawned_handle self)"

definition spawned_result :: "env \<Rightarrow> 'a dec \<Rightarrow> 'svc SpawnedTask \<Rightarrow> 'a async" where
  "spawned_result env dec self = handle_result env dec (spawned_handle self)"

definition spawned_result_with_timeout ::
    "env \<Rightarrow> 'a dec \<Rightarrow> 'svc SpawnedTask \<Rightarrow> duration \<Rightarrow> 'a async" where
  "spawned_result_with_timeout env dec self timeout =
     handle_result_with_timeout env dec (spawned_handle self) timeout"

end
