(* ===== verification/SubmissionPath.thy ===== *)
theory SubmissionPath
  imports TaskApi Boundary
begin

section \<open>From the submission builder to the stored task\<close>

text \<open>
  The Rust checks and the database checks of a submission composed: what
  \<open>normalize_spawn_options\<close> lets through, \<open>spawn_task\<close> parses into the request the caller meant.
\<close>

text \<open>What the server has to do right for this: read back doubles that Rust or PostgreSQL printed
  exactly, and take no name for blank that Rust does not.\<close>

definition pg_reads_config :: "pg \<Rightarrow> SpawnConfig \<Rightarrow> bool" where
  "pg_reads_config pg c \<longleftrightarrow>
     pg_nonneg pg \<and> pg_text_laws pg \<and> pg_reads_durations pg
   \<and> (case retry_strategy c of None \<Rightarrow> True | Some s \<Rightarrow> pg_reads_factor pg s)"

definition spawn_keys :: "string list" where
  "spawn_keys = [''headers'', ''maxAttempts'', ''retryStrategy'', ''cancellation'', ''idempotencyKey'']"

lemma normalized_options:
  assumes "normalize_spawn_options c = Inr m"
  obtains ma rs cm where
    "traverse_option (\<lambda>n. database_positive_i32 n ''max_attempts'') (max_attempts c) = Inr ma"
    "traverse_option retry_strategy_json (retry_strategy c) = Inr rs"
    "traverse_option cancellation_json (cancellation c) = Inr cm"
    "validate_spawn_options c = Inr ()"
    "map_of m ''headers'' =
      (case headers c of Some h \<Rightarrow> (if h = [] then None else Some (JObj h)) | None \<Rightarrow> None)"
    "map_of m ''maxAttempts'' = map_option JInt ma"
    "map_of m ''retryStrategy'' = rs"
    "map_of m ''cancellation'' =
      (case cm of Some p \<Rightarrow> (if p = [] then None else Some (JObj p)) | None \<Rightarrow> None)"
    "map_of m ''idempotencyKey'' = map_option JStr (idempotency_key c)"
    "fst ` set m \<subseteq> set spawn_keys"
proof -
  obtain ma rs cm where
    t: "traverse_option (\<lambda>n. database_positive_i32 n ''max_attempts'') (max_attempts c) = Inr ma"
      "traverse_option retry_strategy_json (retry_strategy c) = Inr rs"
      "traverse_option cancellation_json (cancellation c) = Inr cm"
      "validate_spawn_options c = Inr ()"
    and m: "m = json_insert_option ''idempotencyKey'' (map_option JStr (idempotency_key c))
      (json_insert_option ''cancellation''
        (case cm of Some p \<Rightarrow> (if p = [] then None else Some (JObj p)) | None \<Rightarrow> None)
        (json_insert_option ''retryStrategy'' rs
          (json_insert_option ''maxAttempts'' (map_option JInt ma)
            (json_insert_option ''headers''
              (case headers c of Some h \<Rightarrow> (if h = [] then None else Some (JObj h)) | None \<Rightarrow> None)
              []))))"
    using assms unfolding normalize_spawn_options_def Let_def by (auto simp: res_bind_eq_Inr)
  have "fst ` set m \<subseteq> set spawn_keys"
    unfolding m spawn_keys_def by (auto simp: set_keys_json_insert_option split: if_splits)
  moreover have "map_of m ''headers'' =
      (case headers c of Some h \<Rightarrow> (if h = [] then None else Some (JObj h)) | None \<Rightarrow> None)"
    "map_of m ''maxAttempts'' = map_option JInt ma" "map_of m ''retryStrategy'' = rs"
    "map_of m ''cancellation'' =
      (case cm of Some p \<Rightarrow> (if p = [] then None else Some (JObj p)) | None \<Rightarrow> None)"
    "map_of m ''idempotencyKey'' = map_option JStr (idempotency_key c)"
    unfolding m by (simp_all split: option.splits)
  ultimately show thesis using that t by blast
qed

text \<open>What a configuration stands for: the attempts, headers, retry strategy and cancellation policy of the
  stored task, written out independently of the code that assembles and parses the option object.\<close>

definition configured_attempts :: "SpawnConfig \<Rightarrow> int" where
  "configured_attempts c = (case max_attempts c of None \<Rightarrow> 5 | Some n \<Rightarrow> uint n)"

definition configured_headers :: "SpawnConfig \<Rightarrow> json option" where
  "configured_headers c =
     (case headers c of None \<Rightarrow> None | Some h \<Rightarrow> if h = [] then None else Some (JObj h))"

definition configured_strategy :: "SpawnConfig \<Rightarrow> json" where
  "configured_strategy c =
     (case retry_strategy c of
        None \<Rightarrow> default_retry_strategy
      | Some (Fixed d) \<Rightarrow> JObj [(''baseSeconds'', JDec (as_secs_f64 d)), (''kind'', JStr ''fixed'')]
      | Some (Exponential d f m) \<Rightarrow>
          JObj ([(''baseSeconds'', JDec (as_secs_f64 d)), (''factor'', f64_json f), (''kind'', JStr ''exponential'')]
            @ (case m of None \<Rightarrow> [] | Some x \<Rightarrow> [(''maxSeconds'', JDec (as_secs_f64 x))]))
      | Some NoRetry \<Rightarrow> JObj [(''kind'', JStr ''none'')])"

definition whole_seconds :: "duration \<Rightarrow> int" where
  "whole_seconds d = uint (as_secs d) + (if subsec_nanos d > 0 then 1 else 0)"

definition configured_cancellation :: "SpawnConfig \<Rightarrow> json option" where
  "configured_cancellation c =
     (case cancellation c of
        None \<Rightarrow> None
      | Some p \<Rightarrow>
          if max_delay p = None \<and> max_duration p = None then None
          else Some (JObj
            ((case max_delay p of None \<Rightarrow> [] | Some d \<Rightarrow> [(''maxDelay'', JInt (whole_seconds d))])
             @ (case max_duration p of None \<Rightarrow> [] | Some d \<Rightarrow> [(''maxDuration'', JInt (whole_seconds d))]))))"

lemma configured_strategy_value:
  "configured_strategy c = (case retry_strategy c of None \<Rightarrow> default_retry_strategy | Some s \<Rightarrow> retry_strategy_value s)"
  by (auto simp: configured_strategy_def retry_strategy_value_def json_insert_option_def
      split: option.splits RetryStrategy.splits)

lemma whole_seconds_sent: "duration_seconds_i64 d label = Inr n \<Longrightarrow> n = whole_seconds d"
  by (auto simp: duration_seconds_i64_Inr seconds_rounded_up_def whole_seconds_def dest!: checked_add_u64_Some)

lemma configured_cancellation_sent:
  assumes "traverse_option cancellation_json (cancellation c) = Inr cm"
  shows "(case cm of Some p \<Rightarrow> (if p = [] then None else Some (JObj p)) | None \<Rightarrow> None) = configured_cancellation c"
proof (cases "cancellation c")
  case (Some p)
  then obtain m where m: "cancellation_json p = Inr m" "cm = Some m" using assms by (auto simp: res_bind_eq_Inr)
  then show ?thesis using Some
    by (cases "max_delay p"; cases "max_duration p")
      (auto simp: configured_cancellation_def cancellation_json_def res_bind_eq_Inr json_insert_option_def
        dest!: whole_seconds_sent)
qed (use assms in \<open>simp add: configured_cancellation_def\<close>)

lemma attempts_parsed:
  assumes "traverse_option (\<lambda>n. database_positive_i32 n label) mx = Inr ma"
    and "jget ''maxAttempts'' j = map_option JInt ma"
  shows "spawn_max_attempts j = Inr (map_option uint mx)"
proof (cases mx)
  case None
  then show ?thesis using assms by (simp add: spawn_max_attempts_def)
next
  case (Some n)
  then obtain v where v: "v = uint n" "ma = Some v" "1 \<le> v" "v \<le> i32_max"
    using assms(1) by (auto simp: res_bind_eq_Inr database_positive_i32_Inr)
  have "(1 :: rat) \<le> of_int v" using v(3) by (simp only: of_int_1_le_iff)
  moreover have "(of_int v :: rat) \<le> of_int i32_max" using v(4) by (simp only: of_int_le_iff)
  ultimately have "spawn_max_attempts j = Inr (Some v)"
    using assms(2) v(2) by (simp add: spawn_max_attempts_def not_less)
  then show ?thesis using Some v(1) by simp
qed

lemma key_option_accepted:
  assumes pg: "pg_reads_config pg c" and "validate_spawn_options c = Inr ()"
  shows "check_idempotency_key pg (idempotency_key c) = Inr ()"
proof (cases "idempotency_key c")
  case (Some key)
  have blank: "pg_blank pg s \<Longrightarrow> all_space s" for s
    using pg by (simp add: pg_reads_config_def pg_text_laws_def)
  have "validate_idempotency_key key = Inr ()"
    using assms(2) Some by (auto simp: validate_spawn_options_def res_bind_eq_Inr split: if_splits)
  from idempotency_key.accepted_by_database [of "pg_blank pg", OF blank this] Some show ?thesis
    by (simp add: check_idempotency_key_def MAX_IDEMPOTENCY_KEY_BYTES_def)
qed (simp add: check_idempotency_key_def)

lemma strategy_option_accepted:
  assumes pg: "pg_reads_config pg c" and rs: "traverse_option retry_strategy_json (retry_strategy c) = Inr rs"
  shows "\<exists>d. retry_delay_seconds pg (case rs of None \<Rightarrow> default_retry_strategy | Some s \<Rightarrow> s) 1 = Inr d"
proof (cases "retry_strategy c")
  case None
  then show ?thesis using rs pg default_strategy_accepted by (auto simp: pg_reads_config_def)
next
  case (Some s)
  then obtain j where "retry_strategy_json s = Inr j" "rs = Some j" using rs by (auto simp: res_bind_eq_Inr)
  then show ?thesis using strategy_accepted [of s j pg 1] pg Some by (auto simp: pg_reads_config_def)
qed

lemma options_accepted:
  assumes pg: "pg_reads_config pg c" and name: "validate_task_name name = Inr ()"
    and norm: "normalize_spawn_options c = Inr m"
  shows "\<exists>rq. parse_spawn_request pg name (Some params) (Some (JObj m)) = Inr rq
    \<and> q_task_name rq = name \<and> q_params rq = params \<and> q_maximum_attempts rq = configured_attempts c
    \<and> q_idempotency_key rq = idempotency_key c \<and> q_headers rq = configured_headers c
    \<and> q_retry_strategy rq = configured_strategy c \<and> q_cancellation rq = configured_cancellation c"
  using norm
proof (rule normalized_options)
  fix ma rs cm
  assume t: "traverse_option (\<lambda>n. database_positive_i32 n ''max_attempts'') (max_attempts c) = Inr ma"
    "traverse_option retry_strategy_json (retry_strategy c) = Inr rs"
    "traverse_option cancellation_json (cancellation c) = Inr cm" "validate_spawn_options c = Inr ()"
    and m: "map_of m ''headers'' =
      (case headers c of Some h \<Rightarrow> (if h = [] then None else Some (JObj h)) | None \<Rightarrow> None)"
    "map_of m ''maxAttempts'' = map_option JInt ma" "map_of m ''retryStrategy'' = rs"
    "map_of m ''cancellation'' =
      (case cm of Some p \<Rightarrow> (if p = [] then None else Some (JObj p)) | None \<Rightarrow> None)"
    "map_of m ''idempotencyKey'' = map_option JStr (idempotency_key c)" "fst ` set m \<subseteq> set spawn_keys"
  have blank: "pg_blank pg s \<Longrightarrow> all_space s" for s
    using pg by (simp add: pg_reads_config_def pg_text_laws_def)
  have n: "\<not> pg_blank pg name \<and> length name \<le> 1024"
    using task_name.accepted_by_database [of "pg_blank pg", OF blank name] by (simp add: MAX_TASK_NAME_BYTES_def)
  have keys: "unknown_key spawn_keys (JObj m) = None" using m(6) by (simp add: unknown_key_None_iff)
  have h: "spawn_headers (JObj m) = Inr (map_of m ''headers'')"
    unfolding m(1) spawn_headers_def by (auto simp: m(1) split: option.splits)
  have a: "spawn_max_attempts (JObj m) = Inr (map_option uint (max_attempts c))"
    using attempts_parsed [OF t(1)] m(2) by simp
  have c: "validate_cancellation_policy (jget ''cancellation'' (JObj m)) = Inr (configured_cancellation c)"
    unfolding configured_cancellation_sent [OF t(3), symmetric]
    using t(3) m(4) cancellation_accepted
    by (cases cm; cases "cancellation c")
      (auto simp: res_bind_eq_Inr validate_cancellation_policy_def)
  have rs: "(case jget ''retryStrategy'' (JObj m) of None \<Rightarrow> default_retry_strategy | Some s \<Rightarrow> s) = configured_strategy c"
    unfolding configured_strategy_value jget.simps m(3) using t(2)
    by (cases "retry_strategy c") (auto simp: res_bind_eq_Inr retry_strategy_json_Inr)
  have k: "spawn_idempotency_key (JObj m) = Inr (idempotency_key c)"
    using m(5) by (cases "idempotency_key c") (simp_all add: spawn_idempotency_key_def)
  show ?thesis
    using n keys h a c k rs key_option_accepted [OF pg t(4)] strategy_option_accepted [OF pg t(2)] m(1,3)
    by (auto simp: parse_spawn_request_def Let_def spawn_keys_def configured_attempts_def configured_headers_def
        split: option.splits)
qed

subsection \<open>Statements without faults\<close>

lemma pool_call_ok:
  assumes "e_fault env (w_tick w) = None"
    and "run_txn m (e_others env (w_tick w) (w_db w)) = (Inr x, d)"
  shows "execute env Pool m w = (Inr x, (begin_event env w)\<lparr>w_db := d\<rparr>)"
  using assms by (simp add: pool_call_def)

lemma pool_call_fails:
  assumes "e_fault env (w_tick w) = None"
    and "run_txn m (e_others env (w_tick w) (w_db w)) = (Inl e, d)"
  shows "execute env Pool m w = (Inl (sqlx_of_sql e), (begin_event env w)\<lparr>w_db := d\<rparr>)"
  using assms by (simp add: pool_call_def)

text \<open>A plain rendering, the environment of one client alone with the server, and a world around a
  database.\<close>

definition demo_fmt :: fmt where
  "demo_fmt = \<lparr>f_uuid = (\<lambda>i. replicate i (CHR ''a'')), f_uuid_parse = (\<lambda>s. Some (length s)),
     f_json = (\<lambda>_. ''json''), f_sqlx = (\<lambda>_. (''sqlx'', [])), f_debug = (\<lambda>s. s)\<rparr>"

definition quiet :: "pg \<Rightarrow> env" where
  "quiet pg = \<lparr>e_pg = pg, e_others = (\<lambda>_ d. d), e_fault = (\<lambda>_. None), e_latency = (\<lambda>_. 0),
     e_fmt = demo_fmt\<rparr>"

definition world_of :: "db \<Rightarrow> world" where
  "world_of db = \<lparr>w_db = db, w_txn = Closed, w_tick = 0, w_now = 0, w_cache = [],
     w_metrics = QueueMetrics_new, w_guard = None\<rparr>"

lemma quiet_sel [simp]:
  "e_pg (quiet pg) = pg" "e_others (quiet pg) n d = d" "e_fault (quiet pg) n = None"
  "e_latency (quiet pg) n = 0"
  by (simp_all add: quiet_def)

lemma world_of_sel [simp]:
  "w_db (world_of db) = db" "w_txn (world_of db) = Closed" "w_tick (world_of db) = 0"
  "w_now (world_of db) = 0" "w_cache (world_of db) = []" "w_metrics (world_of db) = QueueMetrics_new"
  "w_guard (world_of db) = None"
  by (simp_all add: world_of_def)

lemma quiet_ok: "pg_ok pg \<Longrightarrow> env_ok (quiet pg)"
  by (simp add: env_ok_def)


definition demo_builder :: "(int, unit) Spawn" where
  "demo_builder = Spawn_cancellation \<lparr>max_duration = None, max_delay = Some \<lparr>as_secs = 7, subsec_nanos = 5\<rparr>\<rparr>
     (Spawn_retry_strategy (Fixed \<lparr>as_secs = 2, subsec_nanos = 0\<rparr>) (Spawn_headers [(''h'', JInt 1)]
       (Spawn_idempotency_key ''k'' (Spawn_max_attempts 3
         (Queue_spawn \<lparr>Queue_name = ''q'', Queue_execution = ()\<rparr> (Task_new ''t'') 7)))))"

definition int_ser :: "int ser" where
  "int_ser i = Inr (JInt i)"

lemma demo_builder_facts:
  "Queue_name (spawn_queue demo_builder) = ''q''" "Task_name (spawn_task_def demo_builder) = ''t''"
  "spawn_input demo_builder = 7" "idempotency_key (spawn_config demo_builder) = Some ''k''"
  "retry_strategy (spawn_config demo_builder) = Some (Fixed \<lparr>as_secs = 2, subsec_nanos = 0\<rparr>)"
  by (simp_all add: demo_builder_def Spawn_cancellation_def Spawn_retry_strategy_def Spawn_headers_def Spawn_idempotency_key_def Spawn_max_attempts_def Queue_spawn_def Spawn_new_def Task_new_def
      SpawnConfig_default_def)


end
