(* ===== verification/ClientProperties.thy ===== *)
theory ClientProperties
  imports SubmissionPath
begin

section \<open>Observing and controlling tasks\<close>

text \<open>
  Properties of the client operations on tasks: waiting for a result, snapshots, typed references,
  control operations and queue policies.
\<close>

subsection \<open>Reads\<close>

lemma get_task_result_txn:
  assumes "get_task_result pg q tid db = (Inr row, db)" and "db_inv pg db"
  shows "run_txn (get_task_result pg q tid) db = (Inr row, db)"
  using assms by (rule run_txn_commits)

lemma env_inv: "env_ok env \<Longrightarrow> db_inv (e_pg env) db \<Longrightarrow> db_inv (e_pg env) (e_others env n db)"
  using steps_inv [OF _ _ env_steps] by (auto simp: env_ok_def)

lemma fetch_row:
  assumes env: "env_ok env" "e_fault env (w_tick w) = None" and inv: "db_inv (e_pg env) (w_db w)"
    and q: "queue_name_ok (e_pg env) q"
    and s: "map_of (storage (e_others env (w_tick w) (w_db w))) q = Some s"
  shows "execute env Pool (get_task_result (e_pg env) q tid) w =
    (Inr (map_option (result_of s) (find_row t_id tid (tasks s))), begin_event env w)"
proof -
  let ?d = "e_others env (w_tick w) (w_db w)"
  have "run_txn (get_task_result (e_pg env) q tid) ?d =
      (Inr (map_option (result_of s) (find_row t_id tid (tasks s))), ?d)"
    using get_task_result_eval [OF q s] env_inv [OF env(1) inv] by (rule get_task_result_txn)
  from pool_call_ok [OF env(2) this] show ?thesis by (simp add: begin_event_def)
qed

lemma fetch_found:
  assumes env: "env_ok env" "e_fault env (w_tick w) = None" and inv: "db_inv (e_pg env) (w_db w)"
    and q: "queue_name_ok (e_pg env) q"
    and s: "map_of (storage (e_others env (w_tick w) (w_db w))) q = Some s" and t: "t \<in> set (tasks s)"
  shows "fetch_task_result_snapshot env q name (t_id t) w =
    (if t_name t \<noteq> name then Inl (Error_TaskNameMismatch (t_id t) name (t_name t))
     else res_bind (snapshot_of_text (e_fmt env) (t_id t) (state_text (t_state t)) (res_result (result_of s t))
       (res_failure_reason (result_of s t))) (\<lambda>snap. Inr (Some snap)), begin_event env w)"
proof -
  have si: "store_inv (e_pg env) (seq (e_others env (w_tick w) (w_db w))) s"
    using db_inv_store [OF env_inv [OF env(1) inv] s] .
  then have "find_row t_id (t_id t) (tasks s) = Some t"
    using t by (simp add: find_row_eq_Some store_inv_def store_ok_iff)
  then show ?thesis
    using fetch_row [OF env inv q s, of "t_id t"]
    by (simp add: fetch_task_result_snapshot_def fetch_task_result_snapshot_with_def ebind_apply
        map_err_apply esm_apply result_of_def Let_def)
qed

text \<open>Fetching a snapshot of a task in a database that other clients keep using reports
  the task's state at that moment, with the result or failure stored by its authoritative run. The
  decoding errors for a completed task without a result, a failed task without a failure or an
  unknown state cannot occur.\<close>

lemma snapshot_reports_task:
  assumes env: "env_ok env" "e_fault env (w_tick w) = None" and inv: "db_inv (e_pg env) (w_db w)"
    and q: "queue_name_ok (e_pg env) q"
    and s: "map_of (storage (e_others env (w_tick w) (w_db w))) q = Some s" and t: "t \<in> set (tasks s)"
  shows "\<exists>snap r. fetch_task_result_snapshot env q (t_name t) (t_id t) w =
      (Inr (Some snap), begin_event env w)
    \<and> snapshot_state snap = t_state t
    \<and> r \<in> set (runs s) \<and> authoritative t r
    \<and> (\<forall>v. snap = Snap_Completed v \<longrightarrow> r_result r = Some v)
    \<and> (\<forall>v. snap = Snap_Failed v \<longrightarrow> r_failure_reason r = Some v)"
proof -
  let ?row = "result_of s t"
  have si: "store_inv (e_pg env) (seq (e_others env (w_tick w) (w_db w))) s"
    using db_inv_store [OF env_inv [OF env(1) inv] s] .
  note out = result_of_outcome [OF si t]
  obtain snap where snap: "snapshot_of_text (e_fmt env) (t_id t) (state_text (t_state t)) (res_result ?row)
        (res_failure_reason ?row) = Inr snap" "snapshot_state snap = t_state t"
      "\<forall>v. snap = Snap_Completed v \<longrightarrow> res_result ?row = Some v"
      "\<forall>v. snap = Snap_Failed v \<longrightarrow> res_failure_reason ?row = Some v"
    using snapshot_of_text_state [of "t_state t" "res_result ?row" "res_failure_reason ?row"] out by blast
  obtain r where r: "r \<in> set (runs s)" "authoritative t r"
    using store_inv_authoritative [OF si t] by blast
  then have "find_row r_id (t_last_attempt_run t) (runs s) = Some r"
    using si by (subst find_row_eq_Some) (auto simp: store_inv_def store_ok_iff authoritative_def)
  then have payload: "res_result ?row = Some v \<Longrightarrow> r_result r = Some v"
    "res_failure_reason ?row = Some v \<Longrightarrow> r_failure_reason r = Some v" for v
    by (auto simp: result_of_def Let_def split: if_splits)
  have "fetch_task_result_snapshot env q (t_name t) (t_id t) w = (Inr (Some snap), begin_event env w)"
    using fetch_found [OF env inv q s t, of "t_name t"] snap(1) by simp
  moreover have "\<forall>v. snap = Snap_Completed v \<longrightarrow> r_result r = Some v"
    "\<forall>v. snap = Snap_Failed v \<longrightarrow> r_failure_reason r = Some v"
    using snap(3,4) payload by simp_all
  ultimately show ?thesis using snap(2) r by blast
qed

lemma snapshot_reports_task_witness:
  "\<exists>snap r. fetch_task_result_snapshot (quiet exact_pg) ''q'' (t_name demo_running) (t_id demo_running)
        (world_of demo_claimed) = (Inr (Some snap), begin_event (quiet exact_pg) (world_of demo_claimed))
    \<and> snapshot_state snap = t_state demo_running
    \<and> r \<in> set (runs demo_store) \<and> authoritative demo_running r
    \<and> (\<forall>v. snap = Snap_Completed v \<longrightarrow> r_result r = Some v)
    \<and> (\<forall>v. snap = Snap_Failed v \<longrightarrow> r_failure_reason r = Some v)"
  by (rule snapshot_reports_task)
    (simp_all add: quiet_ok exact_pg_ok demo_inv demo_facts, simp add: demo_store_def)

subsection \<open>Waiting\<close>

lemma duration_nanos_nonneg: "0 \<le> duration_nanos d"
  by (simp add: duration_nanos_def)

definition same_now :: "world \<Rightarrow> world \<Rightarrow> bool" where
  "same_now w w' \<longleftrightarrow> w_now w' = w_now w"

interpretation same_now: effect_order same_now
  by unfold_locales (auto simp: same_now_def)

lemma same_now_pool: "\<forall>n. e_latency env n = 0 \<Longrightarrow> effect same_now (execute env Pool m)"
  by (auto simp: effect_def same_now_def pool_call_def Let_def split: prod.splits option.splits fault.splits)

lemma fetch_zero_latency:
  assumes "\<forall>n. e_latency env n = 0"
  shows "effect same_now (fetch_task_result_snapshot env q name tid)"
  unfolding fetch_task_result_snapshot_def fetch_task_result_snapshot_with_def
  by (intro effects same_now_pool [OF assms])

definition wait_outcome :: "env \<Rightarrow> int \<Rightarrow> int \<Rightarrow> (error + TaskResultSnapshot) \<times> world \<Rightarrow> bool" where
  "wait_outcome env limit started = (\<lambda>(r, w').
     (\<forall>snap. r = Inr snap \<longrightarrow> snapshot_is_terminal snap)
   \<and> (\<forall>m. r = Inl (Error_Timeout m) \<longrightarrow> limit \<le> w_now w' - started)
   \<and> ((\<forall>n. e_latency env n = 0) \<longrightarrow> w_now w' - started \<le> limit))"

lemma await_loop_outcome:
  assumes "0 < delay" and "(\<forall>n. e_latency env n = 0) \<Longrightarrow> w_now w - started \<le> limit"
  shows "\<exists>y. await_loop env q name tid (Some limit) started delay w = Some y \<and> wait_outcome env limit started y"
  using assms
proof (induction "nat (limit - (w_now w - started))" arbitrary: delay w rule: less_induct)
  case less
  obtain r w1 where f: "fetch_task_result_snapshot env q name tid w = (r, w1)" by fastforce
  have fwd: "w_now w \<le> w_now w1" using forward_fetch f by (fastforce simp: forward_def dest: effectD)
  have still: "w_now w1 = w_now w" if "\<forall>n. e_latency env n = 0"
    using effectD [OF fetch_zero_latency [OF that] f] by (simp add: same_now_def)
  have not_timeout: "r \<noteq> Inl (Error_Timeout m)" for m
    using fetch_error_cases [of env Pool q name tid w] f by (auto simp: fetch_task_result_snapshot_def)
  define d where "d = min delay (limit - (w_now w1 - started))"
  have next_iteration: "\<exists>y. await_loop env q name tid (Some limit) started (next_backoff d)
      (snd (sleep env d () w1 :: (error + unit) \<times> world)) = Some y \<and> wait_outcome env limit started y"
    if "w_now w1 - started < limit"
  proof (rule less.hyps)
    have "0 < d" using less.prems(1) that by (simp add: d_def)
    then show "nat (limit - (w_now (snd (sleep env d () w1 :: (error + unit) \<times> world)) - started))
        < nat (limit - (w_now w - started))" "0 < next_backoff d"
      using fwd that by (simp_all add: w_now_sleep next_backoff_pos)
    show "w_now (snd (sleep env d () w1 :: (error + unit) \<times> world)) - started \<le> limit"
      if "\<forall>n. e_latency env n = 0"
      using that by (simp add: w_now_sleep d_def)
  qed
  have stop: "wait_outcome env limit started (x, w1)"
    if "\<And>m. x = Inl (Error_Timeout m) \<Longrightarrow> limit \<le> w_now w1 - started"
      "\<And>snap. x = Inr snap \<Longrightarrow> snapshot_is_terminal snap" for x
    using that still less.prems(2) by (auto simp: wait_outcome_def)
  show ?case
    unfolding await_loop.simps [of env q name tid "Some limit" started delay w] f
    using next_iteration not_timeout
    by (auto simp: d_def not_le split: sum.splits option.splits intro!: stop)
qed

text \<open>\<^bold>\<open>C18.\<close> A wait with a timeout always returns, whatever the database, the network and other
  sessions do: it returns a terminal snapshot or an error, reports the timeout only once the full
  timeout has elapsed, and when statements and wake-ups take no time it returns no later than the
  timeout (the last pause is cut to end at the deadline).\<close>

theorem wait_ends_by_deadline:
  "\<exists>r w'. await_task_result_snapshot env q name tid (Some timeout) w = Some (r, w')
    \<and> (\<forall>snap. r = Inr snap \<longrightarrow> snapshot_is_terminal snap)
    \<and> (\<forall>m. r = Inl (Error_Timeout m) \<longrightarrow> duration_nanos timeout \<le> w_now w' - w_now w)
    \<and> ((\<forall>n. e_latency env n = 0) \<longrightarrow> w_now w' - w_now w \<le> duration_nanos timeout)"
proof -
  have "\<exists>y. await_loop env q name tid (Some (duration_nanos timeout)) (w_now w)
      INITIAL_RESULT_BACKOFF w = Some y \<and> wait_outcome env (duration_nanos timeout) (w_now w) y"
    by (rule await_loop_outcome) (simp_all add: INITIAL_RESULT_BACKOFF_def duration_nanos_nonneg)
  then show ?thesis by (auto simp: await_task_result_snapshot_def wait_outcome_def)
qed

theorem wait_ends_by_deadline_witness:
  "\<exists>r w'. await_task_result_snapshot (quiet exact_pg) ''q'' ''mail'' 0
        (Some \<lparr>as_secs = 1, subsec_nanos = 0\<rparr>) (world_of demo_claimed) = Some (r, w')
    \<and> (\<forall>snap. r = Inr snap \<longrightarrow> snapshot_is_terminal snap) \<and> w_now w' \<le> 1000000000"
  using wait_ends_by_deadline [of "quiet exact_pg" "''q''" "''mail''" 0
      "\<lparr>as_secs = 1, subsec_nanos = 0\<rparr>" "world_of demo_claimed"]
  by (auto simp: duration_nanos_def)

end
