(* ===== verification/TaskContext.thy ===== *)
theory TaskContext
  imports TaskApi
begin

section \<open>The durable task context\<close>

text \<open>
  \<open>src/context.rs\<close>: the context a claimed attempt passes to its handler. It replays checkpointed
  steps from the cache loaded when the attempt starts, writes new checkpoints through the fenced
  database transition, suspends the run for durable sleeps, and waits for tasks of other queues.
  A step here is one call by itself; \<open>ConcurrentSteps\<close> adds the per-name locks and lets calls of one
  attempt interleave.
  An \<open>OffsetDateTime\<close> is a number of nanoseconds, a \<open>timestamptz\<close> one of microseconds; the parts of the
  \<open>time\<close> crate the code calls, and the driver's conversions between the two, are the record \<open>time_lib\<close>.
\<close>

subsection \<open>Asynchronous operations that may never return\<close>

definition areturn :: "'a \<Rightarrow> 'a async" where
  "areturn x = (\<lambda>w. Some (Inr x, w))"

definition alift :: "'a rust \<Rightarrow> 'a async" where
  "alift m = (\<lambda>w. Some (m w))"

definition abind :: "'a async \<Rightarrow> ('a \<Rightarrow> 'b async) \<Rightarrow> 'b async" where
  "abind m f = (\<lambda>w. case m w of
       None \<Rightarrow> None
     | Some (Inl e, w') \<Rightarrow> Some (Inl e, w')
     | Some (Inr x, w') \<Rightarrow> f x w')"

lemma async_apply [esm]:
  "areturn x w = Some (Inr x, w)"
  "alift m w = Some (m w)"
  by (simp_all add: areturn_def alift_def)

lemma abind_apply [esm]:
  "abind m f w = (case m w of None \<Rightarrow> None | Some (Inl e, w') \<Rightarrow> Some (Inl e, w')
     | Some (Inr x, w') \<Rightarrow> f x w')"
  by (simp add: abind_def)

definition async_effect :: "(world \<Rightarrow> world \<Rightarrow> bool) \<Rightarrow> 'a async \<Rightarrow> bool" where
  "async_effect R m \<longleftrightarrow> (\<forall>w r w'. m w = Some (r, w') \<longrightarrow> R w w')"

lemma async_effectD: "async_effect R m \<Longrightarrow> m w = Some (r, w') \<Longrightarrow> R w w'"
  by (simp add: async_effect_def)

lemma async_effect_lift [effects]: "effect R m \<Longrightarrow> async_effect R (alift m)"
  by (simp add: async_effect_def effect_def alift_def)

lemma async_effect_if [effects]:
  "async_effect R m \<Longrightarrow> async_effect R k \<Longrightarrow> async_effect R (if b then m else k)"
  by simp

lemma async_effect_option [effects]:
  "async_effect R m \<Longrightarrow> (\<And>y. async_effect R (f y)) \<Longrightarrow>
    async_effect R (case x of None \<Rightarrow> m | Some y \<Rightarrow> f y)"
  by (cases x) simp_all

lemma async_effect_let [effects]: "async_effect R (k x) \<Longrightarrow> async_effect R (let y = x in k y)"
  by simp

lemma async_effect_bind [effects]:
  assumes "effect_order R" and "async_effect R m" and "\<And>x. async_effect R (f x)"
  shows "async_effect R (abind m f)"
  unfolding async_effect_def
proof (intro allI impI)
  fix w r w'
  assume run: "abind m f w = Some (r, w')"
  then obtain y v where m: "m w = Some (y, v)" by (auto simp: abind_apply split: option.splits)
  have "R w v" using assms(2) m by (rule async_effectD)
  moreover have "R v w'"
    using run m effect_order.effect_refl [OF assms(1)] async_effectD [OF assms(3)]
    by (cases y) (auto simp: abind_apply)
  ultimately show "R w w'" by (rule effect_order.effect_trans [OF assms(1)])
qed

subsection \<open>The context and its checkpoint cache\<close>

record TaskContext =
  ctx_queue_name :: string
  ctx_task :: ClaimedTask
  ctx_headers :: json_object

definition load_cache :: "(string \<times> json) list \<Rightarrow> (string \<times> json) list" where
  "load_cache rows = fold (\<lambda>(name, state). AList.update name state) rows []"

definition TaskContext_new :: "env \<Rightarrow> string \<Rightarrow> ClaimedTask \<Rightarrow> TaskContext rust" where
  "TaskContext_new env queue_name task =
     ebind (map_err map_sqlx_error (execute env Pool
       (get_task_checkpoint_states (e_pg env) queue_name (claimed_task_id task) (claimed_run_id task))))
     (\<lambda>rows.
       eseq (emodify (\<lambda>w. w\<lparr>w_cache := load_cache rows\<rparr>))
       (ereturn \<lparr>ctx_queue_name = queue_name, ctx_task = task,
         ctx_headers = (case claimed_headers task of None \<Rightarrow> [] | Some hs \<Rightarrow> hs)\<rparr>))"

definition ctx_task_id :: "TaskContext \<Rightarrow> uuid" where
  "ctx_task_id self = claimed_task_id (ctx_task self)"

definition ctx_run_id :: "TaskContext \<Rightarrow> uuid" where
  "ctx_run_id self = claimed_run_id (ctx_task self)"

definition ctx_task_name :: "TaskContext \<Rightarrow> string" where
  "ctx_task_name self = claimed_task_name (ctx_task self)"

definition ctx_attempt :: "TaskContext \<Rightarrow> int" where
  "ctx_attempt self = claimed_attempt (ctx_task self)"

definition cached_checkpoint :: "string \<Rightarrow> json option rust" where
  "cached_checkpoint name = egets (\<lambda>w. map_of (w_cache w) name)"

definition cache_checkpoint :: "string \<Rightarrow> json \<Rightarrow> unit rust" where
  "cache_checkpoint name state = emodify (\<lambda>w. w\<lparr>w_cache := AList.update name state (w_cache w)\<rparr>)"

text \<open>\<open>row.get("checkpoint_state")\<close> would panic on a \<open>NULL\<close> column, which the function never
  returns.\<close>

definition persist_checkpoint :: "env \<Rightarrow> TaskContext \<Rightarrow> string \<Rightarrow> json \<Rightarrow> (json \<times> bool) rust" where
  "persist_checkpoint env self name value =
     ebind (map_err map_sqlx_error (execute env Pool
       (set_task_checkpoint_state (e_pg env) (ctx_queue_name self) (ctx_task_id self) name value
         (ctx_run_id self)))) (\<lambda>(state, written).
     case state of
       None \<Rightarrow> eraise (Error_Other ''unexpected null; try decoding as an `Option`'')
     | Some checkpoint_state \<Rightarrow>
         eseq (cache_checkpoint name checkpoint_state) (ereturn (checkpoint_state, written)))"

definition checkpoint ::
    "env \<Rightarrow> TaskContext \<Rightarrow> 'a ser \<Rightarrow> 'a dec \<Rightarrow> string \<Rightarrow> 'a async \<Rightarrow> 'a async" where
  "checkpoint env self ser dec name f =
     abind (alift (cached_checkpoint name)) (\<lambda>cached.
       case cached of
         Some state \<Rightarrow> alift (elift (serde (dec state)))
       | None \<Rightarrow>
           abind f (\<lambda>value.
           abind (alift (elift (serde (ser value)))) (\<lambda>serialized.
           abind (alift (persist_checkpoint env self name serialized)) (\<lambda>persisted.
             if snd persisted then areturn value
             else alift (elift (serde (dec (fst persisted))))))))"

subsection \<open>Steps\<close>

definition ctx_step ::
    "env \<Rightarrow> TaskContext \<Rightarrow> 'a ser \<Rightarrow> 'a dec \<Rightarrow> Step \<Rightarrow> 'a async \<Rightarrow> 'a async" where
  "ctx_step env self ser dec step f =
     abind (alift (elift (workflow_storage_name STEP_PREFIX (step_name step)))) (\<lambda>name.
       checkpoint env self ser dec name f)"

definition ctx_step_keyed ::
    "env \<Rightarrow> TaskContext \<Rightarrow> 'a ser \<Rightarrow> 'a dec \<Rightarrow> KeyedStep \<Rightarrow> 'a async \<Rightarrow> 'a async" where
  "ctx_step_keyed env self ser dec step f =
     abind (alift (elift (keyed_workflow_storage_name KEYED_STEP_PREFIX (step_name (keyed_step step))
       (keyed_key step)))) (\<lambda>name. checkpoint env self ser dec name f)"

subsection \<open>Durable sleeps\<close>

text \<open>From the \<open>time\<close> crate: the \<open>serde\<close> form of a timestamp, \<open>SignedDuration::try_from\<close> (in
  nanoseconds) and \<open>OffsetDateTime::checked_add\<close>; from \<open>sqlx\<close>: how an \<open>OffsetDateTime\<close> is encoded as a
  \<open>timestamptz\<close> parameter (which drops what is finer than a microsecond, and can fail) and how a
  \<open>timestamptz\<close> column is decoded.\<close>

record time_lib =
  tl_to_value :: "int ser"
  tl_from_value :: "int dec"
  tl_signed :: "duration \<Rightarrow> string + int"
  tl_checked_add :: "int \<Rightarrow> int \<Rightarrow> int option"
  tl_encode :: "int \<Rightarrow> sqlx_error + int"
  tl_decode :: "int \<Rightarrow> int"

datatype ScheduleOutcome = Sched_Ready | Sched_Suspended | Sched_Cancelled

definition schedule_of_text :: "fmt \<Rightarrow> string \<Rightarrow> error + ScheduleOutcome" where
  "schedule_of_text F outcome =
     (if outcome = ''ready'' then Inr Sched_Ready
      else if outcome = ''suspended'' then Inr Sched_Suspended
      else if outcome = ''cancelled'' then Inr Sched_Cancelled
      else Inl (Error_Other (''PostgreSQL returned unknown schedule outcome '' @ f_debug F outcome)))"

definition ctx_database_time :: "env \<Rightarrow> time_lib \<Rightarrow> int rust" where
  "ctx_database_time env tlib =
     ebind (map_err Error_Database (execute env Pool (current_time (e_pg env)))) (\<lambda>now.
     ereturn (tl_decode tlib now))"

definition ctx_schedule_run :: "env \<Rightarrow> time_lib \<Rightarrow> TaskContext \<Rightarrow> int \<Rightarrow> ScheduleOutcome rust" where
  "ctx_schedule_run env tlib self wake_at =
     ebind (map_err map_sqlx_error
       (ebind (elift (tl_encode tlib wake_at)) (\<lambda>parameter.
        execute env Pool (schedule_run (e_pg env) (ctx_queue_name self) (ctx_run_id self) parameter))))
     (\<lambda>outcome. elift (schedule_of_text (e_fmt env) outcome))"

definition sleep_until_inner :: "env \<Rightarrow> time_lib \<Rightarrow> TaskContext \<Rightarrow> Sleep \<Rightarrow> int \<Rightarrow> unit rust" where
  "sleep_until_inner env tlib self sl wake_at =
     ebind (elift (workflow_storage_name SLEEP_PREFIX (sleep_name sl))) (\<lambda>name.
     ebind (cached_checkpoint name) (\<lambda>cached.
     ebind (case cached of
         Some state \<Rightarrow> elift (serde (tl_from_value tlib state))
       | None \<Rightarrow>
           ebind (elift (serde (tl_to_value tlib wake_at))) (\<lambda>serialized.
           ebind (persist_checkpoint env self name serialized) (\<lambda>persisted.
             elift (serde (tl_from_value tlib (fst persisted)))))) (\<lambda>actual_wake_at.
     ebind (ctx_schedule_run env tlib self actual_wake_at) (\<lambda>outcome.
       case outcome of
         Sched_Ready \<Rightarrow> ereturn ()
       | Sched_Suspended \<Rightarrow> eraise Error_Suspended
       | Sched_Cancelled \<Rightarrow> eraise Error_Cancelled))))"

definition ctx_sleep_until :: "env \<Rightarrow> time_lib \<Rightarrow> TaskContext \<Rightarrow> Sleep \<Rightarrow> int \<Rightarrow> unit rust" where
  "ctx_sleep_until env tlib self sl wake_at = sleep_until_inner env tlib self sl wake_at"

definition ctx_sleep_for :: "env \<Rightarrow> time_lib \<Rightarrow> TaskContext \<Rightarrow> Sleep \<Rightarrow> duration \<Rightarrow> unit rust" where
  "ctx_sleep_for env tlib self sl d =
     ebind (elift (map_sum Error_InvalidOptions id (tl_signed tlib d))) (\<lambda>nanos.
     ebind (ctx_database_time env tlib) (\<lambda>now.
       case tl_checked_add tlib now nanos of
         None \<Rightarrow> eraise (Error_InvalidOptions ''sleep wake time is out of range'')
       | Some wake_at \<Rightarrow> sleep_until_inner env tlib self sl wake_at))"

subsection \<open>Waiting for another queue's task\<close>

text \<open>\<open>TaskWaitCheckpoint\<close>: the persisted task name and the decoded output.\<close>

definition wait_to_value :: "'a ser \<Rightarrow> (string \<times> 'a) ser" where
  "wait_to_value ser = (\<lambda>(name, output).
     res_bind (ser output) (\<lambda>j.
       Inr (JObj (json_insert ''output'' j (json_insert ''taskName'' (JStr name) [])))))"

definition wait_fields :: "json \<Rightarrow> (json \<times> json) option" where
  "wait_fields j =
     (case j of
        JObj kvs \<Rightarrow>
          (case (map_of kvs ''taskName'', map_of kvs ''output'') of
             (Some n, Some v) \<Rightarrow> Some (n, v) | _ \<Rightarrow> None)
      | JArr [n, v] \<Rightarrow> Some (n, v)
      | _ \<Rightarrow> None)"

definition wait_from_value :: "'a dec \<Rightarrow> (string \<times> 'a) dec" where
  "wait_from_value dec j =
     (case wait_fields j of
        Some (JStr name, v) \<Rightarrow> res_bind (dec v) (\<lambda>output. Inr (name, output))
      | _ \<Rightarrow> Inl ''invalid type or missing field'')"

definition wait_for_output ::
    "env \<Rightarrow> 'a dec \<Rightarrow> TaskRef \<Rightarrow> duration option \<Rightarrow> (string \<times> 'a) async" where
  "wait_for_output env dec task timeout =
     abind (await_task_result_snapshot env (ref_queue_name task) (ref_task_name task)
       (ref_task_id task) timeout) (\<lambda>snapshot.
     alift (elift (res_bind (decode_result dec snapshot) (\<lambda>output.
       Inr (ref_task_name task, output)))))"

definition await_task_ref ::
    "env \<Rightarrow> fmt \<Rightarrow> TaskContext \<Rightarrow> 'a ser \<Rightarrow> 'a dec \<Rightarrow> TaskRef \<Rightarrow> duration option \<Rightarrow> 'a async" where
  "await_task_ref env F self ser dec task timeout =
     (if ref_queue_name task = ctx_queue_name self
      then alift (eraise (Error_InvalidOptions
        ''TaskContext::await_task cannot wait on tasks in the same queue because this can deadlock workers. Spawn the child in a different queue.''))
      else
        abind (checkpoint env self (wait_to_value ser) (wait_from_value dec)
          (task_wait_name (f_uuid F) (ref_queue_name task) (ref_task_id task))
          (wait_for_output env dec task timeout)) (\<lambda>waited.
          if fst waited \<noteq> ref_task_name task
          then alift (eraise (Error_TaskNameMismatch (ref_task_id task) (ref_task_name task) (fst waited)))
          else areturn (snd waited)))"

record TaskWait =
  wait_context :: TaskContext
  wait_task :: TaskRef
  wait_timeout :: "duration option"

definition ctx_await_task :: "TaskContext \<Rightarrow> TaskRef \<Rightarrow> TaskWait" where
  "ctx_await_task self task = \<lparr>wait_context = self, wait_task = task, wait_timeout = None\<rparr>"

definition TaskWait_timeout :: "duration \<Rightarrow> TaskWait \<Rightarrow> TaskWait" where
  "TaskWait_timeout d self = self\<lparr>wait_timeout := Some d\<rparr>"

definition TaskWait_into_future :: "env \<Rightarrow> fmt \<Rightarrow> 'a ser \<Rightarrow> 'a dec \<Rightarrow> TaskWait \<Rightarrow> 'a async" where
  "TaskWait_into_future env F ser dec self =
     await_task_ref env F (wait_context self) ser dec (wait_task self) (wait_timeout self)"

end
