(* ===== verification/Futures.thy ===== *)
theory Futures
  imports TaskContext
begin

section \<open>Futures\<close>

text \<open>
  A Rust future over the world of a process. Polling it runs it to its next await point, and it need
  not ever resolve (\<open>examples/cancellation.rs\<close>), so the type is a codatatype: \<open>Resolved\<close> is the output
  of a future that is done, \<open>Awaiting\<close> a future that has to be polled again. The futures of handlers and
  of the middleware around them are values of this type; whoever polls them decides what else happens
  between two of their steps, and may drop them where they stand.
\<close>

codatatype 'a future =
    Resolved 'a
  | Awaiting "world \<Rightarrow> 'a future \<times> world"

text \<open>\<open>std::future::pending\<close>.\<close>

primcorec never :: "'a future" where
  "never = Awaiting (\<lambda>w. map_prod (\<lambda>_. never) id ((), w))"

lemma never_eq: "never = Awaiting (\<lambda>w. (never, w))"
  by (subst never.code) simp

text \<open>An operation without await points of its own, and a future after an effect.\<close>

definition future_of :: "(world, 'e, 'a) esm \<Rightarrow> ('e + 'a) future" where
  "future_of m = Awaiting (\<lambda>w. case m w of (r, w') \<Rightarrow> (Resolved r, w'))"

definition after_effect :: "(world \<Rightarrow> world) \<Rightarrow> 'a future \<Rightarrow> 'a future" where
  "after_effect f h = Awaiting (\<lambda>w. (h, f w))"

text \<open>\<open>.await\<close> inside an \<open>async\<close> block: the rest of the block runs once the awaited future has resolved.\<close>

primcorec fbind :: "'a future \<Rightarrow> ('a \<Rightarrow> 'b future) \<Rightarrow> 'b future" where
  "fbind h k =
     (case h of
        Resolved x \<Rightarrow> k x
      | Awaiting f \<Rightarrow> Awaiting (\<lambda>w. map_prod (\<lambda>h'. fbind h' k) id (f w)))"

lemma fbind_Resolved [simp]: "fbind (Resolved x) k = k x"
  by (subst fbind.code) simp

lemma fbind_Awaiting: "fbind (Awaiting f) k = Awaiting (\<lambda>w. map_prod (\<lambda>h'. fbind h' k) id (f w))"
  by (subst fbind.code) simp

text \<open>\<open>.await?\<close> on a future of a result.\<close>

definition fthen :: "('e + 'a) future \<Rightarrow> ('a \<Rightarrow> ('e + 'b) future) \<Rightarrow> ('e + 'b) future" where
  "fthen h k = fbind h (\<lambda>r. case r of Inl e \<Rightarrow> Resolved (Inl e) | Inr x \<Rightarrow> k x)"

subsection \<open>What a future resolves to on its own\<close>

inductive resolves :: "'a future \<Rightarrow> world \<Rightarrow> 'a \<Rightarrow> world \<Rightarrow> bool" where
  resolved: "resolves (Resolved x) w x w"
| polled: "f w = (h, v) \<Longrightarrow> resolves h v x w' \<Longrightarrow> resolves (Awaiting f) w x w'"

lemma resolves_future_of: "m w = (r, w') \<Longrightarrow> resolves (future_of m) w r w'"
  unfolding future_of_def by (rule polled [OF _ resolved]) simp

lemma resolves_bind: "resolves h w x v \<Longrightarrow> resolves (k x) v y w' \<Longrightarrow> resolves (fbind h k) w y w'"
proof (induction rule: resolves.induct)
  case (polled f w h v x w')
  then show ?case unfolding fbind_Awaiting by (intro resolves.polled) simp_all
qed simp

lemma resolves_then: "resolves h w (Inr x) v \<Longrightarrow> resolves (k x) v y w' \<Longrightarrow> resolves (fthen h k) w y w'"
  unfolding fthen_def by (erule resolves_bind) simp

lemma never_resolves: "\<not> resolves never w x w'"
proof -
  have "resolves h w x w' \<Longrightarrow> h \<noteq> never" for h
  proof (induction rule: resolves.induct)
    case (resolved x w)
    then show ?case using never_eq by (metis future.distinct(1))
  next
    case (polled f w h v x w')
    then show ?case using never_eq by (metis future.inject(2) prod.inject)
  qed
  then show ?thesis by blast
qed

subsection \<open>What every step of a future respects\<close>

coinductive future_ok :: "(world \<Rightarrow> world \<Rightarrow> bool) \<Rightarrow> 'a future \<Rightarrow> bool" for R where
  future_ok_resolved: "future_ok R (Resolved x)"
| future_ok_awaiting: "(\<And>w h w'. f w = (h, w') \<Longrightarrow> R w w' \<and> future_ok R h) \<Longrightarrow> future_ok R (Awaiting f)"

lemma future_okD: "future_ok R (Awaiting f) \<Longrightarrow> f w = (h, w') \<Longrightarrow> R w w' \<and> future_ok R h"
  by (erule future_ok.cases) auto

lemma future_ok_mono:
  assumes "future_ok R h" and "\<And>w w'. R w w' \<Longrightarrow> S w w'"
  shows "future_ok S h"
  using assms(1)
  by (coinduction arbitrary: h rule: future_ok.coinduct) (use assms(2) in \<open>auto elim: future_ok.cases\<close>)

lemma future_ok_conj:
  assumes "future_ok R h" and "future_ok S h"
  shows "future_ok (\<lambda>w w'. R w w' \<and> S w w') h"
  using assms
proof (coinduction arbitrary: h rule: future_ok.coinduct)
  case future_ok
  then show ?case by (cases h) (auto dest: future_okD)
qed

lemma future_of_ok: "effect R m \<Longrightarrow> future_ok R (future_of m)"
  unfolding future_of_def
  by (rule future_ok_awaiting) (auto simp: effect_def split: prod.splits intro: future_ok_resolved)

lemma after_effect_ok: "(\<And>w. R w (f w)) \<Longrightarrow> future_ok R h \<Longrightarrow> future_ok R (after_effect f h)"
  by (auto simp: after_effect_def intro: future_ok_awaiting)

lemma never_ok: "(\<And>w. R w w) \<Longrightarrow> future_ok R never"
  by (coinduction rule: future_ok.coinduct) (use never_eq in auto)

lemma fbind_ok:
  assumes "future_ok R h" and "\<And>x. future_ok R (k x)"
  shows "future_ok R (fbind h k)"
proof -
  have "(\<exists>h. g = fbind h k \<and> future_ok R h) \<or> future_ok R g \<Longrightarrow> future_ok R g" for g
  proof (coinduction arbitrary: g rule: future_ok.coinduct)
    case future_ok
    then show ?case
    proof
      assume "\<exists>h. g = fbind h k \<and> future_ok R h"
      then obtain h where g: "g = fbind h k" and h: "future_ok R h" by blast
      show ?thesis
      proof (cases h)
        case (Resolved x)
        then have "future_ok R g" using assms(2) g by simp
        then show ?thesis by (cases g) (auto dest: future_okD)
      next
        case (Awaiting f)
        then show ?thesis using g h
          by (auto simp: fbind_Awaiting map_prod_def split: prod.splits dest!: future_okD)
      qed
    next
      assume "future_ok R g"
      then show ?thesis by (cases g) (auto dest: future_okD)
    qed
  qed
  then show ?thesis using assms(1) by blast
qed

lemma fthen_ok: "future_ok R h \<Longrightarrow> (\<And>x. future_ok R (k x)) \<Longrightarrow> future_ok R (fthen h k)"
  unfolding fthen_def by (rule fbind_ok) (auto split: sum.split intro: future_ok_resolved)

lemmas future_oks = future_ok_resolved future_of_ok after_effect_ok fbind_ok fthen_ok

end
