(* ===== verification/Execution.thy ===== *)
theory Execution
  imports Futures
begin

section \<open>Executing one claimed attempt\<close>

text \<open>
  \<open>src/execution.rs\<close> (the middleware boundary around one handler invocation), the service stack
  of \<open>src/steda.rs\<close>, and of \<open>src/executor.rs\<close> (the durable envelope) what comes before and after the race
  between the handler and lease supervision: the first supervision, the context and the final
  transition. The handler is code of the application: a function of its input and context to a future
  that may return, fail, unwind or never resolve. \<open>Race\<close> puts the pieces together into \<open>execute_task\<close>.
\<close>

subsection \<open>Handlers and services\<close>

datatype panic_payload = Panic_str string | Panic_String string | Panic_other

datatype stop = Failed_with error | Unwound panic_payload

type_synonym 'a fallible = "(stop + 'a) future"
type_synonym ErasedTaskExecutor = "json \<Rightarrow> TaskContext \<Rightarrow> json fallible"

record ExecutionRequest =
  req_context :: TaskContext
  req_input :: json
  req_executor :: ErasedTaskExecutor

definition ExecutionRequest_new :: "TaskContext \<Rightarrow> json \<Rightarrow> ErasedTaskExecutor \<Rightarrow> ExecutionRequest" where
  "ExecutionRequest_new context input executor =
     \<lparr>req_context = context, req_input = input, req_executor = executor\<rparr>"

definition request_into_parts :: "ExecutionRequest \<Rightarrow> TaskContext \<times> json \<times> ErasedTaskExecutor" where
  "request_into_parts self = (req_context self, req_input self, req_executor self)"

record ExecutionResponse =
  resp_output :: json

definition ExecutionResponse_new :: "json \<Rightarrow> ExecutionResponse" where
  "ExecutionResponse_new output = \<lparr>resp_output = output\<rparr>"

record service =
  svc_poll_ready :: "unit fallible"
  svc_call :: "ExecutionRequest \<Rightarrow> ExecutionResponse fallible"

definition ExecutionService :: service where
  "ExecutionService = \<lparr>svc_poll_ready = Resolved (Inr ()),
     svc_call = (\<lambda>request. case request_into_parts request of (context, input, executor) \<Rightarrow>
       fthen (executor input context) (\<lambda>output. Resolved (Inr (ExecutionResponse_new output))))\<rparr>"

text \<open>The shared stack waits for the inner service under its mutex, then calls it outside.\<close>

definition SharedExecutionService_new :: "service \<Rightarrow> service" where
  "SharedExecutionService_new inner = \<lparr>svc_poll_ready = Resolved (Inr ()),
     svc_call = (\<lambda>request. fthen (svc_poll_ready inner) (\<lambda>_. svc_call inner request))\<rparr>"

text \<open>\<open>tower_layer::Stack::new(inner, outer)\<close> wraps \<open>outer\<close> around \<open>inner\<close>.\<close>

type_synonym layers = "service \<Rightarrow> service"

definition StedaBuilder_new :: layers where
  "StedaBuilder_new = (\<lambda>s. s)"

definition StedaBuilder_layer :: "layers \<Rightarrow> layers \<Rightarrow> layers" where
  "StedaBuilder_layer self layer = (\<lambda>s. layer (self s))"

definition StedaBuilder_build :: "layers \<Rightarrow> service Steda" where
  "StedaBuilder_build self =
     \<lparr>steda_execution = SharedExecutionService_new (self ExecutionService)\<rparr>"

definition Steda_from_pool :: "service Steda" where
  "Steda_from_pool = StedaBuilder_build StedaBuilder_new"

text \<open>Opening the pool is the driver's work: a parameter, whose error is reported as it is.\<close>

definition Steda_connect :: "(string \<Rightarrow> unit sqlx) \<Rightarrow> string \<Rightarrow> service Steda rust" where
  "Steda_connect pool_connect database_url =
     ebind (map_err Error_Database (pool_connect database_url)) (\<lambda>_. ereturn Steda_from_pool)"

subsection \<open>The execution guard\<close>

text \<open>\<open>TaskExecution::start\<close>, \<open>finish\<close> and the implicit drop at the end of the scope.\<close>

definition start_guard :: "world \<Rightarrow> world" where
  "start_guard w = w\<lparr>w_guard := Some (w_now w)\<rparr>"

definition guard_at :: "int \<Rightarrow> world \<Rightarrow> TaskExecution" where
  "guard_at started w = TaskExecution_start (max 0 (w_now w - started))"

definition finish :: "ExecutionOutcome \<Rightarrow> unit rust" where
  "finish out = emodify (\<lambda>w. case w_guard w of
       None \<Rightarrow> w
     | Some started \<Rightarrow>
         w\<lparr>w_metrics := finish_execution (guard_at started w) out (w_metrics w), w_guard := None\<rparr>)"

definition drop_guard :: "world \<Rightarrow> world" where
  "drop_guard w = (case w_guard w of
       None \<Rightarrow> w
     | Some started \<Rightarrow>
         w\<lparr>w_metrics := drop_execution (guard_at started w) (w_metrics w), w_guard := None\<rparr>)"

definition lease_lost :: "unit rust" where
  "lease_lost = eseq (finish Outcome_LeaseLost) (eraise Error_LeaseLost)"

text \<open>\<open>execution.finish(outcome)\<close>, then the error for a lost lease.\<close>

definition finish_with :: "ExecutionOutcome \<Rightarrow> unit rust" where
  "finish_with out =
     eseq (finish out) (if out = Outcome_LeaseLost then eraise Error_LeaseLost else ereturn ())"

subsection \<open>Supervision\<close>

text \<open>\<open>None\<close> for \<open>Running\<close>, where \<open>execution_outcome_from_supervision\<close> is unreachable.\<close>

fun execution_outcome_from_supervision :: "RunSupervision \<Rightarrow> ExecutionOutcome option" where
  "execution_outcome_from_supervision Sup_Running = None"
| "execution_outcome_from_supervision Sup_Completed = Some Outcome_Completed"
| "execution_outcome_from_supervision Sup_Failed = Some Outcome_Failed"
| "execution_outcome_from_supervision Sup_Cancelled = Some Outcome_Cancelled"
| "execution_outcome_from_supervision Sup_Suspended = Some Outcome_Suspended"
| "execution_outcome_from_supervision Sup_LeaseLost = Some Outcome_LeaseLost"

definition persisted_execution_outcome ::
    "env \<Rightarrow> string \<Rightarrow> uuid \<Rightarrow> ExecutionOutcome option rust" where
  "persisted_execution_outcome env queue_name run_id =
     ebind (client_supervise_run env queue_name run_id None) (\<lambda>supervision.
       ereturn (execution_outcome_from_supervision supervision))"

definition MAX_SUPERVISION_INTERVAL :: int where "MAX_SUPERVISION_INTERVAL = 1000000000"

definition supervision_interval :: "int \<Rightarrow> int" where
  "supervision_interval lease_seconds =
     min ((case u64_try_from lease_seconds of None \<Rightarrow> 1 | Some s \<Rightarrow> s) * 1000000000 div 2)
       MAX_SUPERVISION_INTERVAL"

subsection \<open>Final transitions\<close>

definition executor_complete_run :: "env \<Rightarrow> string \<Rightarrow> uuid \<Rightarrow> json \<Rightarrow> unit rust" where
  "executor_complete_run env queue_name run_id value =
     ebind (map_err map_sqlx_error (execute env Pool
       (complete_run (e_pg env) queue_name run_id value))) (\<lambda>completed.
       if completed then ereturn () else eraise Error_Cancelled)"

definition executor_fail_run :: "env \<Rightarrow> string \<Rightarrow> uuid \<Rightarrow> json \<Rightarrow> unit rust" where
  "executor_fail_run env queue_name run_id failure =
     map_err map_sqlx_error (execute env Pool (fail_run (e_pg env) queue_name run_id failure False))"

definition str_contains :: "string \<Rightarrow> string \<Rightarrow> bool" where
  "str_contains hay needle \<longleftrightarrow>
     list_ex (\<lambda>i. take (length needle) (drop i hay) = needle) [0..<Suc (length hay)]"

text \<open>The chain of \<open>std::error::Error::source\<close>.\<close>

definition error_sources :: "fmt \<Rightarrow> error \<Rightarrow> string list" where
  "error_sources F e =
     (case e of
        Error_Database x \<Rightarrow> fst (f_sqlx F x) # snd (f_sqlx F x)
      | Error_Serialization m \<Rightarrow> [m]
      | Error_Task chain \<Rightarrow> chain
      | _ \<Rightarrow> [])"

definition error_name :: "error \<Rightarrow> string" where
  "error_name e =
     (case e of
        Error_Timeout _ \<Rightarrow> ''TimeoutError''
      | Error_Cancelled \<Rightarrow> ''CancelledTask''
      | Error_FailedRun \<Rightarrow> ''FailedTask''
      | Error_LeaseLost \<Rightarrow> ''LeaseLost''
      | Error_Suspended \<Rightarrow> ''SuspendTask''
      | _ \<Rightarrow> ''Error'')"

definition failure_json :: "string \<Rightarrow> string \<Rightarrow> json" where
  "failure_json name message =
     JObj (json_insert ''message'' (JStr message) (json_insert ''name'' (JStr name) []))"

definition serialize_error :: "fmt \<Rightarrow> error \<Rightarrow> json" where
  "serialize_error F e =
     failure_json (error_name e)
       (fold (\<lambda>rendered message.
          if str_contains message rendered then message else message @ '': '' @ rendered)
        (error_sources F e) (error_text F e))"

fun panic_message :: "panic_payload \<Rightarrow> string" where
  "panic_message (Panic_str m) = m"
| "panic_message (Panic_String m) = m"
| "panic_message Panic_other = ''unknown panic payload''"

text \<open>\<open>match \<dots>.await\<close> on a result.\<close>

definition etry :: "('s, 'e, 'a) esm \<Rightarrow> ('s, 'f, 'e + 'a) esm" where
  "etry m = (\<lambda>s. case m s of (r, t) \<Rightarrow> (Inr r, t))"

definition finish_failure_transition ::
    "env \<Rightarrow> string \<Rightarrow> uuid \<Rightarrow> error + unit \<Rightarrow> unit rust" where
  "finish_failure_transition env queue_name run_id r =
     (case r of
        Inr _ \<Rightarrow>
          ebind (persisted_execution_outcome env queue_name run_id) (\<lambda>persisted.
            finish (if persisted = Some Outcome_Cancelled then Outcome_Cancelled else Outcome_Failed))
      | Inl Error_Cancelled \<Rightarrow> finish Outcome_Cancelled
      | Inl Error_FailedRun \<Rightarrow> finish Outcome_Failed
      | Inl Error_LeaseLost \<Rightarrow> lease_lost
      | Inl err \<Rightarrow> eraise err)"

definition fail_attempt :: "env \<Rightarrow> string \<Rightarrow> uuid \<Rightarrow> json \<Rightarrow> unit rust" where
  "fail_attempt env queue_name run_id failure =
     ebind (etry (executor_fail_run env queue_name run_id failure))
       (finish_failure_transition env queue_name run_id)"

text \<open>The errors a handler may return on its own, so that they prove nothing.\<close>

fun control_error :: "error \<Rightarrow> bool" where
  "control_error Error_Suspended = True"
| "control_error Error_Cancelled = True"
| "control_error Error_FailedRun = True"
| "control_error Error_LeaseLost = True"
| "control_error _ = False"

definition settle ::
    "env \<Rightarrow> fmt \<Rightarrow> string \<Rightarrow> uuid \<Rightarrow> panic_payload + (error + ExecutionResponse) \<Rightarrow> unit rust" where
  "settle env F queue_name run_id run_result =
     (case run_result of
        Inr (Inr response) \<Rightarrow>
          ebind (etry (executor_complete_run env queue_name run_id (resp_output response))) (\<lambda>r.
            case r of
              Inr _ \<Rightarrow> finish Outcome_Completed
            | Inl Error_Cancelled \<Rightarrow> finish Outcome_Cancelled
            | Inl Error_LeaseLost \<Rightarrow> lease_lost
            | Inl err \<Rightarrow> eraise err)
      | Inr (Inl err) \<Rightarrow>
          if control_error err then
            ebind (persisted_execution_outcome env queue_name run_id) (\<lambda>persisted.
              case persisted of
                Some outcome \<Rightarrow> finish_with outcome
              | None \<Rightarrow> fail_attempt env queue_name run_id (serialize_error F err))
          else fail_attempt env queue_name run_id (serialize_error F err)
      | Inl payload \<Rightarrow>
          fail_attempt env queue_name run_id
            (failure_json ''Panic'' (''panic: '' @ panic_message payload)))"

subsection \<open>One attempt\<close>

record ExecutionContext =
  xc_queue_name :: string
  xc_registry :: "(string \<times> ErasedTaskExecutor) list"
  xc_service :: service

definition ExecutionContext_new ::
    "string \<Rightarrow> (string \<times> ErasedTaskExecutor) list \<Rightarrow> service \<Rightarrow> ExecutionContext" where
  "ExecutionContext_new queue_name registry service =
     \<lparr>xc_queue_name = queue_name, xc_registry = registry, xc_service = service\<rparr>"

text \<open>Up to the handler: the registry, the first supervision and the context. \<open>None\<close> is an attempt that
  ended without its handler.\<close>

definition attempt_entry ::
    "env \<Rightarrow> fmt \<Rightarrow> ExecutionContext \<Rightarrow> ClaimedTask \<Rightarrow> int \<Rightarrow> (ErasedTaskExecutor \<times> TaskContext) option rust" where
  "attempt_entry env F xc task lease_seconds =
     (case map_of (xc_registry xc) (claimed_task_name task) of
        None \<Rightarrow> eraise (Error_Other (''database returned unsupported task ''
          @ f_debug F (claimed_task_name task) @ '' to capability-filtered worker''))
      | Some task_executor \<Rightarrow>
          ebind (client_supervise_run env (xc_queue_name xc) (claimed_run_id task)
            (Some lease_seconds)) (\<lambda>initial_supervision.
          case execution_outcome_from_supervision initial_supervision of
            Some outcome \<Rightarrow> eseq (finish_with outcome) (ereturn None)
          | None \<Rightarrow>
              ebind (etry (TaskContext_new env (xc_queue_name xc) task)) (\<lambda>created.
              case created of
                Inr ctx \<Rightarrow> ereturn (Some (task_executor, ctx))
              | Inl err \<Rightarrow>
                  (case err of
                     Error_InvalidTaskHeaders _ \<Rightarrow>
                       eseq (fail_attempt env (xc_queue_name xc) (claimed_run_id task) (serialize_error F err))
                         (ereturn None)
                   | Error_LeaseLost \<Rightarrow> eseq lease_lost (ereturn None)
                   | _ \<Rightarrow> eraise err))))"

end
