(* ===== verification/Race.thy ===== *)
theory Race
  imports Execution
begin

section \<open>The race between a handler and its supervision\<close>

text \<open>
  \<open>execute_task\<close> of \<open>src/executor.rs\<close>: after the entry the handler's future, under \<open>catch_unwind\<close>, and the
  supervision loop run under one \<open>tokio::select!\<close>. Both are processes that interleave at their await
  points over the shared world; the first to resolve decides how the attempt ends, and the other is
  dropped where it stands. What a dropped handler did before it was dropped stays done. An attempt is a
  relation, since it need not end: a handler may never resolve.
\<close>

subsection \<open>The race\<close>

text \<open>What \<open>catch_unwind\<close> makes of the handler's future.\<close>

type_synonym run_result = "panic_payload + (error + ExecutionResponse)"

fun caught :: "stop + ExecutionResponse \<Rightarrow> run_result" where
  "caught (Inl (Unwound p)) = Inl p"
| "caught (Inl (Failed_with e)) = Inr (Inl e)"
| "caught (Inr x) = Inr (Inr x)"

text \<open>Supervision sleeps until an instant, is about to ask the database, or has resolved.\<close>

datatype supervisor = Napping int | Polling | Observed "error + ExecutionOutcome"

record race =
  rc_world :: world
  rc_handler :: "(stop + ExecutionResponse) future"
  rc_supervisor :: supervisor

definition race_start :: "int \<Rightarrow> (stop + ExecutionResponse) future \<Rightarrow> world \<Rightarrow> race" where
  "race_start lease_seconds h w =
     \<lparr>rc_world = w, rc_handler = h, rc_supervisor = Napping (w_now w + supervision_interval lease_seconds)\<rparr>"

definition observed :: "int \<Rightarrow> error + RunSupervision \<Rightarrow> world \<Rightarrow> supervisor" where
  "observed lease_seconds r w =
     (case r of
        Inl e \<Rightarrow> Observed (Inl e)
      | Inr supervision \<Rightarrow>
          (case execution_outcome_from_supervision supervision of
             None \<Rightarrow> Napping (w_now w + supervision_interval lease_seconds)
           | Some outcome \<Rightarrow> Observed (Inr outcome)))"

text \<open>A timer fires at or after its instant.\<close>

inductive race_step :: "env \<Rightarrow> string \<Rightarrow> uuid \<Rightarrow> int \<Rightarrow> race \<Rightarrow> race \<Rightarrow> bool"
  for env :: env and queue_name :: string and run_id :: uuid and lease_seconds :: int where
  handler_runs: "rc_handler s = Awaiting f \<Longrightarrow> f (rc_world s) = (h, w') \<Longrightarrow>
     race_step env queue_name run_id lease_seconds s (s\<lparr>rc_handler := h, rc_world := w'\<rparr>)"
| supervisor_wakes: "rc_supervisor s = Napping until \<Longrightarrow> until \<le> now \<Longrightarrow>
     w_now (begin_event env (rc_world s)) \<le> now \<Longrightarrow>
     race_step env queue_name run_id lease_seconds s
       (s\<lparr>rc_world := (begin_event env (rc_world s))\<lparr>w_now := now\<rparr>, rc_supervisor := Polling\<rparr>)"
| supervisor_polls: "rc_supervisor s = Polling \<Longrightarrow>
     client_supervise_run env queue_name run_id (Some lease_seconds) (rc_world s) = (r, w') \<Longrightarrow>
     race_step env queue_name run_id lease_seconds s
       (s\<lparr>rc_world := w', rc_supervisor := observed lease_seconds r w'\<rparr>)"

text \<open>The branch \<open>select!\<close> takes; when both futures are ready it takes either.\<close>

datatype winner = Handler_won run_result | Supervisor_won "error + ExecutionOutcome"

inductive race_won :: "race \<Rightarrow> winner \<Rightarrow> bool" for s :: race where
  handler_won: "rc_handler s = Resolved x \<Longrightarrow> race_won s (Handler_won (caught x))"
| supervisor_won: "rc_supervisor s = Observed r \<Longrightarrow> race_won s (Supervisor_won r)"

definition after_race :: "env \<Rightarrow> fmt \<Rightarrow> string \<Rightarrow> uuid \<Rightarrow> winner \<Rightarrow> unit rust" where
  "after_race env F queue_name run_id win =
     (case win of
        Handler_won run_result \<Rightarrow> settle env F queue_name run_id run_result
      | Supervisor_won (Inl e) \<Rightarrow> eraise e
      | Supervisor_won (Inr outcome) \<Rightarrow> finish_with outcome)"

inductive run_race :: "env \<Rightarrow> fmt \<Rightarrow> string \<Rightarrow> uuid \<Rightarrow> int \<Rightarrow> (stop + ExecutionResponse) future \<Rightarrow> world
    \<Rightarrow> error + unit \<Rightarrow> world \<Rightarrow> bool"
  for env :: env and F :: fmt and queue_name :: string and run_id :: uuid and lease_seconds :: int
    and h :: "(stop + ExecutionResponse) future" and w :: world where
  run_race: "(race_step env queue_name run_id lease_seconds)\<^sup>*\<^sup>* (race_start lease_seconds h w) s \<Longrightarrow>
     race_won s win \<Longrightarrow> after_race env F queue_name run_id win (rc_world s) = (r, w') \<Longrightarrow>
     run_race env F queue_name run_id lease_seconds h w r w'"

text \<open>A whole attempt, given the future that the execution service returns for a request.\<close>

inductive attempt_run :: "env \<Rightarrow> fmt \<Rightarrow> ExecutionContext \<Rightarrow> (ExecutionRequest \<Rightarrow> (stop + ExecutionResponse) future)
    \<Rightarrow> ClaimedTask \<Rightarrow> int \<Rightarrow> world \<Rightarrow> error + unit \<Rightarrow> world \<Rightarrow> bool"
  for env :: env and F :: fmt and xc :: ExecutionContext
    and call :: "ExecutionRequest \<Rightarrow> (stop + ExecutionResponse) future"
    and task :: ClaimedTask and lease_seconds :: int and w :: world where
  entry_failed: "attempt_entry env F xc task lease_seconds (start_guard w) = (Inl e, v) \<Longrightarrow>
     attempt_run env F xc call task lease_seconds w (Inl e) (drop_guard v)"
| ended_early: "attempt_entry env F xc task lease_seconds (start_guard w) = (Inr None, v) \<Longrightarrow>
     attempt_run env F xc call task lease_seconds w (Inr ()) (drop_guard v)"
| raced: "attempt_entry env F xc task lease_seconds (start_guard w) = (Inr (Some (task_executor, ctx)), v) \<Longrightarrow>
     run_race env F (xc_queue_name xc) (claimed_run_id task) lease_seconds
       (call (ExecutionRequest_new ctx (claimed_params task) task_executor)) v r u \<Longrightarrow>
     attempt_run env F xc call task lease_seconds w r (drop_guard u)"

inductive_cases attempt_runE: "attempt_run env F xc call task lease w r w'"

text \<open>The attempt of a worker calls the execution service of its queue.\<close>

definition execute_task :: "env \<Rightarrow> fmt \<Rightarrow> ExecutionContext \<Rightarrow> ClaimedTask \<Rightarrow> int \<Rightarrow> world \<Rightarrow> error + unit \<Rightarrow> world \<Rightarrow> bool" where
  "execute_task env F xc task lease_seconds = attempt_run env F xc (svc_call (xc_service xc)) task lease_seconds"

subsection \<open>An undisturbed handler\<close>

text \<open>The interleaving in which the handler resolves before supervision wakes for the first time.\<close>

lemma handler_alone:
  assumes "resolves h w x w'"
  shows "(race_step env q i lease)\<^sup>*\<^sup>* \<lparr>rc_world = w, rc_handler = h, rc_supervisor = sv\<rparr>
    \<lparr>rc_world = w', rc_handler = Resolved x, rc_supervisor = sv\<rparr>"
  using assms
proof (induction rule: resolves.induct)
  case (polled f w h v x w')
  let ?s = "\<lparr>rc_world = w, rc_handler = Awaiting f, rc_supervisor = sv\<rparr>"
  have "race_step env q i lease ?s (?s\<lparr>rc_handler := h, rc_world := v\<rparr>)"
    by (rule handler_runs [of _ f]) (use polled.hyps(1) in simp_all)
  then show ?case using polled.IH by (simp add: converse_rtranclp_into_rtranclp)
qed simp

lemma execute_task_alone:
  assumes entry: "attempt_entry env F xc task lease (start_guard w) = (Inr (Some (task_executor, ctx)), v)"
    and handler: "resolves (svc_call (xc_service xc) (ExecutionRequest_new ctx (claimed_params task) task_executor)) v x u"
    and settled: "settle env F (xc_queue_name xc) (claimed_run_id task) (caught x) u = (r, w')"
  shows "execute_task env F xc task lease w r (drop_guard w')"
proof -
  let ?t = "\<lparr>rc_world = u, rc_handler = Resolved x,
    rc_supervisor = Napping (w_now v + supervision_interval lease)\<rparr>"
  have "run_race env F (xc_queue_name xc) (claimed_run_id task) lease
      (svc_call (xc_service xc) (ExecutionRequest_new ctx (claimed_params task) task_executor)) v r w'"
    by (rule run_race [OF _ handler_won [of ?t x]])
      (use handler_alone [OF handler] settled in \<open>simp_all add: race_start_def after_race_def\<close>)
  then show ?thesis unfolding execute_task_def by (rule raced [OF entry])
qed

end
