(* ===== verification/Worker.thy ===== *)
theory Worker
  imports Race
begin

section \<open>The worker\<close>

text \<open>
  \<open>src/worker.rs\<close>: the builder with its deferred first error, the classification of errors, and
  the polling loop. The loop is a step relation: its control points are the phases, and the shutdown
  future may resolve at any time. An attempt the loop spawned on the runtime shows in the loop as one
  step, in any phase, when it ends (what other attempts do meanwhile reaches it as another session); an
  attempt that never ends never makes that step, and the loop goes on waiting for it.
\<close>

subsection \<open>Building a worker\<close>

record WorkerRuntime =
  rt_lease_duration :: duration
  rt_concurrency :: nat

definition WorkerRuntime_default :: WorkerRuntime where
  "WorkerRuntime_default =
     \<lparr>rt_lease_duration = \<lparr>as_secs = 120, subsec_nanos = 0\<rparr>, rt_concurrency = 1\<rparr>"

record WorkerBuilder =
  wb_queue :: "service Queue"
  wb_registry :: "(string \<times> ErasedTaskExecutor) list"
  wb_runtime :: WorkerRuntime
  wb_error :: "error option"

definition WorkerBuilder_new :: "service Queue \<Rightarrow> WorkerBuilder" where
  "WorkerBuilder_new queue = \<lparr>wb_queue = queue, wb_registry = [], wb_runtime = WorkerRuntime_default,
     wb_error = None\<rparr>"

definition Queue_worker :: "service Queue \<Rightarrow> WorkerBuilder" where
  "Queue_worker self = WorkerBuilder_new self"

definition WorkerBuilder_lease_duration :: "duration \<Rightarrow> WorkerBuilder \<Rightarrow> WorkerBuilder" where
  "WorkerBuilder_lease_duration lease_duration self =
     (if wb_error self \<noteq> None then self
      else case duration_seconds lease_duration of
          Inl e \<Rightarrow> self\<lparr>wb_error := Some e\<rparr>
        | Inr n \<Rightarrow>
            if n = 0
            then self\<lparr>wb_error := Some (Error_InvalidOptions
              ''lease duration must round to at least 1 second'')\<rparr>
            else self\<lparr>wb_runtime := (wb_runtime self)\<lparr>rt_lease_duration := lease_duration\<rparr>\<rparr>)"

definition WorkerBuilder_concurrency :: "nat \<Rightarrow> WorkerBuilder \<Rightarrow> WorkerBuilder" where
  "WorkerBuilder_concurrency concurrency self =
     (if wb_error self \<noteq> None then self
      else if concurrency = 0
      then self\<lparr>wb_error := Some (Error_InvalidOptions ''worker concurrency must be at least 1'')\<rparr>
      else if i32_try_from (int concurrency) = None
      then self\<lparr>wb_error := Some (Error_InvalidOptions
        ''worker concurrency exceeds PostgreSQL integer range'')\<rparr>
      else self\<lparr>wb_runtime := (wb_runtime self)\<lparr>rt_concurrency := concurrency\<rparr>\<rparr>)"

text \<open>The type-erased closure: decode the input, execute, encode the output.\<close>

definition erase_executor ::
    "'i dec \<Rightarrow> 'o ser \<Rightarrow> ('i \<Rightarrow> TaskContext \<Rightarrow> 'o fallible) \<Rightarrow> ErasedTaskExecutor" where
  "erase_executor dec ser executor = (\<lambda>raw context.
     fthen (Resolved (map_sum Failed_with id (serde (dec raw)))) (\<lambda>input.
     fthen (executor input context) (\<lambda>output.
     Resolved (map_sum Failed_with id (serde (ser output))))))"

definition register_erased :: "fmt \<Rightarrow> string \<Rightarrow> ErasedTaskExecutor \<Rightarrow> WorkerBuilder \<Rightarrow> WorkerBuilder" where
  "register_erased F task_name erased self =
     (if wb_error self \<noteq> None then self
      else case validate_task_name task_name of
          Inl e \<Rightarrow> self\<lparr>wb_error := Some e\<rparr>
        | Inr _ \<Rightarrow>
            if map_of (wb_registry self) task_name \<noteq> None
            then self\<lparr>wb_error := Some (Error_InvalidOptions
              (''task '' @ f_debug F task_name @ '' is already registered''))\<rparr>
            else self\<lparr>wb_registry := (task_name, erased) # wb_registry self\<rparr>)"

definition register_task_executor ::
    "fmt \<Rightarrow> 'i dec \<Rightarrow> 'o ser \<Rightarrow> Task \<Rightarrow> ('i \<Rightarrow> TaskContext \<Rightarrow> 'o fallible) \<Rightarrow> WorkerBuilder \<Rightarrow> WorkerBuilder" where
  "register_task_executor F dec ser task executor self =
     register_erased F (Task_name task) (erase_executor dec ser executor) self"

definition WorkerBuilder_task ::
    "fmt \<Rightarrow> 'i dec \<Rightarrow> 'o ser \<Rightarrow> Task \<Rightarrow> ('i \<Rightarrow> TaskContext \<Rightarrow> 'o fallible) \<Rightarrow> WorkerBuilder \<Rightarrow> WorkerBuilder" where
  "WorkerBuilder_task F dec ser task handler self = register_task_executor F dec ser task handler self"

definition WorkerBuilder_task_executor ::
    "fmt \<Rightarrow> 'i dec \<Rightarrow> 'o ser \<Rightarrow> Task \<Rightarrow> ('i \<Rightarrow> TaskContext \<Rightarrow> 'o fallible) \<Rightarrow> WorkerBuilder \<Rightarrow> WorkerBuilder" where
  "WorkerBuilder_task_executor F dec ser task executor self =
     register_task_executor F dec ser task executor self"

record Worker =
  wk_queue :: "service Queue"
  wk_registry :: "(string \<times> ErasedTaskExecutor) list"
  wk_runtime :: WorkerRuntime

definition WorkerBuilder_build :: "WorkerBuilder \<Rightarrow> error + Worker" where
  "WorkerBuilder_build self =
     (case wb_error self of
        Some e \<Rightarrow> Inl e
      | None \<Rightarrow>
          if wb_registry self = []
          then Inl (Error_InvalidOptions ''worker requires at least one task'')
          else Inr \<lparr>wk_queue = wb_queue self, wk_registry = wb_registry self,
            wk_runtime = wb_runtime self\<rparr>)"

definition registered_task_names :: "(string \<times> ErasedTaskExecutor) list \<Rightarrow> string list" where
  "registered_task_names registry = map fst registry"

definition worker_lease_seconds :: "duration \<Rightarrow> error + int" where
  "worker_lease_seconds lease_duration = duration_seconds lease_duration"

definition default_worker_id :: "fmt \<Rightarrow> uuid \<Rightarrow> string" where
  "default_worker_id F u = ''worker:'' @ f_uuid F u"

subsection \<open>Errors\<close>

definition is_transient_sqlstate :: "string \<Rightarrow> bool" where
  "is_transient_sqlstate code \<longleftrightarrow>
     take 2 code = ''08'' \<or> take 2 code = ''40'' \<or> take 2 code = ''53''
   \<or> code \<in> {''55P03'', ''57P01'', ''57P02'', ''57P03''}"

definition is_transient_worker_error :: "error \<Rightarrow> bool" where
  "is_transient_worker_error e =
     (case e of
        Error_Database d \<Rightarrow>
          (case d of
             Sqlx_Io \<Rightarrow> True
           | Sqlx_Tls \<Rightarrow> True
           | Sqlx_PoolTimedOut \<Rightarrow> True
           | Sqlx_Database code msg \<Rightarrow> (case code of None \<Rightarrow> False | Some c \<Rightarrow> is_transient_sqlstate c)
           | _ \<Rightarrow> False)
      | _ \<Rightarrow> False)"

text \<open>A joined task: the text of a \<open>JoinError\<close>, or what the spawned future returned.\<close>

type_synonym joined = "string + (error + unit)"

definition terminal_join_error :: "joined \<Rightarrow> error option" where
  "terminal_join_error j =
     (case j of
        Inr (Inr _) \<Rightarrow> None
      | Inr (Inl err) \<Rightarrow> Some err
      | Inl msg \<Rightarrow> Some (Error_Other (''worker task join failed: '' @ msg)))"

text \<open>The spawned future keeps the worker alive through attempt-level and transient errors.\<close>

definition attempt_outcome :: "error + unit \<Rightarrow> error + unit" where
  "attempt_outcome r =
     (case r of
        Inr _ \<Rightarrow> Inr ()
      | Inl err \<Rightarrow>
          if control_error err then Inr ()
          else if is_transient_worker_error err then Inr ()
          else Inl err)"

subsection \<open>The loop\<close>

record worker_cfg =
  cf_env :: env
  cf_fmt :: fmt
  cf_xc :: ExecutionContext
  cf_worker_id :: string
  cf_lease_seconds :: int
  cf_concurrency :: nat
  cf_supported :: "string list"

datatype slot = In_flight ClaimedTask | Joined joined

datatype phase = Top | Full | Claim int | Pause | Drain | Exited "error + unit"

record worker_state =
  ws_world :: world
  ws_phase :: phase
  ws_executing :: "slot list"
  ws_terminal :: "error option"
  ws_shutdown :: bool

definition is_joined :: "slot \<Rightarrow> bool" where
  "is_joined s = (case s of Joined _ \<Rightarrow> True | In_flight _ \<Rightarrow> False)"

definition available :: "worker_cfg \<Rightarrow> worker_state \<Rightarrow> nat" where
  "available cf s = cf_concurrency cf - length (ws_executing s)"

text \<open>The entry of \<open>run_worker_loop\<close>.\<close>

definition worker_config :: "env \<Rightarrow> fmt \<Rightarrow> uuid \<Rightarrow> Worker \<Rightarrow> error + worker_cfg" where
  "worker_config env F u self =
     res_bind (worker_lease_seconds (rt_lease_duration (wk_runtime self))) (\<lambda>lease_seconds.
       Inr \<lparr>cf_env = env, cf_fmt = F,
         cf_xc = ExecutionContext_new (Queue_name (wk_queue self)) (wk_registry self)
           (Queue_execution (wk_queue self)),
         cf_worker_id = default_worker_id F u, cf_lease_seconds = lease_seconds,
         cf_concurrency = rt_concurrency (wk_runtime self),
         cf_supported = registered_task_names (wk_registry self)\<rparr>)"

definition worker_start :: "world \<Rightarrow> worker_state" where
  "worker_start w = \<lparr>ws_world = w, ws_phase = Top, ws_executing = [], ws_terminal = None,
     ws_shutdown = False\<rparr>"

text \<open>A joined task leaves the set; a fatal one ends the loop.\<close>

definition join_one :: "slot list \<Rightarrow> joined \<Rightarrow> worker_state \<Rightarrow> worker_state" where
  "join_one rest j s =
     (case terminal_join_error j of
        None \<Rightarrow> s\<lparr>ws_executing := rest, ws_phase := Top\<rparr>
      | Some err \<Rightarrow> s\<lparr>ws_executing := rest, ws_terminal := Some err, ws_phase := Drain\<rparr>)"

text \<open>\<open>DEFAULT_POLL_INTERVAL\<close>, 250 ms.\<close>

definition DEFAULT_POLL_INTERVAL :: int where "DEFAULT_POLL_INTERVAL = 250000000"

definition claim_query :: "worker_cfg \<Rightarrow> int \<Rightarrow> ClaimedTask list rust" where
  "claim_query cf batch_size =
     client_claim_tasks (cf_env cf) (xc_queue_name (cf_xc cf)) (cf_worker_id cf) (cf_lease_seconds cf)
       batch_size (cf_supported cf)"

text \<open>What the loop does with the answer of a claim query.\<close>

definition after_claim :: "error + ClaimedTask list \<Rightarrow> worker_state \<Rightarrow> worker_state" where
  "after_claim r s =
     (case r of
        Inr ts \<Rightarrow>
          s\<lparr>ws_world := (ws_world s)\<lparr>w_metrics := record_claimed (length ts) (w_metrics (ws_world s))\<rparr>,
            ws_executing := ws_executing s @ map In_flight ts,
            ws_phase := (if ts = [] then Pause else Top)\<rparr>
      | Inl err \<Rightarrow>
          let s1 = s\<lparr>ws_world := (ws_world s)\<lparr>w_metrics := record_claim_error (w_metrics (ws_world s))\<rparr>\<rparr> in
          if is_transient_worker_error err then s1\<lparr>ws_phase := Pause\<rparr>
          else s1\<lparr>ws_terminal := Some err, ws_phase := Drain\<rparr>)"

text \<open>A spawned attempt that panics outside the handler (\<open>attempt_crashes\<close>) has run some of its
  statements and drops its metrics guard on the way out.\<close>

definition loop_result :: "worker_state \<Rightarrow> error + unit" where
  "loop_result s = (case ws_terminal s of Some err \<Rightarrow> Inl err | None \<Rightarrow> Inr ())"

inductive worker_step :: "worker_cfg \<Rightarrow> worker_state \<Rightarrow> worker_state \<Rightarrow> bool" for cf :: worker_cfg where
  try_join: "ws_phase s = Top \<Longrightarrow> ws_executing s = xs @ Joined j # ys \<Longrightarrow>
     worker_step cf s (join_one (xs @ ys) j s)"
| at_capacity: "ws_phase s = Top \<Longrightarrow> \<not> list_ex is_joined (ws_executing s) \<Longrightarrow> available cf s = 0 \<Longrightarrow>
     worker_step cf s (s\<lparr>ws_phase := Full\<rparr>)"
| full_shutdown: "ws_phase s = Full \<Longrightarrow> ws_shutdown s \<Longrightarrow> worker_step cf s (s\<lparr>ws_phase := Drain\<rparr>)"
| full_join: "ws_phase s = Full \<Longrightarrow> ws_executing s = xs @ Joined j # ys \<Longrightarrow>
     worker_step cf s (join_one (xs @ ys) j s)"
| full_empty: "ws_phase s = Full \<Longrightarrow> ws_executing s = [] \<Longrightarrow> worker_step cf s (s\<lparr>ws_phase := Top\<rparr>)"
| stop_claiming: "ws_phase s = Top \<Longrightarrow> \<not> list_ex is_joined (ws_executing s) \<Longrightarrow> available cf s \<noteq> 0 \<Longrightarrow>
     ws_shutdown s \<Longrightarrow> worker_step cf s (s\<lparr>ws_phase := Drain\<rparr>)"
| start_claim: "ws_phase s = Top \<Longrightarrow> \<not> list_ex is_joined (ws_executing s) \<Longrightarrow> available cf s \<noteq> 0 \<Longrightarrow>
     \<not> ws_shutdown s \<Longrightarrow> i32_try_from (int (available cf s)) = Some k \<Longrightarrow>
     worker_step cf s (s\<lparr>ws_phase := Claim k\<rparr>)"
| batch_too_large: "ws_phase s = Top \<Longrightarrow> \<not> list_ex is_joined (ws_executing s) \<Longrightarrow> \<not> ws_shutdown s \<Longrightarrow>
     i32_try_from (int (available cf s)) = None \<Longrightarrow>
     worker_step cf s (s\<lparr>ws_executing := [], ws_phase := Exited (Inl (Error_InvalidOptions
       ''worker concurrency exceeds PostgreSQL integer range''))\<rparr>)"
| finish_claim: "ws_phase s = Claim k \<Longrightarrow> claim_query cf k (ws_world s) = (r, w') \<Longrightarrow>
     worker_step cf s (after_claim r (s\<lparr>ws_world := w'\<rparr>))"
| pause_shutdown: "ws_phase s = Pause \<Longrightarrow> ws_shutdown s \<Longrightarrow> worker_step cf s (s\<lparr>ws_phase := Drain\<rparr>)"
| pause_over: "ws_phase s = Pause \<Longrightarrow>
     worker_step cf s (s\<lparr>ws_world := snd (sleep (cf_env cf) DEFAULT_POLL_INTERVAL () (ws_world s)
       :: (error + unit) \<times> world), ws_phase := Top\<rparr>)"
| drain_join: "ws_phase s = Drain \<Longrightarrow> ws_executing s = xs @ Joined j # ys \<Longrightarrow>
     worker_step cf s (s\<lparr>ws_executing := xs @ ys,
       ws_terminal := (if ws_terminal s = None then terminal_join_error j else ws_terminal s)\<rparr>)"
| drain_done: "ws_phase s = Drain \<Longrightarrow> ws_executing s = [] \<Longrightarrow>
     worker_step cf s (s\<lparr>ws_phase := Exited (loop_result s)\<rparr>)"
| attempt_ends: "\<forall>r. ws_phase s \<noteq> Exited r \<Longrightarrow> ws_executing s = xs @ In_flight task # ys \<Longrightarrow>
     execute_task (cf_env cf) (cf_fmt cf) (cf_xc cf) task (cf_lease_seconds cf) (ws_world s) r w' \<Longrightarrow>
     worker_step cf s (s\<lparr>ws_executing := xs @ Joined (Inr (attempt_outcome r)) # ys, ws_world := w'\<rparr>)"
| attempt_crashes: "\<forall>r. ws_phase s \<noteq> Exited r \<Longrightarrow> ws_executing s = xs @ In_flight task # ys \<Longrightarrow>
     (db_step (e_pg (cf_env cf)))\<^sup>*\<^sup>* (w_db (ws_world s)) (w_db w') \<Longrightarrow>
     same_metrics (start_guard (ws_world s)) w' \<Longrightarrow>
     worker_step cf s (s\<lparr>ws_executing := xs @ Joined (Inl msg) # ys, ws_world := drop_guard w'\<rparr>)"
| shutdown_resolves: "worker_step cf s (s\<lparr>ws_shutdown := True\<rparr>)"

text \<open>\<open>run_worker_loop\<close> returns \<open>r\<close> when its loop has exited with it; \<open>shutdown\<close> says whether the
  caller's future had resolved by then. \<open>Worker::run\<close> passes a future that never does.\<close>

definition run_worker_loop ::
    "env \<Rightarrow> fmt \<Rightarrow> uuid \<Rightarrow> Worker \<Rightarrow> bool \<Rightarrow> world \<Rightarrow> error + unit \<Rightarrow> world \<Rightarrow> bool" where
  "run_worker_loop env F u self shutdown w r w' \<longleftrightarrow>
     (case worker_config env F u self of
        Inl e \<Rightarrow> r = Inl e \<and> w' = w
      | Inr cf \<Rightarrow> (\<exists>s. (worker_step cf)\<^sup>*\<^sup>* (worker_start w) s \<and> ws_phase s = Exited r
          \<and> ws_shutdown s = shutdown \<and> ws_world s = w'))"

definition Worker_run_until ::
    "env \<Rightarrow> fmt \<Rightarrow> uuid \<Rightarrow> Worker \<Rightarrow> bool \<Rightarrow> world \<Rightarrow> error + unit \<Rightarrow> world \<Rightarrow> bool" where
  "Worker_run_until env F u self shutdown = run_worker_loop env F u self shutdown"

definition Worker_run :: "env \<Rightarrow> fmt \<Rightarrow> uuid \<Rightarrow> Worker \<Rightarrow> world \<Rightarrow> error + unit \<Rightarrow> world \<Rightarrow> bool" where
  "Worker_run env F u self = Worker_run_until env F u self False"

end
