(* ===== verification/ClaimProperties.thy ===== *)
theory ClaimProperties
  imports DbProperties
begin

section \<open>Claims, checkpoints, cleanup and manual retry\<close>

text \<open>
  Exclusive ownership of claimed runs, the order in which runs are claimed, permanence of
  checkpoints, what cleanup may delete, manual retry, and the database facts in which the code
  departs from its documentation.
\<close>

subsection \<open>Maintenance never frees an owned run\<close>

text \<open>A run keeps its state or ends.\<close>

definition settles :: "store \<Rightarrow> store \<Rightarrow> bool" where
  "settles s s' \<longleftrightarrow> (\<forall>r\<in>set (runs s). \<exists>r'\<in>set (runs s'). r_id r' = r_id r
     \<and> (r_state r' = r_state r \<or> state_terminal (r_state r')))"

lemma settles_refl: "settles s s"
  by (auto simp: settles_def)

lemma settles_trans: "settles a b \<Longrightarrow> settles b c \<Longrightarrow> settles a c"
  unfolding settles_def by (metis)

lemma settles_update:
  assumes "keeps_run_identity f" and "\<And>r. state_terminal (r_state (f r))"
    and "runs s' = update_where P f (runs s) @ new"
  shows "settles s s'"
  unfolding settles_def
proof
  fix r assume "r \<in> set (runs s)"
  then have "(if P r then f r else r) \<in> set (runs s')" by (auto simp: assms(3) update_where_def)
  then show "\<exists>r'\<in>set (runs s'). r_id r' = r_id r \<and> (r_state r' = r_state r \<or> state_terminal (r_state r'))"
    using assms(1,2) by (intro bexI [of _ "if P r then f r else r"]) (auto simp: keeps_run_identity_def)
qed

lemma settles_stores:
  "settles s (cancelled_store n tid s)" "settles s (exhausted_store n i reason tid a s)"
  "settles s (failed_store n i reason s)" "settles s (retried_store n i reason tid a st avail j s)"
  by (rule settles_update [where new = "[]", OF keeps_identity(2)]
      settles_update [where new = "[]", OF keeps_identity(5)] settles_update [OF keeps_identity(5)];
    simp add: cancelled_store_def exhausted_store_def failed_store_def retried_store_def
      cancel_run_def fail_row_def)+

definition db_settles :: "string \<Rightarrow> db \<Rightarrow> db \<Rightarrow> bool" where
  "db_settles q db db' \<longleftrightarrow> settles (store_at q db) (store_at q db')"

lemma db_settles_put:
  "map_of (storage db) q = Some s \<Longrightarrow> settles s s' \<Longrightarrow> db_settles q db (put_store q s' d)"
  by (simp add: db_settles_def store_at_put) (simp add: store_at_def)

lemma db_settles_same: "storage d = storage db \<Longrightarrow> db_settles q db d"
  by (simp add: db_settles_def store_at_def settles_refl)

lemma cancel_task_settles:
  assumes inv: "db_inv pg db" and run: "cancel_task pg q tid db = (Inr b, db')"
  shows "db_settles q db db'"
  using run
proof (rule cancel_task_found)
  fix s t
  assume q: "queue_name_ok pg q" "map_of (storage db) q = Some s" "find_row t_id tid (tasks s) = Some t"
  have "store_ok pg s" using db_inv_store [OF inv q(2)] by (simp add: store_inv_def)
  note eval = cancel_task_eval [OF q(1,2) this q(3)]
  show ?thesis
    using run db_settles_put [OF q(2) settles_stores(1)] db_settles_same [of "tick db" db q]
    unfolding eval by (auto split: if_splits)
qed

lemma fail_run_settles:
  assumes inv: "db_inv pg db" and inj: "inj (pg_uuid pg)"
    and run: "fail_run pg q i reason expired db = (Inr b, db')"
  shows "db_settles q db db'"
proof -
  from run obtain x d where lock: "lock_running_attempt pg q i expired db = (Inr x, d)"
    by (auto simp: fail_run_def ebind_Inr_iff)
  from lock inv show ?thesis
  proof (rule attempt_success)
    fix s r t lease
    assume a: "queue_name_ok pg q" "map_of (storage db) q = Some s" "running_attempt s i r t lease"
      "expired = (lease \<le> pg_clock pg (seq db))"
    note put = db_settles_put [OF a(2)]
    show ?thesis
      using run put [OF settles_stores(1)] put [OF settles_stores(2)] put [OF settles_stores(4)]
        put [OF settles_trans [OF settles_stores(3) settles_stores(1)]]
      unfolding fail_run_eval [OF inv inj a] by (auto split: sum.splits bool.splits if_splits)
  qed
qed

lemma reap_expired_run_settles:
  assumes inv: "db_inv pg db" and inj: "inj (pg_uuid pg)"
    and run: "reap_expired_run pg q i db = (Inr b, db')"
  shows "db_settles q db db'"
proof -
  from run obtain x d where lock: "lock_attempt_context pg q i db = (Inr x, d)"
    by (auto simp: reap_expired_run_def ebind_Inr_iff)
  then have d: "d = tick db" by (rule lock_attempt_context_success)
  then have dinv: "db_inv pg d" using db_inv_tick [OF inv] by (simp add: tick_def)
  from run lock have "db' = d \<or> (\<exists>reason. fail_run pg q i reason True d = (Inr (), db'))"
    by (auto simp: reap_expired_run_def ebind_Inr_iff eseq_Inr_iff esm_Inr_iff split: option.splits if_splits)
  then show ?thesis
    using fail_run_settles [OF dinv inj] d by (auto simp: db_settles_def settles_refl)
qed

lemma ecount_settles:
  assumes step: "\<And>x d b d'. db_inv pg d \<Longrightarrow> f x d = (Inr b, d') \<Longrightarrow> db_inv pg d' \<and> db_settles q d d'"
    and inv: "db_inv pg db" and run: "ecount f xs db = (Inr n, db')"
  shows "db_settles q db db'"
proof -
  have "establishes (\<lambda>d. db_inv pg d \<and> db_settles q db d) (ecount f xs)
      (\<lambda>_ d. db_inv pg d \<and> db_settles q db d)"
    by (intro establishes_ecount establishesI)
      (metis step db_settles_def settles_trans)
  from establishesD [OF this _ run] inv show ?thesis by (simp add: db_settles_def settles_refl)
qed

lemma claim_maintained_settles:
  assumes inv: "db_inv pg db" and inj: "inj (pg_uuid pg)" and m: "claim_maintained pg q k db d"
  shows "db_settles q db d"
proof -
  from m obtain n m d1 d2 where d1: "cancel_expired_tasks pg q k (tick db) = (Inr n, d1)"
    and d2: "reap_expired_runs pg q k d1 = (Inr m, d2)" and d: "d = tick d2"
    unfolding claim_maintained_def by blast
  have i0: "db_inv pg (tick db)" "db_inv pg (tick (tick db))"
    using db_inv_tick [OF inv] by (simp_all add: tick_def)
  note i1 = cancel_expired_tasks_inv [OF i0(1) d1]
  have i1': "db_inv pg (tick d1)" using db_inv_tick [OF i1] by (simp add: tick_def)
  from d1 obtain xs where "ecount (cancel_task pg q) xs (tick (tick db)) = (Inr n, d1)"
    unfolding cancel_expired_tasks_def locked_rows_def scanned_rows_def by (auto simp: sql_steps validate_step tick_def)
  then have "db_settles q (tick (tick db)) d1"
    using ecount_settles [OF _ i0(2), of "cancel_task pg q"] cancel_task_inv cancel_task_settles by blast
  moreover from d2 obtain ys where "ecount (reap_expired_run pg q) ys (tick d1) = (Inr m, d2)"
    unfolding reap_expired_runs_def locked_rows_def scanned_rows_def by (auto simp: sql_steps validate_step tick_def)
  then have "db_settles q (tick d1) d2"
    using ecount_settles [OF _ i1', of "reap_expired_run pg q"] reap_expired_run_inv [OF _ inj]
      reap_expired_run_settles [OF _ inj] by blast
  ultimately show ?thesis by (auto simp: d db_settles_def intro: settles_trans)
qed

subsection \<open>Exclusive claims\<close>

lemma txn_success: "run_txn m db = (Inr x, db') \<Longrightarrow> m db = (Inr x, db')"
  by (auto simp: run_txn_def split: prod.splits sum.splits if_splits)

lemma claimed_attempt:
  assumes inv: "store_inv pg n s" and c: "candidate_runs now k names locked scans s = Inr cs"
    and rt: "(r, t) \<in> set cs"
  shows "running_attempt (claimed_store w expires now cs s) (r_id r) (start_run w expires now r)
    (start_task now r t) expires"
proof -
  have ok: "store_ok pg s" using inv by (simp add: store_inv_def)
  note facts = candidate_runs_facts(3) [OF ok c]
  note f = facts [OF rt]
  have ids: "distinct (map r_id (runs s))" "distinct (map t_id (tasks s))" using ok by (simp_all add: store_ok_iff)
  have mem: "r_id r \<in> set (map (\<lambda>(r, t). r_id r) cs)" "t_id t \<in> set (map (\<lambda>(r, t). r_task_id r) cs)"
    using rt f by force+
  obtain r' where r': "(r', t) \<in> set cs" "start_claimed_task now cs t = start_task now r' t"
    using start_claimed_task_eq [OF inv c _ mem(2)] f by blast
  have "r' = r"
    using facts [OF r'(1)] f store_inv_run_unique [OF inv, of r' r] by (simp add: claimable_def)
  with r' have start: "start_claimed_task now cs t = start_task now r t" by simp
  have "find_row r_id (r_id r) (runs s) = Some r" "find_row t_id (t_id t) (tasks s) = Some t"
    using ids f by (simp_all add: find_row_eq_Some)
  moreover have "t_id (start_claimed_task now cs t') = t_id t'" for t'
    by (auto simp: start_claimed_task_def start_task_def split: option.splits)
  ultimately have "find_row r_id (r_id r) (runs (claimed_store w expires now cs s)) = Some (start_run w expires now r)"
    "find_row t_id (r_task_id r) (tasks (claimed_store w expires now cs s)) = Some (start_task now r t)"
    using mem f start
    by (simp_all add: claimed_store_def find_row_update_where start_run_def)
  then show ?thesis by (simp add: running_attempt_def start_run_def start_task_def)
qed

lemma settled_claimable_not_running:
  assumes "settles s sd" and si: "store_inv pg n sd" and r: "r \<in> set (runs sd)" "claimable now names (r, t)"
  shows "\<not> (\<exists>r0\<in>set (runs s). r_id r0 = r_id r \<and> r_state r0 = Running)"
proof
  assume "\<exists>r0\<in>set (runs s). r_id r0 = r_id r \<and> r_state r0 = Running"
  then obtain r0 r' :: run_row where "r_state r0 = Running" "r' \<in> set (runs sd)" "r_id r' = r_id r"
    "r_state r' = r_state r0 \<or> state_terminal (r_state r')"
    using assms(1) unfolding settles_def by metis
  moreover have "r' = r" using calculation r(1) store_inv_run_unique [OF si, of r' r] by simp
  ultimately show False using r(2) by (auto simp: claimable_def)
qed

text \<open>\<^bold>\<open>C3.\<close> Exclusive claims: a claim returns at most the requested number of distinct runs, all of
  tasks the worker can execute; each is afterwards the authoritative running attempt of its task,
  owned by the claiming worker with a full lease from the claim's own clock reading; and none of
  them was running when the call began, so a run is never handed to two workers.\<close>

theorem claims_are_exclusive:
  assumes "pg_ok pg" and "db_inv pg db" and "map_of (storage db) q = Some s"
    and "run_txn (claim_tasks pg q w lease k names) db = (Inr cs, db')"
  shows "length cs \<le> nat k \<and> distinct (map k_run_id cs)
    \<and> (\<exists>s'. map_of (storage db') q = Some s'
      \<and> (\<forall>c\<in>set cs. k_task_name c \<in> set names
        \<and> (\<exists>r t. running_attempt s' (k_run_id c) r t (pg_clock pg (seq db' - 1) + lease * 1000000)
            \<and> r_claimed_by r = Some w \<and> k_task_id c = t_id t \<and> k_attempt c = r_attempt r)
        \<and> \<not> (\<exists>r\<in>set (runs s). r_id r = k_run_id c \<and> r_state r = Running)))"
proof -
  have inj: "inj (pg_uuid pg)" using assms(1) by (simp add: pg_ok_def)
  have run: "claim_tasks pg q w lease k names db = (Inr cs, db')"
    using assms(4) by (auto simp: run_txn_def split: prod.splits sum.splits if_splits)
  obtain d where m: "claim_maintained pg q k db d" and w: "\<not> pg_blank pg w"
    and c: "claim_statement pg q w (pg_clock pg (seq d - 1) + lease * 1000000) (pg_clock pg (seq d - 1))
      k names d = (Inr cs, db')"
    using claim_tasks_success [OF run] by metis
  define now where "now = pg_clock pg (seq d - 1)"
  note dinv = claim_maintained_inv [OF assms(2) inj m]
  from c obtain sd where sd: "map_of (storage d) q = Some sd"
    unfolding claim_statement_def locked_rows_def scanned_rows_def by (auto simp: sql_steps)
  obtain cands where cands: "candidate_runs now k names (pg_locked pg (seq d)) (pg_scans pg (seq d)) sd = Inr cands"
    and cs: "cs = map claimed_row cands"
    and db': "db' = put_store q (claimed_store w (now + lease * 1000000) now cands sd) d"
    using c unfolding claim_statement_eval [OF dinv sd w] now_def by (auto split: sum.splits)
  note si = db_inv_store [OF dinv sd]
  then have ok: "store_ok pg sd" by (simp add: store_inv_def)
  note facts = candidate_runs_facts [OF ok cands]
  have ids: "map k_run_id cs = map (\<lambda>(r, t). r_id r) cands" by (auto simp: cs claimed_row_def)
  have settles: "settles s sd" using claim_maintained_settles [OF assms(2) inj m]
    by (simp add: db_settles_def store_at_def assms(3) sd)
  have each: "k_task_name c \<in> set names
      \<and> (\<exists>r t. running_attempt (claimed_store w (now + lease * 1000000) now cands sd) (k_run_id c) r t (now + lease * 1000000)
          \<and> r_claimed_by r = Some w \<and> k_task_id c = t_id t \<and> k_attempt c = r_attempt r)
      \<and> \<not> (\<exists>r\<in>set (runs s). r_id r = k_run_id c \<and> r_state r = Running)" if "c \<in> set cs" for c
  proof -
    from that obtain r t where rt: "(r, t) \<in> set cands" "c = claimed_row (r, t)" by (auto simp: cs)
    note f = facts(3) [OF rt(1)]
    have "running_attempt (claimed_store w (now + lease * 1000000) now cands sd) (k_run_id c)
        (start_run w (now + lease * 1000000) now r) (start_task now r t) (now + lease * 1000000)"
      using claimed_attempt [OF si cands rt(1)] rt(2) by (simp add: claimed_row_def)
    moreover have "\<not> (\<exists>r0\<in>set (runs s). r_id r0 = r_id r \<and> r_state r0 = Running)"
      using settled_claimable_not_running [OF _ si] settles f by blast
    ultimately show ?thesis using f rt(2)
      by (intro conjI exI [of _ "start_run w (now + lease * 1000000) now r"] exI [of _ "start_task now r t"])
        (auto simp: claimed_row_def claimable_def start_run_def start_task_def)
  qed
  have now': "pg_clock pg (seq db' - 1) = now" by (simp add: db' now_def)
  have s': "map_of (storage db') q = Some (claimed_store w (now + lease * 1000000) now cands sd)"
    by (simp add: db')
  show ?thesis unfolding ids now'
    using facts(1,2) each s' by (intro conjI exI [of _ "claimed_store w (now + lease * 1000000) now cands sd"] ballI)
      (simp_all add: cs)
qed

theorem claims_are_exclusive_witness:
  "\<exists>s'. map_of (storage demo_claimed) ''q'' = Some s'
    \<and> (\<exists>r t. running_attempt s' 1 r t (pg_clock exact_pg (seq demo_claimed - 1) + 60 * 1000000)
        \<and> r_claimed_by r = Some ''w1'')"
proof -
  have "map_of (storage demo_spawned) ''q'' =
      Some \<lparr>tasks = [demo_task], runs = [new_run 1 0 1 Pending 2000000], checkpoints = []\<rparr>"
    by (simp add: demo_spawned_def)
  from claims_are_exclusive [OF exact_pg_ok demo_inv(2) this demo_claim] show ?thesis by auto
qed

subsection \<open>Order and completeness of claims\<close>

lemma candidates_ordered_complete:
  assumes "store_ok pg s" and "candidate_runs now k names locked scans s = Inr cs"
    and "(r, t) \<in> set (joined_runs s)" and "claimable now names (r, t)" and "task_due t now = Inr False"
    and "\<not> locked (r_id r)"
  shows "(r, t) \<in> set cs \<or> length cs = nat k
    \<and> (\<forall>(r', t')\<in>set cs. (r_available_at r', r_id r') \<le> (r_available_at r, r_id r))"
proof -
  let ?key = "\<lambda>(r, t). (r_available_at r, r_id r)"
  let ?xs = "filter (\<lambda>(r, t). \<not> locked (r_id r)) (claim_order
    (filter (\<lambda>(r, t). task_due t now = Inr False) (filter (claimable now names) (joined_runs s))))"
  have cs: "cs = take (nat k) ?xs" using candidate_runs_Inr [OF assms(2)] .
  have sorted: "sorted (map ?key ?xs)"
    unfolding claim_order_def by (intro sorted_filter sorted_sort_key)
  have mem: "(r, t) \<in> set ?xs" using assms(3-6) by (simp add: claim_order_def)
  have "length cs = nat k \<and> (\<forall>p\<in>set cs. ?key p \<le> ?key (r, t))" if "(r, t) \<notin> set cs"
  proof -
    have rest: "(r, t) \<in> set (drop (nat k) ?xs)"
      using mem that unfolding cs by (metis append_take_drop_id Un_iff set_append)
    then have "nat k < length ?xs" by (cases "nat k < length ?xs") auto
    moreover have "sorted (map ?key (take (nat k) ?xs @ drop (nat k) ?xs))" using sorted by simp
    then have "\<forall>p\<in>set (take (nat k) ?xs). \<forall>p'\<in>set (drop (nat k) ?xs). ?key p \<le> ?key p'"
      unfolding map_append sorted_append by simp
    ultimately show ?thesis using rest by (auto simp: cs)
  qed
  then have "length cs = nat k \<and> (\<forall>(r', t')\<in>set cs. (r_available_at r', r_id r') \<le> (r_available_at r, r_id r))"
    if "(r, t) \<notin> set cs" using that by (fastforce dest: bspec)
  then show ?thesis by blast
qed

lemma candidates_sorted:
  "candidate_runs now k names locked scans s = Inr cs \<Longrightarrow>
    sorted (map (\<lambda>r. (r_available_at r, r_id r)) (map fst cs))"
proof -
  assume c: "candidate_runs now k names locked scans s = Inr cs"
  have "sorted (map (\<lambda>(r, t). (r_available_at r, r_id r)) cs)"
    unfolding candidate_runs_Inr [OF c] claim_order_def take_map [symmetric]
    by (intro sorted_wrt_take sorted_filter sorted_sort_key)
  moreover have "map (\<lambda>(r, t). (r_available_at r, r_id r)) cs = map (\<lambda>r. (r_available_at r, r_id r)) (map fst cs)"
    by auto
  ultimately show ?thesis by simp
qed

text \<open>A run that is still pending or sleeping after the claim was not taken, and its rows are unchanged.\<close>

lemma claimed_store_leaves:
  assumes inv: "store_inv pg n s" and c: "candidate_runs now k names locked scans s = Inr cs"
    and r: "r \<in> set (runs (claimed_store w expires now cs s))" "r_state r = Pending \<or> r_state r = Sleeping"
    and t: "t \<in> set (tasks (claimed_store w expires now cs s))" "t_state t = Pending \<or> t_state t = Sleeping"
  shows "r \<in> set (runs s) \<and> r_id r \<notin> set (map (\<lambda>(r, t). r_id r) cs) \<and> t \<in> set (tasks s)"
proof -
  have started: "t_state (start_claimed_task now cs t') = Running"
    if t': "t' \<in> set (tasks s)" "t_id t' \<in> set (map (\<lambda>(r, t). r_task_id r) cs)" for t'
  proof -
    obtain r' where "start_claimed_task now cs t' = start_task now r' t'"
      using start_claimed_task_eq [OF inv c t'] by blast
    then show ?thesis by (simp add: start_task_def)
  qed
  have "r \<notin> start_run w expires now ` R" for R using r(2) by (auto simp: start_run_def)
  then have "r \<in> set (runs s) \<and> r_id r \<notin> set (map (\<lambda>(r, t). r_id r) cs)"
    using r(1) unfolding claimed_store_def by (simp add: set_update_where)
  moreover have "t \<notin> start_claimed_task now cs
      ` {t'. t' \<in> set (tasks s) \<and> t_id t' \<in> set (map (\<lambda>(r, t). r_task_id r) cs)}"
    using started t(2) by fastforce
  then have "t \<in> set (tasks s)"
    using t(1) unfolding claimed_store_def by (simp add: set_update_where)
  ultimately show ?thesis by blast
qed

text \<open>Such a run, if it was eligible, was left behind because the limit was reached by earlier ones.\<close>

lemma claimed_store_left_behind:
  assumes inv: "store_inv pg n s" and c: "candidate_runs now k names locked scans s = Inr cs" and k: "0 < k"
    and r: "r \<in> set (runs (claimed_store w expires now cs s))" "r_state r = Pending \<or> r_state r = Sleeping"
    and t: "t \<in> set (tasks (claimed_store w expires now cs s))" "t_state t = Pending \<or> t_state t = Sleeping"
    and rt: "t_last_attempt_run t = r_id r" "r_available_at r \<le> now" "t_name t \<in> set names"
      "task_due t now = Inr False" "\<not> locked (r_id r)"
  shows "int (length cs) = k \<and> (\<forall>r'\<in>set (map fst cs). (r_available_at r', r_id r') \<le> (r_available_at r, r_id r))"
proof -
  have ok: "store_ok pg s" using inv by (simp add: store_inv_def)
  note l = claimed_store_leaves [OF inv c r t]
  obtain r0 where r0: "r0 \<in> set (runs s)" "r_task_id r0 = t_id t" "authoritative t r0"
    using store_inv_authoritative [OF inv, of t] l by blast
  then have "r_id r0 = r_id r" using rt(1) by (simp add: authoritative_def)
  then have "r0 = r" using store_inv_run_unique [OF inv, of r0 r] r0(1) l by blast
  then have "(r, t) \<in> set (joined_runs s)" using l r0(2) unfolding set_joined_runs [OF ok] by simp
  moreover have "claimable now names (r, t)" using r(2) t(2) rt by (simp add: claimable_def)
  moreover have "(r, t) \<notin> set cs" using l by force
  ultimately have "length cs = nat k
      \<and> (\<forall>(r', t')\<in>set cs. (r_available_at r', r_id r') \<le> (r_available_at r, r_id r))"
    using candidates_ordered_complete [OF ok c _ _ rt(4,5)] by blast
  then show ?thesis using k by (auto simp: case_prod_beta simp del: less_eq_prod_simp)
qed



subsection \<open>Checkpoints\<close>

lemma checkpoint_call:
  assumes inv: "db_inv pg db" and run: "set_task_checkpoint_state pg q tid name v i db = (Inr (x, b), db')"
  obtains s where "map_of (storage db) q = Some s" "tid \<in> t_id ` set (tasks s)"
    "x = Some (case lookup_checkpoint (tid, name) s of None \<Rightarrow> v | Some w \<Rightarrow> w)"
    "b \<longleftrightarrow> lookup_checkpoint (tid, name) s = None"
    "db' = (if b then put_store q (put_checkpoint (tid, name) v s) (tick db) else tick db)"
proof -
  from run obtain u d where lock: "lock_running_attempt pg q i False db = (Inr u, d)"
    and nm: "name_check pg name" and tid: "x_task_id u = tid"
    unfolding set_task_checkpoint_state_def name_check_def
    by (auto simp: sql_steps ebind_Inr_iff esm_Inr_iff split: if_splits)
  from lock inv show thesis
  proof (rule attempt_success)
    fix s r t lease
    assume a: "queue_name_ok pg q" "map_of (storage db) q = Some s" "running_attempt s i r t lease"
      "False = (lease \<le> pg_clock pg (seq db))" "u = attempt_context_of r t (pg_clock pg (seq db))"
    have live: "pg_clock pg (seq db) < lease" and tid': "tid = r_task_id r" using a(4,5) tid by auto
    have "tid \<in> t_id ` set (tasks s)" using running_attemptD [OF a(3)] tid' by (metis imageI)
    then show thesis
      using run that a(2) unfolding tid' set_checkpoint_eval [OF inv a(1-3) live nm]
      by (auto split: sum.splits bool.splits option.splits)
  qed
qed

text \<open>\<^bold>\<open>C11.\<close> Checkpoints are written once: after a checkpoint of a task was stored or replayed with some
  value, every later checkpoint call under the same name, by any attempt of that task and with any
  new value, returns the first value and reports that nothing was written.\<close>

theorem first_checkpoint_wins:
  assumes "pg_ok pg" and "(db_step pg)\<^sup>*\<^sup>* empty_db db"
    and "run_txn (set_task_checkpoint_state pg q tid name v i) db = (Inr (Some w, b), db1)"
    and "(db_step pg)\<^sup>*\<^sup>* db1 db2"
    and "run_txn (set_task_checkpoint_state pg q tid name v' i') db2 = (Inr (x, b'), db3)"
  shows "x = Some w \<and> \<not> b'"
proof -
  note inv = reachable_inv [OF assms(1,2)]
  note run1 = txn_success [OF assms(3)] and run2 = txn_success [OF assms(5)]
  have inv1: "db_inv pg db1" by (rule set_checkpoint_inv [OF inv run1])
  have inv2: "db_inv pg db2" using queue_db.steps_good [OF assms(4)] assms(1) inv1 by blast
  obtain s where s: "map_of (storage db) q = Some s" "tid \<in> t_id ` set (tasks s)"
    "Some w = Some (case lookup_checkpoint (tid, name) s of None \<Rightarrow> v | Some w \<Rightarrow> w)"
    "b \<longleftrightarrow> lookup_checkpoint (tid, name) s = None"
    "db1 = (if b then put_store q (put_checkpoint (tid, name) v s) (tick db) else tick db)"
    using checkpoint_call [OF inv run1] .
  define s1 where "s1 = (if b then put_checkpoint (tid, name) v s else s)"
  have s1: "map_of (storage db1) q = Some s1" using s(1,5) by (simp add: s1_def)
  have w: "lookup_checkpoint (tid, name) s1 = Some w"
    using s(3,4) checkpoint_table.lookup_put [of "(tid, name)" v s] by (auto simp: s1_def split: option.splits)
  obtain s2 where s2: "map_of (storage db2) q = Some s2" "tid \<in> t_id ` set (tasks s2)"
    "x = Some (case lookup_checkpoint (tid, name) s2 of None \<Rightarrow> v' | Some w \<Rightarrow> w)"
    "b' \<longleftrightarrow> lookup_checkpoint (tid, name) s2 = None"
    using checkpoint_call [OF inv2 run2] by metis
  obtain t where t: "t \<in> set (tasks s1)" "t_id t = tid"
    using s(2) by (auto simp: s1_def)
  obtain t2 where t2: "t2 \<in> set (tasks s2)" "t_id t2 = tid" using s2(2) by auto
  have "drawn pg (seq db1) (t_id t2)" using drawn_task [OF inv1 s1 t(1)] t t2 by simp
  then have "lookup_checkpoint (tid, name) s2 = Some w"
    using later_store(1) [OF assms(1) inv1 assms(4) s1 s2(1)] t2 w unfolding store_evolves_def by blast
  then show ?thesis using s2(3,4) by simp
qed

definition demo_checkpointed :: db where
  "demo_checkpointed =
     snd (run_txn (set_task_checkpoint_state exact_pg ''q'' 0 ''step'' (JInt 1) 1) demo_claimed)"

theorem first_checkpoint_wins_witness:
  "fst (run_txn (set_task_checkpoint_state exact_pg ''q'' 0 ''step'' (JInt 2) 1) demo_checkpointed) =
    Inr (Some (JInt 1), False)"
proof -
  have "fst (run_txn (set_task_checkpoint_state exact_pg ''q'' 0 ''step'' (JInt 1) 1) demo_claimed) =
      Inr (Some (JInt 1), True)"
    by code_simp
  then have first: "run_txn (set_task_checkpoint_state exact_pg ''q'' 0 ''step'' (JInt 1) 1) demo_claimed =
      (Inr (Some (JInt 1), True), demo_checkpointed)"
    unfolding demo_checkpointed_def by (metis prod.collapse)
  have "isl (fst (run_txn (set_task_checkpoint_state exact_pg ''q'' 0 ''step'' (JInt 2) 1) demo_checkpointed)) = False"
    by code_simp
  then obtain x b' db3 where second: "run_txn (set_task_checkpoint_state exact_pg ''q'' 0 ''step'' (JInt 2) 1)
      demo_checkpointed = (Inr (x, b'), db3)"
    by (metis prod.collapse sum.collapse(2))
  from first_checkpoint_wins [OF exact_pg_ok demo_reachable(3) first rtranclp.rtrancl_refl second]
  show ?thesis using second by simp
qed

subsection \<open>Cleanup\<close>

text \<open>\<^bold>\<open>C36.\<close> Cleanup deletes only what the policy allows: every task it removes had ended, at least the
  queue's retention period before the call; the number it reports is the number of tasks removed
  and does not exceed the queue's limit; every other task keeps its runs and checkpoints.\<close>

theorem cleanup_deletes_only_old_terminal_tasks:
  assumes "db_inv pg db" and "run_txn (cleanup_tasks pg q) db = (Inr n, db')"
    and "map_of (storage db) q = Some s" and "find_row q_name q (queues db) = Some policy"
  shows "\<exists>ids. map_of (storage db') q = Some (delete_tasks ids s) \<and> n = int (card (set ids))
    \<and> set ids \<subseteq> t_id ` set (tasks s) \<and> n \<le> q_cleanup_limit policy
    \<and> (\<forall>t\<in>set (tasks s). t_id t \<in> set ids \<longrightarrow> state_terminal (t_state t)
        \<and> (\<exists>ended. terminal_at s t = Some ended
             \<and> ended + q_cleanup_ttl policy \<le> pg_clock pg (seq db)))"
proof -
  have run: "cleanup_tasks pg q db = (Inr n, db')" by (rule txn_success [OF assms(2)])
  have q: "queue_name_ok pg q" using run by (auto elim: cleanup_tasks_success)
  define ids where "ids = tasks_to_delete (pg_clock pg (seq db) - q_cleanup_ttl policy)
    (q_cleanup_limit policy) (pg_locked pg (Suc (seq db))) s"
  have eval: "n = int (length ids)" "db' = put_store q (delete_tasks ids s) (tick db)"
    using run unfolding cleanup_tasks_eval [OF assms(1) q assms(3,4)] ids_def by auto
  have d: "distinct (map t_id (tasks s))"
    using db_inv_store [OF assms(1,3)] by (simp add: store_inv_def store_ok_iff)
  note facts = tasks_to_delete_facts [OF d, where cutoff = "pg_clock pg (seq db) - q_cleanup_ttl policy"
      and limit = "q_cleanup_limit policy" and locked = "pg_locked pg (Suc (seq db))", folded ids_def]
  have "1 \<le> q_cleanup_limit policy"
    using assms(1) find_row_SomeD [OF assms(4)] by (auto simp: db_inv_def queue_check_def)
  then have "n \<le> q_cleanup_limit policy" using facts(2) eval(1) by simp
  moreover have "n = int (card (set ids))" using eval(1) facts(1) by (simp add: distinct_card)
  moreover have "state_terminal (t_state t) \<and> (\<exists>ended. terminal_at s t = Some ended
      \<and> ended + q_cleanup_ttl policy \<le> pg_clock pg (seq db))"
    if "t \<in> set (tasks s)" "t_id t \<in> set ids" for t
    using facts(3) [OF that] by auto
  ultimately show ?thesis using facts(4) eval(2) by (intro exI [of _ ids]) simp
qed

definition demo_old_store :: store where
  "demo_old_store = \<lparr>tasks = [demo_task\<lparr>t_state := Cancelled, t_cancelled_at := Some 5\<rparr>],
     runs = [new_run 1 0 1 Cancelled 2000000], checkpoints = []\<rparr>"

definition demo_old :: db where
  "demo_old = \<lparr>queues = [\<lparr>q_name = ''q'', q_cleanup_ttl = 0, q_cleanup_limit = 10\<rparr>],
     storage = [(''q'', demo_old_store)], seq = 7\<rparr>"

theorem cleanup_deletes_only_old_terminal_tasks_witness:
  "\<exists>ids. map_of (storage (snd (run_txn (cleanup_tasks exact_pg ''q'') demo_old))) ''q'' =
      Some (delete_tasks ids demo_old_store) \<and> 1 = int (card (set ids))"
proof -
  have "fst (run_txn (cleanup_tasks exact_pg ''q'') demo_old) = Inr 1" by code_simp
  then have run: "run_txn (cleanup_tasks exact_pg ''q'') demo_old =
      (Inr 1, snd (run_txn (cleanup_tasks exact_pg ''q'') demo_old))" by (metis prod.collapse)
  have "db_inv exact_pg demo_old" by code_simp
  moreover have "map_of (storage demo_old) ''q'' = Some demo_old_store" by (simp add: demo_old_def)
  moreover have "find_row q_name ''q'' (queues demo_old) =
      Some \<lparr>q_name = ''q'', q_cleanup_ttl = 0, q_cleanup_limit = 10\<rparr>" by code_simp
  ultimately show ?thesis using cleanup_deletes_only_old_terminal_tasks [OF _ run] by blast
qed

subsection \<open>Manual retry\<close>

text \<open>\<^bold>\<open>C37.\<close> Manual retry reopens a failed task whose deadline has not elapsed: it becomes pending with
  one more attempt and a budget that covers it, its new run is ready at once, and neither the
  original budget that identifies the submission nor any checkpoint changes.\<close>

theorem manual_retry_reopens_task:
  assumes "pg_ok pg" and "db_inv pg db" and "queue_name_ok pg q" and "map_of (storage db) q = Some s"
    and "find_row t_id tid (tasks s) = Some t" and "t_state t = Failed"
    and "task_due t (pg_clock pg (seq db)) = Inr False" and "t_attempts t < 2147483647"
  shows "\<exists>i db' s' t'. run_txn (retry_task pg q tid) db = (Inr i, db') \<and> map_of (storage db') q = Some s'
    \<and> find_row t_id tid (tasks s') = Some t' \<and> t_state t' = Pending \<and> t_last_attempt_run t' = i
    \<and> t_attempts t' = t_attempts t + 1 \<and> t_max_attempts t' = max (t_max_attempts t) (t_attempts t + 1)
    \<and> t_initial_max_attempts t' = t_initial_max_attempts t \<and> checkpoints s' = checkpoints s
    \<and> (\<exists>r\<in>set (runs s'). r_id r = i \<and> r_state r = Pending \<and> r_attempt r = t_attempts t + 1
        \<and> r_available_at r = pg_clock pg (seq db))"
proof -
  have inj: "inj (pg_uuid pg)" using assms(1) by (simp add: pg_ok_def)
  define now where "now = pg_clock pg (seq db)"
  define fresh where "fresh = pg_uuid pg (Suc (seq db))"
  define s' where "s' = reopened_store now tid (t_attempts t + 1) fresh s"
  have run: "retry_task pg q tid db = (Inr fresh, put_store q s' (tick (tick db)))"
    unfolding retry_task_eval [OF assms(2) inj assms(3-5)] using assms(6-8)
    by (simp add: s'_def now_def fresh_def)
  then have txn: "run_txn (retry_task pg q tid) db = (Inr fresh, put_store q s' (tick (tick db)))"
    using retry_task_inv [OF assms(2) inj run] by (rule run_txn_commits)
  have "find_row t_id tid (tasks s') = Some (reopen_task (t_attempts t + 1) fresh t)"
    using assms(5) find_row_SomeD [OF assms(5)]
    by (simp add: s'_def reopened_store_def find_row_update_where reopen_task_def)
  moreover have "new_run fresh tid (t_attempts t + 1) Pending now \<in> set (runs s')"
    by (simp add: s'_def reopened_store_def)
  then have "\<exists>r\<in>set (runs s'). r_id r = fresh \<and> r_state r = Pending \<and> r_attempt r = t_attempts t + 1
      \<and> r_available_at r = now"
    by (rule rev_bexI) (simp add: new_run_def)
  moreover have "checkpoints s' = checkpoints s" by (simp add: s'_def reopened_store_def)
  ultimately show ?thesis using txn
    by (intro exI [of _ fresh] exI [of _ "put_store q s' (tick (tick db))"] exI [of _ s']
        exI [of _ "reopen_task (t_attempts t + 1) fresh t"])
      (simp add: reopen_task_def now_def)
qed

definition demo_failed_store :: store where
  "demo_failed_store = \<lparr>tasks = [demo_task\<lparr>t_state := Failed, t_attempts := 5\<rparr>],
     runs = [(new_run 1 0 5 Failed 2000000)\<lparr>r_failed_at := Some 9, r_failure_reason := Some JNull\<rparr>],
     checkpoints = []\<rparr>"

definition demo_failed :: db where
  "demo_failed = \<lparr>queues = [queue_defaults ''q''], storage = [(''q'', demo_failed_store)], seq = 7\<rparr>"

theorem manual_retry_reopens_task_witness:
  "\<exists>i db'. run_txn (retry_task exact_pg ''q'' 0) demo_failed = (Inr i, db')"
proof -
  let ?t = "demo_task\<lparr>t_state := Failed, t_attempts := 5\<rparr>"
  have "db_inv exact_pg demo_failed" by code_simp
  moreover have "map_of (storage demo_failed) ''q'' = Some demo_failed_store" by (simp add: demo_failed_def)
  moreover have "find_row t_id 0 (tasks demo_failed_store) = Some ?t" by code_simp
  moreover have "task_due ?t (pg_clock exact_pg (seq demo_failed)) = Inr False" by code_simp
  ultimately show ?thesis
    using manual_retry_reopens_task [OF exact_pg_ok _ demo_facts(1), of demo_failed demo_failed_store 0 ?t]
    by auto
qed

subsection \<open>Departures from the documentation\<close>

text \<open>Of a policy that passed validation, reading a deadline can only fail on the text of a decimal.\<close>

lemma validated_deadline_error:
  assumes "validate_cancellation_policy (t_cancellation t) = Inr (t_cancellation t)" and "task_due t obs = Inl e"
  shows "e = invalid_text_representation"
proof -
  from assms(2) obtain j key since where j: "t_cancellation t = Some j"
    and key: "key = ''maxDelay'' \<or> key = ''maxDuration''" and due: "deadline_due key j since obs = Inl e"
    by (auto simp: task_due_def cancellation_due_def split: option.splits)
  from due obtain v where v: "jget key j = Some v" "json_bigint v = Inl e"
    by (auto simp: deadline_due_def res_bind_eq_Inl split: option.splits)
  have "j \<noteq> JNull" using v(1) by auto
  then have "check_cancellation_key key j = Inr ()"
    using assms(1) key by (auto simp: j validate_cancellation_policy_def res_bind_eq_Inr split: if_splits)
  then have "cancellation_seconds_ok v" using v(1) by (auto simp: check_cancellation_key_def split: if_splits)
  then show ?thesis using v(2)
    by (cases v) (auto simp: cancellation_seconds_ok_def split: if_splits)
qed

text \<open>\<^bold>\<open>C38.\<close> A deadline written as a decimal poisons its queue: \<open>{"maxDelay": n.0}\<close> passes the submission
  check, although the check is documented to reject what would be a latent failure. While the task has
  not started, every well-formed claim for at least as many runs as the queue has active tasks, so that
  no plan stops before that task, fails with \<open>22P02\<close> when it reads the deadline, for every worker and
  every list of task names, and leaves the tables unchanged.\<close>

theorem decimal_deadline_blocks_claims:
  assumes "0 \<le> n" and "n \<le> 9223372036854775807"
    and "t_cancellation t = Some (JObj [(''maxDelay'', JDec (of_int n))])" and "t_first_started_at t = None"
    and "map_of (storage db) q = Some s" and "(t, r) \<in> set (active_pairs s)"
    and "\<forall>(t', r')\<in>set (active_pairs s).
      validate_cancellation_policy (t_cancellation t') = Inr (t_cancellation t')"
    and "queue_name_ok pg q" and "\<not> pg_blank pg w" and "0 < lease" and "names \<noteq> []"
    and "\<not> list_ex (pg_blank pg) names" and "int (length (active_pairs s)) \<le> k"
  shows "validate_cancellation_policy (t_cancellation t) = Inr (t_cancellation t)
    \<and> (\<exists>m. run_txn (claim_tasks pg q w lease k names) db = (Inl invalid_text_representation, db\<lparr>seq := m\<rparr>))"
proof
  show "validate_cancellation_policy (t_cancellation t) = Inr (t_cancellation t)"
    using assms(1,2)
    by (simp add: assms(3) validate_cancellation_policy_def unknown_key_def check_cancellation_key_def
        cancellation_seconds_ok_def)
  have k: "0 < k" using assms(6,13) by (cases "active_pairs s") auto
  have bad: "(\<lambda>(t, r). task_due t obs) (t, r) = Inl invalid_text_representation" for obs
    by (simp add: task_due_def cancellation_due_def deadline_due_def assms(3,4))
  have due: "select_due obs k locked scans s = Inl invalid_text_representation" for obs locked scans
  proof -
    have "filter_take (nat k) (\<lambda>(t, r). task_due t obs) (\<lambda>(t, r). \<not> locked (r_id r)) (\<lambda>(t, r). scans (r_id r))
        (sort_key (\<lambda>(t, r). t_id t) (active_pairs s)) = Inl invalid_text_representation"
      using assms(6,7,13) bad
      by (intro filter_take_Inl [where x = "(t, r)"]) (auto dest: validated_deadline_error)
    then show ?thesis by (simp add: select_due_def)
  qed
  have "cancel_expired_tasks pg q k (tick db) = (Inl invalid_text_representation, tick (tick db))"
    using k assms(5) due
    by (simp add: cancel_expired_tasks_def ebind_apply esm_apply current_time_def
        sql_validate_queue_name_apply [OF assms(8)] locked_rows_def scanned_rows_def query_def tick_def)
  then have "claim_tasks pg q w lease k names db = (Inl invalid_text_representation, tick (tick db))"
    using k assms(9-12)
    by (simp add: claim_tasks_def ebind_apply esm_apply current_time_def
        sql_validate_queue_name_apply [OF assms(8)] tick_def)
  then show "\<exists>m. run_txn (claim_tasks pg q w lease k names) db = (Inl invalid_text_representation, db\<lparr>seq := m\<rparr>)"
    by (metis run_txn_aborts)
qed

definition demo_decimal_store :: store where
  "demo_decimal_store = \<lparr>tasks = [demo_task\<lparr>t_cancellation := Some (JObj [(''maxDelay'', JDec 5)])\<rparr>],
     runs = [new_run 1 0 1 Pending 2000000], checkpoints = []\<rparr>"

theorem decimal_deadline_blocks_claims_witness:
  "\<exists>m. run_txn (claim_tasks exact_pg ''q'' ''w1'' 60 10 [''other''])
      (demo_spawned\<lparr>storage := [(''q'', demo_decimal_store)]\<rparr>) =
    (Inl invalid_text_representation, demo_spawned\<lparr>storage := [(''q'', demo_decimal_store)], seq := m\<rparr>)"
proof -
  let ?t = "demo_task\<lparr>t_cancellation := Some (JObj [(''maxDelay'', JDec 5)])\<rparr>"
  let ?db = "demo_spawned\<lparr>storage := [(''q'', demo_decimal_store)]\<rparr>"
  have pairs: "active_pairs demo_decimal_store = [(?t, new_run 1 0 1 Pending 2000000)]" by code_simp
  have "validate_cancellation_policy (t_cancellation ?t) = Inr (t_cancellation ?t)" by code_simp
  moreover have "\<not> pg_blank exact_pg ''w1''" "\<not> list_ex (pg_blank exact_pg) [''other'']" by code_simp+
  ultimately show ?thesis
    using decimal_deadline_blocks_claims [of 5 ?t ?db "''q''" demo_decimal_store
        "new_run 1 0 1 Pending 2000000" exact_pg "''w1''" 60 "[''other'']" 10] demo_facts(1)
    by (simp add: pairs demo_task_def)
qed

text \<open>\<^bold>\<open>C39.\<close> Two valid queue names can exclude each other: the tables of one queue share the schema's
  namespace with the generated indexes of another, so once \<open>q\<close> exists, creating the valid
  queue \<open>q_state_available_at_index\<close> fails (and changes nothing) although no such queue exists.\<close>

theorem queue_names_can_collide:
  assumes "queue_name_ok pg (q @ ''_state_available_at_index'')" and "map_of (storage db) q = Some s"
    and "\<not> registered (q @ ''_state_available_at_index'') db"
  shows "run_txn (create_queue pg (q @ ''_state_available_at_index'')) db = (Inl duplicate_table, db)"
proof -
  have "''runs_'' @ q @ ''_state_available_at_index'' \<in> relations db"
    unfolding relations_def
  proof (rule UN_I)
    show "q \<in> fst ` set (storage db)" using map_of_SomeD [OF assms(2)] by (metis fst_conv imageI)
  qed (simp add: named_relations_def)
  moreover have "''runs_'' @ q @ ''_state_available_at_index''
      \<in> set (named_relations (q @ ''_state_available_at_index''))"
    by (simp add: named_relations_def)
  ultimately have "create_queue pg (q @ ''_state_available_at_index'') db =
      (Inl duplicate_table, db\<lparr>queues := queues db @ [queue_defaults (q @ ''_state_available_at_index'')]\<rparr>)"
    unfolding create_queue_eval [OF assms(1)] using assms(3) by auto
  then have "run_txn (create_queue pg (q @ ''_state_available_at_index'')) db =
      (Inl duplicate_table, db\<lparr>seq := seq (db\<lparr>queues := queues db @ [queue_defaults (q @ ''_state_available_at_index'')]\<rparr>)\<rparr>)"
    by (rule run_txn_aborts)
  then show ?thesis by simp
qed

theorem queue_names_can_collide_witness:
  "run_txn (create_queue exact_pg ''q_state_available_at_index'') demo_created = (Inl duplicate_table, demo_created)"
proof -
  have "queue_name_ok exact_pg (''q'' @ ''_state_available_at_index'')" by code_simp
  moreover have "map_of (storage demo_created) ''q'' = Some empty_store" by (simp add: demo_created_def)
  moreover have "\<not> registered (''q'' @ ''_state_available_at_index'') demo_created" by code_simp
  ultimately show ?thesis using queue_names_can_collide by fastforce
qed

end
