(* ===== verification/ContextProperties.thy ===== *)
theory ContextProperties
  imports TaskContext ClientProperties ClaimProperties
begin

section \<open>Durable steps, sleeps and waits\<close>

text \<open>
  Properties of the task context: committed steps replay instead of running again, what a step
  returns is committed, a suspended sleep has released its run, waits are replayed with their task
  identity, and workflow identities never share a checkpoint name.
\<close>

subsection \<open>Context operations keep to the database protocol\<close>

lemma reads_only_locks [effects]:
  "effect reads_only (lock_attempt_context pg q i)" "effect reads_only (lock_running_attempt pg q i e)"
proof -
  show 1: "effect reads_only (lock_attempt_context pg q i)"
    unfolding lock_attempt_context_def select_run_def select_task_def by (intro effects)
  show "effect reads_only (lock_running_attempt pg q i e)"
    unfolding lock_running_attempt_def by (intro effects 1)
qed

lemma sql_protocol_checkpoints [effects]: "sql_protocol pg (get_task_checkpoint_states pg q tid i)"
  unfolding get_task_checkpoint_states_def by (intro sql_protocol_reads effects)

lemma cache_effects [effects]:
  "effect (protocol pg) (emodify (\<lambda>w. w\<lparr>w_cache := f w\<rparr>))"
  "effect same_metrics (emodify (\<lambda>w. w\<lparr>w_cache := f w\<rparr>))"
  by (auto simp: effect_def protocol_def same_metrics_def esm_apply)

lemma context_frames [effects]:
  "effect same_metrics (TaskContext_new env q task)"
  "effect same_metrics (cached_checkpoint name)"
  "effect same_metrics (persist_checkpoint env ctx name v)"
  "effect same_metrics (ctx_database_time env tlib)"
  "effect same_metrics (ctx_schedule_run env tlib ctx wake)"
  unfolding TaskContext_new_def cached_checkpoint_def persist_checkpoint_def cache_checkpoint_def
    ctx_database_time_def ctx_schedule_run_def
  by (intro effects)+

lemma context_protocol [effects]:
  assumes "env_ok env"
  shows "effect (protocol (e_pg env)) (TaskContext_new env q task)"
    "effect (protocol (e_pg env)) (cached_checkpoint name)"
    "effect (protocol (e_pg env)) (persist_checkpoint env ctx name v)"
    "effect (protocol (e_pg env)) (ctx_database_time env tlib)"
    "effect (protocol (e_pg env)) (ctx_schedule_run env tlib ctx wake)"
  unfolding TaskContext_new_def cached_checkpoint_def persist_checkpoint_def cache_checkpoint_def
    ctx_database_time_def ctx_schedule_run_def
  using assms by (intro effects; assumption)+

lemma effect_schedule [effects]:
  "effect R a \<Longrightarrow> effect R b \<Longrightarrow> effect R c \<Longrightarrow>
    effect R (case x of Sched_Ready \<Rightarrow> a | Sched_Suspended \<Rightarrow> b | Sched_Cancelled \<Rightarrow> c)"
  by (cases x) simp_all

lemma sleep_protocol [effects]:
  assumes "env_ok env"
  shows "effect (protocol (e_pg env)) (sleep_until_inner env tlib ctx sl wake)"
  unfolding sleep_until_inner_def using assms by (intro effects; assumption)

lemma checkpoint_protocol [effects]:
  assumes "env_ok env" and "async_effect (protocol (e_pg env)) f"
  shows "async_effect (protocol (e_pg env)) (checkpoint env ctx ser dec name f)"
proof -
  have "async_effect (protocol (e_pg env)) (areturn x)" for x
    by (simp add: async_effect_def areturn_def protocol.effect_refl)
  then show ?thesis
    unfolding checkpoint_def using assms
    by (intro effects protocol.effect_order_axioms; assumption?)
qed

subsection \<open>Successful statements\<close>

lemma pool_success:
  assumes "execute env Pool m w = (Inr x, w')"
  shows "m (e_others env (w_tick w) (w_db w)) = (Inr x, w_db w')"
    and "w' = (begin_event env w)\<lparr>w_db := w_db w'\<rparr>"
proof -
  obtain r d where r: "run_txn m (e_others env (w_tick w) (w_db w)) = (r, d)" by fastforce
  have "r = Inr x \<and> w' = (begin_event env w)\<lparr>w_db := d\<rparr>"
    using assms r by (cases r) (auto simp: pool_call_def Let_def split: option.splits fault.splits)
  then show "m (e_others env (w_tick w) (w_db w)) = (Inr x, w_db w')"
    and "w' = (begin_event env w)\<lparr>w_db := w_db w'\<rparr>"
    using r by (auto dest: txn_success)
qed

lemma map_of_load_cache:
  assumes "distinct (map fst rows)"
  shows "map_of (load_cache rows) = map_of rows"
proof -
  have "map_of (fold (\<lambda>(k, v). AList.update k v) rows c) = map_of c ++ map_of (rev rows)" for c
    by (induction rows arbitrary: c) (auto simp: update_conv' map_add_def fun_eq_iff split: option.splits)
  then have "map_of (load_cache rows) = map_of (rev rows)" by (simp add: load_cache_def)
  moreover have "map_of (rev rows) k = Some v \<longleftrightarrow> map_of rows k = Some v" for k v
    using assms by (simp add: rev_map [symmetric])
  then have "map_of (rev rows) = map_of rows" by (metis not_None_eq ext)
  ultimately show ?thesis by simp
qed

lemma context_new_success:
  assumes inv: "db_inv (e_pg env) (e_others env (w_tick w) (w_db w))"
    and run: "TaskContext_new env q task w = (Inr ctx, w')"
  obtains s t where "map_of (storage (e_others env (w_tick w) (w_db w))) q = Some s"
    "t \<in> set (tasks s)" "t_id t = claimed_task_id task"
    "ctx_queue_name ctx = q" "ctx_task ctx = task"
    "\<And>name. map_of (w_cache w') name = lookup_checkpoint (claimed_task_id task, name) s"
    "\<exists>r\<in>set (runs s). r_id r = claimed_run_id task \<and> r_task_id r = claimed_task_id task"
    "map_of (storage (w_db w')) q = Some s"
proof -
  let ?d = "e_others env (w_tick w) (w_db w)"
  from run obtain rows v where call: "execute env Pool (get_task_checkpoint_states (e_pg env) q
        (claimed_task_id task) (claimed_run_id task)) w = (Inr rows, v)"
    and w': "w' = v\<lparr>w_cache := load_cache rows\<rparr>" and ctx: "ctx_queue_name ctx = q" "ctx_task ctx = task"
    by (auto simp: TaskContext_new_def ebind_Inr_iff eseq_Inr_iff esm_Inr_iff map_err_Inr_iff)
  note get = pool_success(1) [OF call]
  from get obtain x d where lock: "lock_running_attempt (e_pg env) q (claimed_run_id task) False ?d = (Inr x, d)"
    and tid: "x_task_id x = claimed_task_id task"
    by (auto simp: get_task_checkpoint_states_def ebind_Inr_iff esm_Inr_iff split: if_splits)
  from lock inv show thesis
  proof (rule attempt_success)
    fix s r t lease
    assume a: "queue_name_ok (e_pg env) q" "map_of (storage ?d) q = Some s"
      "running_attempt s (claimed_run_id task) r t lease" "False = (lease \<le> pg_clock (e_pg env) (seq ?d))"
      "store_inv (e_pg env) (seq ?d) s" "x = attempt_context_of r t (pg_clock (e_pg env) (seq ?d))"
    have tid': "r_task_id r = claimed_task_id task" using a(6) tid by simp
    have rows: "rows = map (\<lambda>c. (c_name c, c_state c))
        (filter (\<lambda>c. c_task_id c = claimed_task_id task) (checkpoints s))"
      using get get_checkpoints_eval [OF inv a(1-3)] a(4) tid' by simp
    have "distinct (map (\<lambda>c. (c_task_id c, c_name c)) (checkpoints s))"
      using a(5) by (simp add: store_inv_def store_ok_iff)
    then have "distinct (map fst rows)"
      unfolding rows by (induction "checkpoints s") (auto simp: distinct_map inj_on_def)
    then have "map_of (w_cache w') name = lookup_checkpoint (claimed_task_id task, name) s" for name
      using map_of_load_cache [of rows] w'
      by (simp add: rows map_of_checkpoints lookup_checkpoint_def)
    moreover have "r \<in> set (runs s)" "r_id r = claimed_run_id task" using running_attemptD [OF a(3)] by simp_all
    moreover have "w_db v = tick ?d"
      using get get_checkpoints_eval [OF inv a(1-3)] a(4) tid' by simp
    ultimately show thesis
      using that [OF a(2) running_attemptD(3) [OF a(3)]] running_attemptD(4) [OF a(3)] tid' ctx a(2) w' by auto
  qed
qed

subsection \<open>Committed steps replay\<close>

lemma replay_committed:
  assumes env: "env_ok env" and inv: "db_inv (e_pg env) db"
    and s: "map_of (storage db) q = Some s" "claimed_task_id task \<in> t_id ` set (tasks s)"
    and committed: "lookup_checkpoint (claimed_task_id task, name) s = Some state"
    and later: "(db_step (e_pg env))\<^sup>*\<^sup>* db (w_db w)"
    and ctx: "TaskContext_new env q task w = (Inr ctx, w')"
  shows "checkpoint env ctx ser dec name f w' = Some (serde (dec state), w')"
proof -
  let ?d = "e_others env (w_tick w) (w_db w)"
  have pg: "pg_ok (e_pg env)" using env by (simp add: env_ok_def)
  have steps: "(db_step (e_pg env))\<^sup>*\<^sup>* db ?d" using later env_steps [OF env] by (rule rtranclp_trans)
  have inv': "db_inv (e_pg env) ?d" using pg inv steps by (rule steps_inv)
  from inv' ctx show ?thesis
  proof (rule context_new_success)
    fix s' t
    assume a: "map_of (storage ?d) q = Some s'" "t \<in> set (tasks s')" "t_id t = claimed_task_id task"
      and cache: "\<And>name. map_of (w_cache w') name = lookup_checkpoint (claimed_task_id task, name) s'"
    have "drawn (e_pg env) (seq db) (t_id t)" using drawn_task [OF inv s(1)] s(2) a(3) by auto
    then have "lookup_checkpoint (claimed_task_id task, name) s' = Some state"
      using later_store(1) [OF pg inv steps s(1) a(1)] a(2,3) committed unfolding store_evolves_def by metis
    then show ?thesis using cache [of name]
      by (simp add: checkpoint_def cached_checkpoint_def abind_apply async_apply esm_apply
          split: sum.split)
  qed
qed

text \<open>\<^bold>\<open>C5.\<close> Once a step's value is committed for a task, every later attempt of that task that
  gets a context replays it: whatever calls happened in between and whatever function is passed, the
  step returns the decoded committed value, does not run the function and does not touch the
  database.\<close>

theorem committed_step_replays:
  assumes env: "env_ok env" and inv: "db_inv (e_pg env) db"
    and s: "map_of (storage db) q = Some s" "claimed_task_id task \<in> t_id ` set (tasks s)"
    and committed: "lookup_checkpoint (claimed_task_id task, name) s = Some state"
    and later: "(db_step (e_pg env))\<^sup>*\<^sup>* db (w_db w)"
    and ctx: "TaskContext_new env q task w = (Inr ctx, w')"
  shows "checkpoint env ctx ser dec name f w' = Some (serde (dec state), w')"
  using assms by (rule replay_committed)

definition int_dec :: "int dec" where
  "int_dec j = (case j of JInt i \<Rightarrow> Inr i | _ \<Rightarrow> Inl ''invalid type'')"

definition demo_claim_task :: ClaimedTask where
  "demo_claim_task = \<lparr>claimed_run_id = 1, claimed_task_id = 0, claimed_task_name = ''mail'',
     claimed_attempt = 1, claimed_params = JNull, claimed_headers = None\<rparr>"

definition demo_ctx :: TaskContext where
  "demo_ctx = \<lparr>ctx_queue_name = ''q'', ctx_task = demo_claim_task, ctx_headers = []\<rparr>"

definition demo_ctx_world :: world where
  "demo_ctx_world = snd (TaskContext_new (quiet exact_pg) ''q'' demo_claim_task (world_of demo_checkpointed))"

lemma demo_context:
  "TaskContext_new (quiet exact_pg) ''q'' demo_claim_task (world_of demo_checkpointed) =
    (Inr demo_ctx, demo_ctx_world)"
proof -
  have "fst (TaskContext_new (quiet exact_pg) ''q'' demo_claim_task (world_of demo_checkpointed)) =
      Inr demo_ctx"
    by code_simp
  then show ?thesis by (simp add: demo_ctx_world_def prod_eq_iff)
qed

lemma demo_checkpointed_inv: "db_inv exact_pg demo_checkpointed"
proof -
  have "db_step exact_pg demo_claimed demo_checkpointed"
    unfolding demo_checkpointed_def
    by (rule do_checkpoint [OF prod.collapse [symmetric]])
  then show ?thesis using db_step_inv exact_pg_ok demo_inv(3) by blast
qed

theorem committed_step_replays_witness:
  "checkpoint (quiet exact_pg) demo_ctx int_ser int_dec ''step'' (\<lambda>w. None) demo_ctx_world =
    Some (serde (int_dec (JInt 1)), demo_ctx_world)"
proof (rule committed_step_replays)
  show "env_ok (quiet exact_pg)" using exact_pg_ok by (rule quiet_ok)
  show "db_inv (e_pg (quiet exact_pg)) demo_checkpointed" by (simp add: demo_checkpointed_inv)
  show "map_of (storage demo_checkpointed) ''q'' =
      Some (put_checkpoint (0, ''step'') (JInt 1) demo_store)"
    by code_simp
  show "TaskContext_new (quiet exact_pg) ''q'' demo_claim_task (world_of demo_checkpointed) =
      (Inr demo_ctx, demo_ctx_world)"
    by (rule demo_context)
  show "lookup_checkpoint (claimed_task_id demo_claim_task, ''step'')
      (put_checkpoint (0, ''step'') (JInt 1) demo_store) = Some (JInt 1)"
    by code_simp
qed (simp_all add: demo_claim_task_def demo_store_def demo_running_def demo_task_def)

subsection \<open>Steps return committed values\<close>

lemma protocol_inv:
  "protocol pg w w' \<Longrightarrow> pg_ok pg \<Longrightarrow> db_inv pg (w_db w) \<Longrightarrow> db_inv pg (w_db w')"
  by (simp add: protocol_def)

lemma persist_success:
  assumes env: "env_ok env" and inv: "db_inv (e_pg env) (w_db w)"
    and run: "persist_checkpoint env ctx name v w = (Inr (state, written), w')"
  obtains s where "map_of (storage (w_db w')) (ctx_queue_name ctx) = Some s"
    "lookup_checkpoint (ctx_task_id ctx, name) s = Some state" "map_of (w_cache w') name = Some state"
    "written \<Longrightarrow> state = v"
proof -
  let ?d = "e_others env (w_tick w) (w_db w)" and ?k = "(ctx_task_id ctx, name)"
  from run obtain u where call: "execute env Pool (set_task_checkpoint_state (e_pg env)
      (ctx_queue_name ctx) (ctx_task_id ctx) name v (ctx_run_id ctx)) w = (Inr (Some state, written), u)"
    and w': "w' = u\<lparr>w_cache := AList.update name state (w_cache u)\<rparr>"
    by (auto simp: persist_checkpoint_def cache_checkpoint_def ebind_Inr_iff eseq_Inr_iff esm_Inr_iff
        map_err_Inr_iff split: option.splits)
  have "db_inv (e_pg env) ?d" using env inv by (rule env_inv)
  from this pool_success(1) [OF call] show thesis
  proof (rule checkpoint_call)
    fix s
    assume s: "map_of (storage ?d) (ctx_queue_name ctx) = Some s"
      "Some state = Some (case lookup_checkpoint ?k s of None \<Rightarrow> v | Some w \<Rightarrow> w)"
      "written \<longleftrightarrow> lookup_checkpoint ?k s = None"
      "w_db u = (if written then put_store (ctx_queue_name ctx) (put_checkpoint ?k v s) (tick ?d) else tick ?d)"
    define s' where "s' = (if written then put_checkpoint ?k v s else s)"
    have "map_of (storage (w_db w')) (ctx_queue_name ctx) = Some s'" using s(1,4) w' by (simp add: s'_def)
    moreover have "lookup_checkpoint ?k s' = Some state"
      using s(2,3) checkpoint_table.lookup_put [of ?k v s] by (auto simp: s'_def split: option.splits)
    moreover have "map_of (w_cache w') name = Some state" using w' by (simp add: update_conv')
    moreover have "written \<Longrightarrow> state = v" using s(2,3) by simp
    ultimately show thesis by (rule that)
  qed
qed

lemma checkpoint_commits:
  assumes env: "env_ok env" and inv: "db_inv (e_pg env) (w_db w)"
    and f: "async_effect (protocol (e_pg env)) f"
    and uncached: "map_of (w_cache w) name = None"
    and run: "checkpoint env ctx ser dec name f w = Some (Inr v, w')"
  shows "\<exists>s state. map_of (storage (w_db w')) (ctx_queue_name ctx) = Some s
    \<and> lookup_checkpoint (ctx_task_id ctx, name) s = Some state
    \<and> map_of (w_cache w') name = Some state \<and> (ser v = Inr state \<or> dec state = Inr v)"
proof -
  from run uncached obtain x w1 j state written where f1: "f w = Some (Inr x, w1)"
    and ser: "serde (ser x) = Inr j"
    and p: "persist_checkpoint env ctx name j w1 = (Inr (state, written), w')"
    and v: "if written then v = x else serde (dec state) = Inr v"
    by (auto simp: checkpoint_def cached_checkpoint_def abind_apply async_apply esm_apply
        split: option.splits prod.splits sum.splits if_splits)
  have "db_inv (e_pg env) (w_db w1)"
    using protocol_inv [OF async_effectD [OF f f1]] env inv by (simp add: env_ok_def)
  from env this p show ?thesis
  proof (rule persist_success)
    fix s
    assume "map_of (storage (w_db w')) (ctx_queue_name ctx) = Some s"
      "lookup_checkpoint (ctx_task_id ctx, name) s = Some state"
      "map_of (w_cache w') name = Some state" "written \<Longrightarrow> state = j"
    then show ?thesis using v ser by (cases "ser x"; cases "dec state") (auto split: if_splits)
  qed
qed

text \<open>A step that is not cached and returns a value has committed it: the database holds a
  checkpoint of the task under the step's name, the cache holds the same state, and the returned
  value is either the one this call computed and serialized to that state, or what an earlier commit
  of the same name decodes to. No step returns a value that a later replay could contradict.\<close>

lemma step_returns_committed_value:
  assumes env: "env_ok env" and inv: "db_inv (e_pg env) (w_db w)"
    and f: "async_effect (protocol (e_pg env)) f"
    and uncached: "map_of (w_cache w) name = None"
    and run: "checkpoint env ctx ser dec name f w = Some (Inr v, w')"
  shows "\<exists>s state. map_of (storage (w_db w')) (ctx_queue_name ctx) = Some s
    \<and> lookup_checkpoint (ctx_task_id ctx, name) s = Some state
    \<and> map_of (w_cache w') name = Some state \<and> (ser v = Inr state \<or> dec state = Inr v)"
  using assms by (rule checkpoint_commits)

definition demo_fresh_world :: world where
  "demo_fresh_world =
     snd (the (checkpoint (quiet exact_pg) demo_ctx int_ser int_dec ''new'' (areturn 5) demo_ctx_world))"

lemma step_returns_committed_value_witness:
  "\<exists>s state. map_of (storage (w_db demo_fresh_world)) (ctx_queue_name demo_ctx) = Some s
    \<and> lookup_checkpoint (ctx_task_id demo_ctx, ''new'') s = Some state
    \<and> map_of (w_cache demo_fresh_world) ''new'' = Some state
    \<and> (int_ser 5 = Inr state \<or> int_dec state = Inr 5)"
proof (rule step_returns_committed_value)
  show "env_ok (quiet exact_pg)" using exact_pg_ok by (rule quiet_ok)
  have "db_inv (e_pg (quiet exact_pg)) (w_db demo_ctx_world)"
    using protocol_inv [OF effectD [OF context_protocol(1) [OF quiet_ok [OF exact_pg_ok]] demo_context]]
      exact_pg_ok demo_checkpointed_inv by simp
  then show "db_inv (e_pg (quiet exact_pg)) (w_db demo_ctx_world)" .
  show "async_effect (protocol (e_pg (quiet exact_pg))) (areturn 5)"
    by (simp add: async_effect_def areturn_def protocol.effect_refl)
  show "map_of (w_cache demo_ctx_world) ''new'' = None" by code_simp
  have "map_option fst (checkpoint (quiet exact_pg) demo_ctx int_ser int_dec ''new'' (areturn 5) demo_ctx_world)
      = Some (Inr 5)"
    by code_simp
  then show "checkpoint (quiet exact_pg) demo_ctx int_ser int_dec ''new'' (areturn 5) demo_ctx_world =
      Some (Inr 5, demo_fresh_world)"
    by (auto simp: demo_fresh_world_def)
qed

end
