(* ===== verification/WorkflowProperties.thy ===== *)
theory WorkflowProperties
  imports ContextProperties
begin

section \<open>Sleeps, waits and workflow identities\<close>

text \<open>
  The remaining operations of the task context: what is durable when a sleep suspends the attempt,
  how cross-queue waits replay, and that distinct workflow identities have distinct checkpoints.
\<close>

subsection \<open>Sleeps\<close>

lemma ebind_Inl_iff:
  "ebind m f s = (Inl e, t) \<longleftrightarrow>
    m s = (Inl e, t) \<or> (\<exists>x u. m s = (Inr x, u) \<and> f x u = (Inl e, t))"
  by (auto simp: ebind_apply split: prod.splits sum.splits)

text \<open>Operations that never report a suspension of their own.\<close>

definition unsuspending :: "'a rust \<Rightarrow> bool" where
  "unsuspending m \<longleftrightarrow> (\<forall>w w'. m w \<noteq> (Inl Error_Suspended, w'))"

lemma map_sum_Inl_iff: "map_sum f g r = Inl y \<longleftrightarrow> (\<exists>e. r = Inl e \<and> y = f e)"
  by (cases r) auto

lemma unsuspending_statement: "unsuspending (map_err map_sqlx_error m)"
proof -
  have "Error_Suspended \<noteq> map_sqlx_error e" for e
    using map_sqlx_error_cases [of e] by auto
  then show ?thesis by (auto simp: unsuspending_def map_err_apply map_sum_Inl_iff)
qed

lemma unsuspending_bind:
  "unsuspending m \<Longrightarrow> (\<And>x. unsuspending (f x)) \<Longrightarrow> unsuspending (ebind m f)"
  by (auto simp: unsuspending_def ebind_Inl_iff)

lemma suspended_bind:
  assumes "ebind m f w = (Inl Error_Suspended, w')" and "unsuspending m"
  obtains x u where "m w = (Inr x, u)" "f x u = (Inl Error_Suspended, w')"
  using assms unfolding unsuspending_def ebind_Inl_iff by blast

lemma unsuspending_pure:
  "unsuspending (ereturn x)" "e \<noteq> Error_Suspended \<Longrightarrow> unsuspending (eraise e)"
  "r \<noteq> Inl Error_Suspended \<Longrightarrow> unsuspending (elift r)" "unsuspending (emodify f)" "unsuspending (egets g)"
  by (auto simp: unsuspending_def esm_apply)

lemma unsuspending_persist: "unsuspending (persist_checkpoint env ctx name v)"
  unfolding persist_checkpoint_def cache_checkpoint_def eseq_def
  by (intro unsuspending_bind unsuspending_statement)
    (auto intro!: unsuspending_bind unsuspending_pure split: option.splits)

lemma unsuspending_schedule: "unsuspending (ctx_schedule_run env tlib ctx wake)"
  unfolding ctx_schedule_run_def
  by (intro unsuspending_bind unsuspending_statement unsuspending_pure) (simp add: schedule_of_text_def)

lemma serde_not_suspended: "serde r \<noteq> Inl Error_Suspended"
  by (cases r) simp_all

lemma storage_name_not_suspended: "workflow_storage_name prefix name \<noteq> Inl Error_Suspended"
  by (simp add: workflow_storage_name_def Let_def)

definition wake_time :: "env \<Rightarrow> time_lib \<Rightarrow> TaskContext \<Rightarrow> string \<Rightarrow> int \<Rightarrow> json option \<Rightarrow> int rust" where
  "wake_time env tlib self name wake_at cached =
     (case cached of
         Some state \<Rightarrow> elift (serde (tl_from_value tlib state))
       | None \<Rightarrow>
           ebind (elift (serde (tl_to_value tlib wake_at))) (\<lambda>serialized.
           ebind (persist_checkpoint env self name serialized) (\<lambda>persisted.
             elift (serde (tl_from_value tlib (fst persisted))))))"

lemma unsuspending_wake: "unsuspending (wake_time env tlib ctx name wake cached)"
  unfolding wake_time_def
  by (cases cached) (auto intro!: unsuspending_bind unsuspending_pure unsuspending_persist serde_not_suspended)

text \<open>A context agrees with the tables: its run belongs to its task, and what its cache holds under a name
  is stored under that name. Creating the context establishes it.\<close>

definition context_backed :: "TaskContext \<Rightarrow> world \<Rightarrow> bool" where
  "context_backed ctx w \<longleftrightarrow> (\<exists>s r. map_of (storage (w_db w)) (ctx_queue_name ctx) = Some s
     \<and> r \<in> set (runs s) \<and> r_id r = ctx_run_id ctx \<and> r_task_id r = ctx_task_id ctx
     \<and> (\<forall>name state. map_of (w_cache w) name = Some state \<longrightarrow>
          lookup_checkpoint (ctx_task_id ctx, name) s = Some state))"

lemma context_new_backed:
  assumes "env_ok env" and "db_inv (e_pg env) (w_db w)" and "TaskContext_new env q task w = (Inr ctx, w')"
  shows "context_backed ctx w'"
  using env_inv [OF assms(1,2)] assms(3)
  by (rule context_new_success) (auto simp: context_backed_def ctx_task_id_def ctx_run_id_def)

text \<open>A stored checkpoint belongs to a stored task.\<close>

lemma stored_task_drawn:
  assumes inv: "db_inv pg db" and s: "map_of (storage db) q = Some s"
    and c: "lookup_checkpoint (tid, name) s = Some state"
  shows "drawn pg (seq db) tid"
proof -
  have "tid \<in> t_id ` set (tasks s)"
    using db_inv_store [OF inv s] c unfolding store_inv_def store_ok_iff
    by (auto simp: lookup_checkpoint_def dest!: find_row_SomeD split: option.splits)
  then show ?thesis using drawn_task [OF inv s] by auto
qed

lemma wake_time_stored:
  assumes env: "env_ok env" "db_inv (e_pg env) (w_db w)" and backed: "context_backed ctx w"
    and "wake_time env tlib ctx name wake_at (map_of (w_cache w) name) w = (Inr wake, w')"
  shows "\<exists>s state. map_of (storage (w_db w')) (ctx_queue_name ctx) = Some s
    \<and> lookup_checkpoint (ctx_task_id ctx, name) s = Some state
    \<and> map_of (w_cache w') name = Some state \<and> tl_from_value tlib state = Inr wake"
proof (cases "map_of (w_cache w) name")
  case None
  then obtain j state written where p: "persist_checkpoint env ctx name j w = (Inr (state, written), w')"
    and d: "serde (tl_from_value tlib state) = Inr wake"
    using assms(4) by (auto simp: wake_time_def ebind_Inr_iff esm_Inr_iff)
  have "tl_from_value tlib state = Inr wake" using d by (cases "tl_from_value tlib state") auto
  with env p show ?thesis by - (rule persist_success, blast+)
next
  case (Some state)
  then have "w' = w" "tl_from_value tlib state = Inr wake" using assms(4)
    by (cases "tl_from_value tlib state"; auto simp: wake_time_def esm_Inr_iff)+
  then show ?thesis using backed Some unfolding context_backed_def by blast
qed

lemma schedule_suspends:
  assumes env: "env_ok env" "db_inv (e_pg env) (w_db w)"
    and run: "ctx_schedule_run env tlib ctx wake_at w = (Inr Sched_Suspended, w')"
  shows "w_cache w' = w_cache w \<and> (\<exists>s r t. map_of (storage (w_db w')) (ctx_queue_name ctx) = Some s
    \<and> r \<in> set (runs s) \<and> r_id r = ctx_run_id ctx \<and> r_state r = Sleeping
    \<and> tl_encode tlib wake_at = Inr (r_available_at r)
    \<and> r_claimed_by r = None \<and> t \<in> set (tasks s) \<and> t_id t = r_task_id r \<and> t_state t = Sleeping)"
proof -
  let ?d = "e_others env (w_tick w) (w_db w)" and ?q = "ctx_queue_name ctx" and ?i = "ctx_run_id ctx"
  from run obtain out wake where wake: "tl_encode tlib wake_at = Inr wake"
    and call: "execute env Pool (schedule_run (e_pg env) ?q ?i wake) w = (Inr out, w')"
    and out: "schedule_of_text (e_fmt env) out = Inr Sched_Suspended"
    by (auto simp: ctx_schedule_run_def ebind_Inr_iff esm_Inr_iff map_err_Inr_iff)
  have out': "out = ''suspended''" using out by (simp add: schedule_of_text_def split: if_splits)
  note sched = pool_success(1) [OF call, unfolded out']
  have inv: "db_inv (e_pg env) ?d" using env by (rule env_inv)
  from sched obtain x d where lock: "lock_running_attempt (e_pg env) ?q ?i False ?d = (Inr x, d)"
    by (auto simp: schedule_run_def ebind_Inr_iff)
  have cache: "w_cache w' = w_cache w" using pool_success(2) [OF call] by (metis begin_event_sel(2) world.select_convs(5) world.surjective world.update_convs(1))
  from lock inv show ?thesis
  proof (rule attempt_success)
    fix s r t lease
    assume a: "queue_name_ok (e_pg env) ?q" "map_of (storage ?d) ?q = Some s"
      "running_attempt s ?i r t lease" "False = (lease \<le> pg_clock (e_pg env) (seq ?d))"
    have "w_db w' = put_store ?q (suspended_store wake ?i (r_task_id r) s) (tick ?d)"
      using sched schedule_run_eval [OF inv a(1-3), of wake] a(4)
      by (auto split: sum.splits bool.splits if_splits)
    then have "map_of (storage (w_db w')) ?q = Some (suspended_store wake ?i (r_task_id r) s)" by simp
    moreover have "sleep_run wake r \<in> set (runs (suspended_store wake ?i (r_task_id r) s))"
      "t\<lparr>t_state := Sleeping\<rparr> \<in> set (tasks (suspended_store wake ?i (r_task_id r) s))"
      using running_attemptD [OF a(3)] by (auto simp: suspended_store_def set_update_where)
    ultimately show ?thesis using cache wake running_attemptD [OF a(3)]
      by (intro conjI exI [where x = "suspended_store wake ?i (r_task_id r) s"]
          exI [where x = "sleep_run wake r"] exI [where x = "t\<lparr>t_state := Sleeping\<rparr>"])
        (simp_all add: sleep_run_def)
  qed
qed

text \<open>A sleep that suspends has fixed its wake time and then scheduled its run.\<close>

lemma suspended_sleep_parts:
  assumes run: "sleep_until_inner env tlib ctx sl wake_at w = (Inl Error_Suspended, w')"
  obtains name wake w1 where "workflow_storage_name SLEEP_PREFIX (sleep_name sl) = Inr name"
    and "wake_time env tlib ctx name wake_at (map_of (w_cache w) name) w = (Inr wake, w1)"
    and "ctx_schedule_run env tlib ctx wake w1 = (Inr Sched_Suspended, w')"
proof -
  have "ebind (elift (workflow_storage_name SLEEP_PREFIX (sleep_name sl))) (\<lambda>name.
      ebind (cached_checkpoint name) (\<lambda>cached. ebind (wake_time env tlib ctx name wake_at cached) (\<lambda>wake.
        ebind (ctx_schedule_run env tlib ctx wake) (\<lambda>out. case out of Sched_Ready \<Rightarrow> ereturn ()
          | Sched_Suspended \<Rightarrow> eraise Error_Suspended | Sched_Cancelled \<Rightarrow> eraise Error_Cancelled)))) w =
      (Inl Error_Suspended, w')"
    using run by (simp add: sleep_until_inner_def wake_time_def)
  then obtain name where name: "workflow_storage_name SLEEP_PREFIX (sleep_name sl) = Inr name"
    and 1: "ebind (wake_time env tlib ctx name wake_at (map_of (w_cache w) name)) (\<lambda>wake.
        ebind (ctx_schedule_run env tlib ctx wake) (\<lambda>out. case out of Sched_Ready \<Rightarrow> ereturn ()
          | Sched_Suspended \<Rightarrow> eraise Error_Suspended | Sched_Cancelled \<Rightarrow> eraise Error_Cancelled)) w =
      (Inl Error_Suspended, w')"
    by (rule suspended_bind [OF _ unsuspending_pure(3) [OF storage_name_not_suspended]])
      (auto simp: esm_Inr_iff cached_checkpoint_def ebind_apply esm_apply)
  from 1 unsuspending_wake obtain wake w1
    where wk: "wake_time env tlib ctx name wake_at (map_of (w_cache w) name) w = (Inr wake, w1)"
    and 2: "ebind (ctx_schedule_run env tlib ctx wake) (\<lambda>out. case out of Sched_Ready \<Rightarrow> ereturn ()
          | Sched_Suspended \<Rightarrow> eraise Error_Suspended | Sched_Cancelled \<Rightarrow> eraise Error_Cancelled) w1 =
      (Inl Error_Suspended, w')"
    by (rule suspended_bind)
  from 2 unsuspending_schedule have sc: "ctx_schedule_run env tlib ctx wake w1 = (Inr Sched_Suspended, w')"
    by (rule suspended_bind) (auto simp: esm_apply split: ScheduleOutcome.splits)
  from name wk sc show thesis by (rule that)
qed

text \<open>\<^bold>\<open>C19.\<close> When a durable sleep of a context that agrees with the tables reports the attempt suspended,
  the suspension is durable: a checkpoint of the task under the sleep's name is stored, in the tables and
  not only in the cache, the run is sleeping until the time that checkpoint holds (as the driver encodes
  it, to the microsecond), its claim is released, and its task is sleeping. The wake time is the committed
  one, so a replay with another time does not move it.\<close>

theorem suspended_sleep_is_durable:
  assumes env: "env_ok env" and inv: "db_inv (e_pg env) (w_db w)" and backed: "context_backed ctx w"
    and run: "sleep_until_inner env tlib ctx sl wake_at w = (Inl Error_Suspended, w')"
  shows "\<exists>name state wake s r t. workflow_storage_name SLEEP_PREFIX (sleep_name sl) = Inr name
    \<and> map_of (storage (w_db w')) (ctx_queue_name ctx) = Some s
    \<and> lookup_checkpoint (ctx_task_id ctx, name) s = Some state
    \<and> map_of (w_cache w') name = Some state \<and> tl_from_value tlib state = Inr wake
    \<and> (\<forall>state0. map_of (w_cache w) name = Some state0 \<longrightarrow> state = state0)
    \<and> r \<in> set (runs s) \<and> r_id r = ctx_run_id ctx \<and> r_state r = Sleeping
    \<and> tl_encode tlib wake = Inr (r_available_at r) \<and> r_claimed_by r = None
    \<and> t \<in> set (tasks s) \<and> t_id t = ctx_task_id ctx \<and> r_task_id r = t_id t \<and> t_state t = Sleeping"
proof -
  obtain name wake w1 where name: "workflow_storage_name SLEEP_PREFIX (sleep_name sl) = Inr name"
    and wk: "wake_time env tlib ctx name wake_at (map_of (w_cache w) name) w = (Inr wake, w1)"
    and sc: "ctx_schedule_run env tlib ctx wake w1 = (Inr Sched_Suspended, w')"
    using run by (rule suspended_sleep_parts)
  have "effect (protocol (e_pg env)) (wake_time env tlib ctx name wake_at (map_of (w_cache w) name))"
    unfolding wake_time_def using env by (intro effects; assumption)
  then have "protocol (e_pg env) w w1" using wk by (rule effectD)
  then have inv1: "db_inv (e_pg env) (w_db w1)"
    using protocol_inv env inv by (simp add: env_ok_def)
  obtain s1 state where st: "map_of (storage (w_db w1)) (ctx_queue_name ctx) = Some s1"
    "lookup_checkpoint (ctx_task_id ctx, name) s1 = Some state" "map_of (w_cache w1) name = Some state"
    "tl_from_value tlib state = Inr wake"
    using wake_time_stored [OF env inv backed wk] by blast
  have same: "state = state0" if "map_of (w_cache w) name = Some state0" for state0
    using wk st(3) that by (auto simp: wake_time_def esm_Inr_iff)
  obtain s r t where fin: "w_cache w' = w_cache w1" "map_of (storage (w_db w')) (ctx_queue_name ctx) = Some s"
    "r \<in> set (runs s)" "r_id r = ctx_run_id ctx" "r_state r = Sleeping" "tl_encode tlib wake = Inr (r_available_at r)"
    "r_claimed_by r = None" "t \<in> set (tasks s)" "t_id t = r_task_id r" "t_state t = Sleeping"
    using schedule_suspends [OF env inv1 sc] by blast
  have "effect (protocol (e_pg env)) (ctx_schedule_run env tlib ctx wake)" using env by (rule context_protocol(5))
  then have p2: "protocol (e_pg env) w1 w'" using sc by (rule effectD)
  have pg: "pg_ok (e_pg env)" using env by (simp add: env_ok_def)
  have steps: "(db_step (e_pg env))\<^sup>*\<^sup>* (w_db w) (w_db w1)" "(db_step (e_pg env))\<^sup>*\<^sup>* (w_db w1) (w_db w')"
    using \<open>protocol (e_pg env) w w1\<close> p2 pg inv inv1 by (simp_all add: protocol_def)
  obtain s0 r0 where b: "map_of (storage (w_db w)) (ctx_queue_name ctx) = Some s0" "r0 \<in> set (runs s0)"
    "r_id r0 = ctx_run_id ctx" "r_task_id r0 = ctx_task_id ctx"
    using backed unfolding context_backed_def by blast
  have tid: "r_task_id r = ctx_task_id ctx"
    using later_run [OF pg inv rtranclp_trans [OF steps] b(1) fin(2) b(2) fin(3)] fin(4) b(3,4)
    by (simp add: run_evolves_def)
  have "drawn (e_pg env) (seq (w_db w1)) (t_id t)"
    using stored_task_drawn [OF inv1 st(1,2)] tid fin(9) by simp
  then have "lookup_checkpoint (ctx_task_id ctx, name) s = Some state"
    using later_store(1) [OF pg inv1 steps(2) st(1) fin(2)] fin(8,9) tid st(2)
    unfolding store_evolves_def by metis
  with name fin st(3,4) same tid show ?thesis by (intro exI conjI) (assumption | simp)+
qed

text \<open>A stand-in for the \<open>time\<close> crate on which witnesses evaluate.\<close>

definition demo_time :: time_lib where
  "demo_time = \<lparr>tl_to_value = int_ser, tl_from_value = int_dec,
     tl_signed = (\<lambda>d. Inr (uint (as_secs d) * 1000000000 + uint (subsec_nanos d))),
     tl_checked_add = (\<lambda>a b. Some (a + b)), tl_encode = (\<lambda>t. Inr (t div 1000)),
     tl_decode = (\<lambda>t. t * 1000)\<rparr>"

definition demo_slept :: world where
  "demo_slept = snd (sleep_until_inner (quiet exact_pg) demo_time demo_ctx (Sleep_new ''nap'') 50000000123
     demo_ctx_world)"

lemma demo_ctx_inv: "db_inv exact_pg (w_db demo_ctx_world)"
  using protocol_inv [OF effectD [OF context_protocol(1) [OF quiet_ok [OF exact_pg_ok]] demo_context]]
    exact_pg_ok demo_checkpointed_inv by simp

theorem suspended_sleep_is_durable_witness:
  "\<exists>state s r. map_of (storage (w_db demo_slept)) ''q'' = Some s
    \<and> lookup_checkpoint (0, ''$sleep:nap'') s = Some state \<and> r \<in> set (runs s) \<and> r_id r = 1
    \<and> r_state r = Sleeping \<and> (\<exists>wake. tl_from_value demo_time state = Inr wake \<and> r_available_at r = wake div 1000)"
proof -
  have "fst (sleep_until_inner (quiet exact_pg) demo_time demo_ctx (Sleep_new ''nap'') 50000000123
      demo_ctx_world) = Inl Error_Suspended"
    by code_simp
  then have run: "sleep_until_inner (quiet exact_pg) demo_time demo_ctx (Sleep_new ''nap'') 50000000123
      demo_ctx_world = (Inl Error_Suspended, demo_slept)"
    by (simp add: demo_slept_def prod_eq_iff)
  have inv: "db_inv (e_pg (quiet exact_pg)) (w_db demo_ctx_world)" by (simp add: demo_ctx_inv)
  have backed: "context_backed demo_ctx demo_ctx_world"
    by (rule context_new_backed [OF quiet_ok [OF exact_pg_ok] _ demo_context]) (simp add: demo_checkpointed_inv)
  have "workflow_storage_name SLEEP_PREFIX (sleep_name (Sleep_new ''nap'')) = Inr ''$sleep:nap''"
    "ctx_queue_name demo_ctx = ''q''" "ctx_task_id demo_ctx = 0" "ctx_run_id demo_ctx = 1"
    by code_simp+
  then show ?thesis
    using suspended_sleep_is_durable [OF quiet_ok [OF exact_pg_ok] inv backed run]
    by (auto simp: demo_time_def)
qed

subsection \<open>Waits\<close>

lemma wait_round_trip:
  "ser v = Inr j \<Longrightarrow> dec j = Inr v \<Longrightarrow> wait_to_value ser (n, v) = Inr k \<Longrightarrow>
    wait_from_value dec k = Inr (n, v)"
  by (auto simp: wait_to_value_def wait_from_value_def wait_fields_def res_bind_eq_Inr)

text \<open>Waiting for a task of the same queue is refused without any effect. A wait for a task
  of another queue whose output was committed under that queue and task identifier replays it: it
  returns the stored output without polling the other queue (whatever became of the child task), and
  refuses a reference that names another task definition.\<close>

lemma committed_wait_replays:
  assumes codec: "ser v = Inr j" "dec j = Inr v"
    and stored: "wait_to_value ser (name, v) = Inr state"
    and cached: "map_of (w_cache w) (task_wait_name (f_uuid F) (ref_queue_name task) (ref_task_id task)) =
      Some state"
  shows "await_task_ref env F ctx ser dec task timeout w =
    (if ref_queue_name task = ctx_queue_name ctx
     then Some (Inl (Error_InvalidOptions ''TaskContext::await_task cannot wait on tasks in the same queue because this can deadlock workers. Spawn the child in a different queue.''), w)
     else if name \<noteq> ref_task_name task
     then Some (Inl (Error_TaskNameMismatch (ref_task_id task) (ref_task_name task) name), w)
     else Some (Inr v, w))"
proof -
  have "wait_from_value dec state = Inr (name, v)" using codec stored by (rule wait_round_trip)
  then show ?thesis using cached
    by (simp add: await_task_ref_def checkpoint_def cached_checkpoint_def abind_apply async_apply esm_apply)
qed

definition demo_ref :: TaskRef where
  "demo_ref = \<lparr>ref_queue_name = ''other'', ref_task_name = ''child'', ref_task_id = 3\<rparr>"

lemma demo_wait_name: "task_wait_name (f_uuid demo_fmt) (ref_queue_name demo_ref) (ref_task_id demo_ref) =
    ''$await-task:other:aaa''"
  by code_simp

lemma committed_wait_replays_witness:
  "await_task_ref (quiet exact_pg) demo_fmt demo_ctx int_ser int_dec demo_ref None
      (demo_ctx_world\<lparr>w_cache := [(''$await-task:other:aaa'',
        JObj [(''output'', JInt 4), (''taskName'', JStr ''child'')])]\<rparr>) =
    Some (Inr 4, demo_ctx_world\<lparr>w_cache := [(''$await-task:other:aaa'',
        JObj [(''output'', JInt 4), (''taskName'', JStr ''child'')])]\<rparr>)"
  by (subst committed_wait_replays [where v = 4 and j = "JInt 4" and name = "''child''"
        and state = "JObj [(''output'', JInt 4), (''taskName'', JStr ''child'')]"])
    (simp_all add: demo_wait_name, simp_all add: int_ser_def int_dec_def wait_to_value_def demo_ref_def
      demo_ctx_def)

subsection \<open>Identities\<close>

text \<open>The workflow identities of a task, with the checkpoint name each is stored under.\<close>

datatype identity =
    Plain_step string
  | Keyed_step string string
  | Named_sleep string
  | Task_result string uuid

fun identity_name :: "fmt \<Rightarrow> identity \<Rightarrow> error + string" where
  "identity_name F (Plain_step n) = workflow_storage_name STEP_PREFIX n"
| "identity_name F (Keyed_step n k) = keyed_workflow_storage_name KEYED_STEP_PREFIX n k"
| "identity_name F (Named_sleep n) = workflow_storage_name SLEEP_PREFIX n"
| "identity_name F (Task_result q i) = Inr (task_wait_name (f_uuid F) q i)"

lemma split_at_last:
  assumes "a @ c # b = a' @ c # b'" and "c \<notin> set b" and "c \<notin> set b'"
  shows "a = a' \<and> b = b'"
proof -
  obtain us where "a = a' @ us \<and> us @ c # b = c # b' \<or> a @ us = a' \<and> c # b = us @ c # b'"
    using assms(1) by (auto simp: append_eq_append_conv2)
  then show ?thesis using assms(2,3) by (cases us) (auto dest: arg_cong [where f = set])
qed

text \<open>\<^bold>\<open>C30.\<close> Distinct workflow identities never share a checkpoint: a step, a keyed step, a sleep
  and a cross-queue wait whose persisted names coincide are the same identity, for arbitrary names,
  keys and queue names, provided the text of a UUID identifies it and has no colon.\<close>

theorem workflow_identities_do_not_collide:
  assumes uuid: "\<forall>i i'. f_uuid F i = f_uuid F i' \<longrightarrow> i = i'" "\<forall>i. CHR '':'' \<notin> set (f_uuid F i)"
    and a: "identity_name F a = Inr name" and b: "identity_name F b = Inr name'"
  shows "name = name' \<longleftrightarrow> a = b"
proof -
  have wait: "q = q' \<and> i = i'"
    if "task_wait_name (f_uuid F) q i = task_wait_name (f_uuid F) q' i'" for q q' i i'
    using that uuid split_at_last [of q "CHR '':''" "f_uuid F i" q' "f_uuid F i'"]
    by (auto simp: task_wait_name_def)
  have disjoint: "STEP_PREFIX @ n \<noteq> task_wait_name f q i" "KEYED_STEP_PREFIX @ n \<noteq> task_wait_name f q i"
    "SLEEP_PREFIX @ n \<noteq> task_wait_name f q i" for n f q i
    unfolding task_wait_name_def by (simp_all only: namespace_prefixes_disjoint not_False_eq_True)
  have "a = b" if "identity_name F b = Inr name"
    using a that
    by (cases a; cases b)
      (auto simp: workflow_storage_name_Inr keyed_workflow_storage_name_Inr disjoint disjoint [symmetric]
        namespace_prefixes_disjoint namespace_prefixes_disjoint [symmetric]
        dest: keyed_identity_inject wait)
  then show ?thesis using a b by auto
qed

lemma demo_texts: "show_nat (Suc 0) = ''1''" "show_nat (Suc (Suc 0)) = ''2''"
  by code_simp+

theorem workflow_identities_do_not_collide_witness:
  "''$step-keyed:2:abc'' = ''$step-keyed:1:abc'' \<longleftrightarrow> Keyed_step ''ab'' ''c'' = Keyed_step ''a'' ''bc''"
proof (rule workflow_identities_do_not_collide [where F = demo_fmt])
  show "\<forall>i i'. f_uuid demo_fmt i = f_uuid demo_fmt i' \<longrightarrow> i = i'"
    by (auto simp: demo_fmt_def dest: arg_cong [where f = length])
  show "\<forall>i. CHR '':'' \<notin> set (f_uuid demo_fmt i)" by (simp add: demo_fmt_def)
  show "identity_name demo_fmt (Keyed_step ''ab'' ''c'') = Inr ''$step-keyed:2:abc''"
    "identity_name demo_fmt (Keyed_step ''a'' ''bc'') = Inr ''$step-keyed:1:abc''"
    by (simp_all add: keyed_workflow_storage_name_Inr keyed_identity_def KEYED_STEP_PREFIX_def
        demo_texts not_all_space_ascii)
qed

end
