(* ===== verification/ExecutionProperties.thy ===== *)
theory ExecutionProperties
  imports Race WorkflowProperties DbBehaviour
begin

section \<open>One attempt, from claim to outcome\<close>

text \<open>
  Properties of \<open>execute_task\<close>: an attempt that ends is counted once, it touches the database only through
  the protocol, success is only reported for durable outcomes, and failures of the application never
  pass for a lost lease. The locales state what the calls and the steps of an attempt have to respect for
  a relation between the worlds before and after; supervision and the attempt as a whole then respect it.
\<close>

subsection \<open>Effects of an attempt\<close>

lemma supervision_interval_nonneg [simp]: "0 \<le> supervision_interval lease"
  by (auto simp: supervision_interval_def MAX_SUPERVISION_INTERVAL_def u64_try_from_def split: option.splits)

locale call_discipline = effect_order R
  for R :: "world \<Rightarrow> world \<Rightarrow> bool" +
  fixes env :: env
  assumes supervise_effect: "effect R (client_supervise_run env q i renew)"
    and context_effect: "effect R (TaskContext_new env q task)"
    and complete_effect: "effect R (executor_complete_run env q i v)"
    and fail_effect: "effect R (executor_fail_run env q i v)"
    and pause_effect: "0 \<le> d \<Longrightarrow> effect R (sleep env d () :: unit rust)"
begin

lemma etry_effect: "effect R m \<Longrightarrow> effect R (etry m)"
  by (fastforce simp: effect_def etry_def split: prod.splits)

lemma persisted_effect: "effect R (persisted_execution_outcome env q i)"
  unfolding persisted_execution_outcome_def by (intro effect_ebind supervise_effect effect_pure)

end

text \<open>An attempt also ends its metrics guard.\<close>

locale attempt_discipline = call_discipline R env
  for R :: "world \<Rightarrow> world \<Rightarrow> bool" and env :: env +
  assumes finish_effect: "effect R (finish out)"
begin

lemma lease_lost_effect: "effect R lease_lost"
  unfolding lease_lost_def by (intro effect_eseq finish_effect effect_pure)

lemma finish_with_effect: "effect R (finish_with out)"
  unfolding finish_with_def by (intro effect_eseq finish_effect effect_if effect_pure)

lemma failure_effect: "effect R (finish_failure_transition env q i r)"
proof (cases r)
  case (Inl e)
  then show ?thesis
    by (cases e) (simp_all add: finish_failure_transition_def finish_effect lease_lost_effect effect_pure)
next
  case (Inr u)
  then show ?thesis
    by (simp add: finish_failure_transition_def effect_ebind persisted_effect finish_effect)
qed

lemma fail_attempt_effect: "effect R (fail_attempt env q i failure)"
  unfolding fail_attempt_def by (intro effect_ebind etry_effect fail_effect failure_effect)

lemma completion_effect:
  "effect R (case r of Inr _ \<Rightarrow> finish Outcome_Completed | Inl Error_Cancelled \<Rightarrow> finish Outcome_Cancelled
     | Inl Error_LeaseLost \<Rightarrow> lease_lost | Inl err \<Rightarrow> eraise err)"
proof (cases r)
  case (Inl e)
  then show ?thesis by (cases e) (simp_all add: finish_effect lease_lost_effect effect_pure)
qed (simp add: finish_effect)

lemma settle_effect: "effect R (settle env F q i result)"
  unfolding settle_def
  by (auto simp del: sum.case split: sum.split intro!: effect_ebind etry_effect complete_effect
      completion_effect effect_if effect_option persisted_effect finish_with_effect fail_attempt_effect)

lemma attempt_entry_effect: "effect R (attempt_entry env F xc task lease)"
proof -
  have "effect R (case created of Inr ctx \<Rightarrow> ereturn (Some (h, ctx))
      | Inl err \<Rightarrow> (case err of Error_InvalidTaskHeaders _ \<Rightarrow>
          eseq (fail_attempt env (xc_queue_name xc) (claimed_run_id task) (serialize_error F err)) (ereturn None)
        | Error_LeaseLost \<Rightarrow> eseq lease_lost (ereturn None) | _ \<Rightarrow> eraise err))" for h created
  proof (cases created)
    case (Inl e)
    then show ?thesis by (cases e) (simp_all add: fail_attempt_effect lease_lost_effect effect_pure effect_eseq)
  qed (simp add: effect_pure)
  then show ?thesis unfolding attempt_entry_def
    by (auto simp del: sum.case intro!: effect_ebind supervise_effect effect_option finish_with_effect
        etry_effect context_effect effect_eseq effect_pure)
qed

lemma attempt_entry_handler:
  assumes "attempt_entry env F xc task lease w = (Inr (Some (h, ctx)), w')"
  shows "map_of (xc_registry xc) (claimed_task_name task) = Some h"
proof (cases "map_of (xc_registry xc) (claimed_task_name task)")
  case None
  then show ?thesis using assms by (simp add: attempt_entry_def esm_apply)
next
  case (Some h')
  then obtain created v where run: "(case created of Inr ctx \<Rightarrow> ereturn (Some (h', ctx))
      | Inl err \<Rightarrow> (case err of Error_InvalidTaskHeaders _ \<Rightarrow>
          eseq (fail_attempt env (xc_queue_name xc) (claimed_run_id task) (serialize_error F err)) (ereturn None)
        | Error_LeaseLost \<Rightarrow> eseq lease_lost (ereturn None) | _ \<Rightarrow> eraise err)) v = (Inr (Some (h, ctx)), w')"
    using assms by (auto simp: attempt_entry_def ebind_Inr_iff eseq_Inr_iff esm_Inr_iff
        simp del: sum.case split: option.splits)
  then show ?thesis using Some
  proof (cases created)
    case (Inl e)
    then show ?thesis using run by (cases e) (simp_all add: ebind_Inr_iff esm_apply)
  qed (simp add: esm_apply)
qed

end

text \<open>Every interleaving of a handler that respects the relation respects it.\<close>

context call_discipline
begin

lemma race_step_effect:
  assumes "race_step env q i lease s t" and "future_ok R (rc_handler s)"
  shows "R (rc_world s) (rc_world t) \<and> future_ok R (rc_handler t)"
  using assms
proof cases
  case (handler_runs f h w')
  then show ?thesis using future_okD [of R f "rc_world s" h w'] assms(2) by simp
next
  case (supervisor_wakes until now)
  let ?d = "now - w_now (begin_event env (rc_world s))"
  have "sleep env ?d () (rc_world s) = (Inr () :: error + unit, (begin_event env (rc_world s))\<lparr>w_now := now\<rparr>)"
    by (simp add: sleep_def Let_def)
  moreover have "effect R (sleep env ?d () :: unit rust)"
    using supervisor_wakes by (intro pause_effect) simp
  ultimately have "R (rc_world s) ((begin_event env (rc_world s))\<lparr>w_now := now\<rparr>)" by (blast dest: effectD)
  then show ?thesis using supervisor_wakes assms(2) by simp
next
  case (supervisor_polls r w')
  then show ?thesis using effectD [OF supervise_effect] assms(2) by auto
qed

lemma race_effect:
  assumes "(race_step env q i lease)\<^sup>*\<^sup>* s t" and "future_ok R (rc_handler s)"
  shows "R (rc_world s) (rc_world t) \<and> future_ok R (rc_handler t)"
  using assms
proof (induction rule: rtranclp_induct)
  case (step t u)
  then show ?case using race_step_effect [OF step.hyps(2)] effect_trans by blast
qed (simp add: effect_refl)

end

context attempt_discipline
begin

lemma after_race_effect: "effect R (after_race env F q i win)"
  unfolding after_race_def
  by (auto split: winner.split sum.split intro: settle_effect finish_with_effect effect_pure)

lemma run_race_effect:
  assumes "run_race env F q i lease h w r w'" and "future_ok R h"
  shows "R w w'"
  using assms
proof cases
  case (run_race s win)
  then have "R w (rc_world s)" using race_effect [OF run_race(1)] assms(2) by (simp add: race_start_def)
  moreover have "R (rc_world s) w'" using effectD [OF after_race_effect] run_race(3) .
  ultimately show ?thesis by (rule effect_trans)
qed

lemma attempt_run_effect:
  assumes run: "attempt_run env F xc call task lease w r w'"
    and handler: "\<And>h ctx. map_of (xc_registry xc) (claimed_task_name task) = Some h \<Longrightarrow>
      future_ok R (call (ExecutionRequest_new ctx (claimed_params task) h))"
  obtains v where "R (start_guard w) v" "w' = drop_guard v"
  using run
proof cases
  case (raced h ctx v u)
  have "R (start_guard w) v" using effectD [OF attempt_entry_effect] raced(2) .
  moreover have "R v u" using run_race_effect [OF raced(3)] handler attempt_entry_handler [OF raced(2)] by blast
  ultimately show thesis using that [OF effect_trans] raced(1) by blast
qed (use effectD [OF attempt_entry_effect] that in blast)+

end

subsection \<open>The guard\<close>

text \<open>An attempt records its outcome at most once, and never without its guard.\<close>

definition guarded :: "world \<Rightarrow> world \<Rightarrow> bool" where
  "guarded w w' \<longleftrightarrow>
     same_metrics w w'
   \<or> w_guard w \<noteq> None \<and> w_guard w' = None
     \<and> (\<exists>el out. w_metrics w' = finish_execution (TaskExecution_start el) out (w_metrics w))"

lemma guarded_same: "effect same_metrics m \<Longrightarrow> effect guarded m"
  by (auto simp: effect_def guarded_def)

lemma transition_frames [effects]:
  "effect same_metrics (executor_complete_run env q i v)"
  "effect same_metrics (executor_fail_run env q i v)"
  unfolding executor_complete_run_def executor_fail_run_def by (intro effects)+

interpretation guarded_attempt: attempt_discipline guarded env for env
proof unfold_locales
  show "guarded s s" for s by (simp add: guarded_def same_metrics_def)
  show "guarded s t \<Longrightarrow> guarded t u \<Longrightarrow> guarded s u" for s t u
    unfolding guarded_def same_metrics_def by metis
  show "effect guarded (finish out)" for out
    by (auto simp: effect_def guarded_def same_metrics_def finish_def esm_apply guard_at_def split: option.splits)
qed (auto intro!: guarded_same effects)

text \<open>The relation of the database protocol, for environments made of Steda clients.\<close>

definition client_protocol :: "env \<Rightarrow> world \<Rightarrow> world \<Rightarrow> bool" where
  "client_protocol env w w' \<longleftrightarrow> (env_ok env \<longrightarrow> protocol (e_pg env) w w')"

lemma client_protocolI:
  "(env_ok env \<Longrightarrow> effect (protocol (e_pg env)) m) \<Longrightarrow> effect (client_protocol env) m"
  by (auto simp: effect_def client_protocol_def)

lemma transition_protocol [effects]:
  assumes "env_ok env"
  shows "effect (protocol (e_pg env)) (executor_complete_run env q i v)"
    "effect (protocol (e_pg env)) (executor_fail_run env q i v)"
  unfolding executor_complete_run_def executor_fail_run_def using assms by (intro effects; assumption)+

interpretation protocol_attempt: attempt_discipline "client_protocol env" env for env
proof unfold_locales
  show "client_protocol env s s" for s by (simp add: client_protocol_def protocol.effect_refl)
  show "client_protocol env s t \<Longrightarrow> client_protocol env t u \<Longrightarrow> client_protocol env s u" for s t u
    by (auto simp: client_protocol_def intro: protocol.effect_trans)
  show "effect (client_protocol env) (finish out)" for out
    by (auto simp: effect_def client_protocol_def protocol_def finish_def esm_apply split: option.splits)
qed (auto intro!: client_protocolI effects)

subsection \<open>The middleware boundary\<close>

text \<open>What the application's executors and layers have to leave alone: the counters and the guard are
  private to the crate, and the database is reached through Steda's own operations.\<close>

definition executor_ok :: "env \<Rightarrow> ErasedTaskExecutor \<Rightarrow> bool" where
  "executor_ok env h \<longleftrightarrow>
     (\<forall>input ctx. future_ok same_metrics (h input ctx) \<and> future_ok (protocol (e_pg env)) (h input ctx))"

definition service_ok :: "env \<Rightarrow> service \<Rightarrow> bool" where
  "service_ok env svc \<longleftrightarrow>
     future_ok same_metrics (svc_poll_ready svc) \<and> future_ok (protocol (e_pg env)) (svc_poll_ready svc)
   \<and> (\<forall>ctx input h. executor_ok env h \<longrightarrow>
        future_ok same_metrics (svc_call svc (ExecutionRequest_new ctx input h))
      \<and> future_ok (protocol (e_pg env)) (svc_call svc (ExecutionRequest_new ctx input h)))"

definition layers_ok :: "env \<Rightarrow> layers \<Rightarrow> bool" where
  "layers_ok env l \<longleftrightarrow> (\<forall>svc. service_ok env svc \<longrightarrow> service_ok env (l svc))"

lemma service_ok_base: "service_ok env ExecutionService"
  by (auto simp: service_ok_def ExecutionService_def ExecutionRequest_new_def request_into_parts_def
      executor_ok_def intro!: future_oks)

lemma service_ok_shared: "service_ok env svc \<Longrightarrow> service_ok env (SharedExecutionService_new svc)"
  by (auto simp: service_ok_def SharedExecutionService_new_def intro!: future_oks)

lemma layers_ok_builder:
  "layers_ok env StedaBuilder_new"
  "layers_ok env self \<Longrightarrow> layers_ok env layer \<Longrightarrow> layers_ok env (StedaBuilder_layer self layer)"
  by (simp_all add: layers_ok_def StedaBuilder_new_def StedaBuilder_layer_def)

lemma service_ok_build: "layers_ok env l \<Longrightarrow> service_ok env (steda_execution (StedaBuilder_build l))"
  by (simp add: StedaBuilder_build_def layers_ok_def service_ok_base service_ok_shared)

definition attempt_ok :: "env \<Rightarrow> ExecutionContext \<Rightarrow> bool" where
  "attempt_ok env xc \<longleftrightarrow>
     service_ok env (xc_service xc) \<and> (\<forall>(n, h)\<in>set (xc_registry xc). executor_ok env h)"

lemma attempt_ok_handler:
  assumes "attempt_ok env xc" and "map_of (xc_registry xc) name = Some h"
  shows "future_ok same_metrics (svc_call (xc_service xc) (ExecutionRequest_new ctx input h))"
    and "future_ok (protocol (e_pg env)) (svc_call (xc_service xc) (ExecutionRequest_new ctx input h))"
  using assms by (auto simp: attempt_ok_def service_ok_def dest!: map_of_SomeD)

text \<open>The counters after one attempt.\<close>

lemma guarded_drop:
  assumes "guarded (start_guard w) v"
  shows "w_guard (drop_guard v) = None \<and> (\<exists>el.
    w_metrics (drop_guard v) = drop_execution (TaskExecution_start el) (w_metrics w)
    \<or> (\<exists>out. w_metrics (drop_guard v) = finish_execution (TaskExecution_start el) out (w_metrics w)))"
  using assms unfolding guarded_def same_metrics_def
proof (elim disjE)
  assume "w_metrics v = w_metrics (start_guard w) \<and> w_guard v = w_guard (start_guard w)"
  then show ?thesis by (auto simp: start_guard_def drop_guard_def guard_at_def)
next
  assume "w_guard (start_guard w) \<noteq> None \<and> w_guard v = None \<and> (\<exists>el out.
    w_metrics v = finish_execution (TaskExecution_start el) out (w_metrics (start_guard w)))"
  then show ?thesis unfolding drop_guard_def by (simp add: start_guard_def) blast
qed

lemma execute_task_counts:
  assumes ok: "attempt_ok env xc" and run: "execute_task env F xc task lease w r w'"
  shows "w_guard w' = None \<and> (\<exists>el.
    w_metrics w' = drop_execution (TaskExecution_start el) (w_metrics w)
    \<or> (\<exists>out. w_metrics w' = finish_execution (TaskExecution_start el) out (w_metrics w)))"
proof (rule guarded_attempt.attempt_run_effect [OF run [unfolded execute_task_def]])
  show "future_ok guarded (svc_call (xc_service xc) (ExecutionRequest_new ctx (claimed_params task) h))"
    if "map_of (xc_registry xc) (claimed_task_name task) = Some h" for h ctx
    using attempt_ok_handler(1) [OF ok that] by (rule future_ok_mono) (simp add: guarded_def)
  fix v
  assume "guarded (start_guard w) v" "w' = drop_guard v"
  then show ?thesis using guarded_drop [of w v] by simp
qed

text \<open>An attempt changes the database only through calls of Steda's own functions: from a
  database that satisfies the invariants it leaves one that other clients' and its own steps can
  reach, and which satisfies them again, however it ends.\<close>

lemma execute_task_protocol:
  assumes env: "env_ok env" and ok: "attempt_ok env xc" and inv: "db_inv (e_pg env) (w_db w)"
    and run: "execute_task env F xc task lease w r w'"
  shows "(db_step (e_pg env))\<^sup>*\<^sup>* (w_db w) (w_db w')" and "db_inv (e_pg env) (w_db w')"
proof -
  have future: "future_ok (client_protocol env) (svc_call (xc_service xc) (ExecutionRequest_new ctx (claimed_params task) h))"
    if "map_of (xc_registry xc) (claimed_task_name task) = Some h" for h ctx
    using attempt_ok_handler(2) [OF ok that] by (rule future_ok_mono) (simp add: client_protocol_def)
  obtain v where v: "client_protocol env (start_guard w) v" and w': "w' = drop_guard v"
    using protocol_attempt.attempt_run_effect [OF run [unfolded execute_task_def] future] by blast
  have "protocol (e_pg env) (start_guard w) v" using v env by (simp add: client_protocol_def)
  moreover have "w_db w' = w_db v" by (simp add: w' drop_guard_def split: option.splits)
  ultimately show "(db_step (e_pg env))\<^sup>*\<^sup>* (w_db w) (w_db w')" and "db_inv (e_pg env) (w_db w')"
    using env inv by (simp_all add: protocol_def start_guard_def env_ok_def)
qed

text \<open>A worker with one task on the plain execution service, for witnesses, and an attempt of it whose
  handler resolves before the first poll of supervision.\<close>

definition demo_handler :: ErasedTaskExecutor where
  "demo_handler = (\<lambda>input ctx. future_of (ereturn (JInt 42)))"

definition demo_xc :: ExecutionContext where
  "demo_xc = ExecutionContext_new ''q'' [(''mail'', demo_handler)] (steda_execution Steda_from_pool)"

lemma demo_handler_ok: "executor_ok env demo_handler"
  by (auto simp: executor_ok_def demo_handler_def intro!: future_oks effects)

lemma demo_xc_ok: "attempt_ok env demo_xc"
  using service_ok_build [OF layers_ok_builder(1)] demo_handler_ok
  by (auto simp: attempt_ok_def demo_xc_def ExecutionContext_new_def Steda_from_pool_def)

lemma demo_handler_resolves:
  "resolves (svc_call (xc_service demo_xc) (ExecutionRequest_new ctx input demo_handler)) w
    (Inr (ExecutionResponse_new (JInt 42))) w"
proof -
  have "resolves (demo_handler input ctx) w (Inr (JInt 42)) w"
    unfolding demo_handler_def by (rule resolves_future_of) (simp add: esm_apply)
  then have "resolves (svc_call ExecutionService (ExecutionRequest_new ctx input demo_handler)) w
      (Inr (ExecutionResponse_new (JInt 42))) w"
    unfolding ExecutionService_def ExecutionRequest_new_def request_into_parts_def
    by (auto intro: resolves_then resolved)
  moreover have "resolves (svc_poll_ready ExecutionService) w (Inr ()) w"
    by (simp add: ExecutionService_def resolved)
  ultimately show ?thesis
    by (auto simp: demo_xc_def ExecutionContext_new_def Steda_from_pool_def StedaBuilder_build_def StedaBuilder_new_def
        SharedExecutionService_new_def intro: resolves_then)
qed

definition demo_attempt :: "world \<Rightarrow> world" where
  "demo_attempt w = drop_guard (snd (settle (quiet exact_pg) demo_fmt ''q'' 1
     (Inr (Inr (ExecutionResponse_new (JInt 42))))
     (snd (attempt_entry (quiet exact_pg) demo_fmt demo_xc demo_claim_task 60 (start_guard w)))))"

lemma demo_attempt_runs:
  assumes "case fst (attempt_entry (quiet exact_pg) demo_fmt demo_xc demo_claim_task 60 (start_guard w)) of
      Inr (Some x) \<Rightarrow> True | _ \<Rightarrow> False"
    and "fst (settle (quiet exact_pg) demo_fmt ''q'' 1 (Inr (Inr (ExecutionResponse_new (JInt 42))))
      (snd (attempt_entry (quiet exact_pg) demo_fmt demo_xc demo_claim_task 60 (start_guard w)))) = Inr ()"
  shows "execute_task (quiet exact_pg) demo_fmt demo_xc demo_claim_task 60 w (Inr ()) (demo_attempt w)"
proof -
  let ?entry = "attempt_entry (quiet exact_pg) demo_fmt demo_xc demo_claim_task 60 (start_guard w)"
  obtain h ctx where entry: "?entry = (Inr (Some (h, ctx)), snd ?entry)"
    using assms(1) by (auto simp: prod_eq_iff split: sum.splits option.splits)
  have "h = demo_handler"
    using guarded_attempt.attempt_entry_handler [OF entry]
    by (simp add: demo_xc_def ExecutionContext_new_def demo_claim_task_def)
  then have handler: "resolves (svc_call (xc_service demo_xc) (ExecutionRequest_new ctx (claimed_params demo_claim_task) h))
      (snd ?entry) (Inr (ExecutionResponse_new (JInt 42))) (snd ?entry)"
    using demo_handler_resolves by simp
  show ?thesis unfolding demo_attempt_def
    by (rule execute_task_alone [OF entry handler])
      (use assms(2) in \<open>simp add: prod_eq_iff demo_xc_def ExecutionContext_new_def demo_claim_task_def\<close>)
qed

subsection \<open>Outcomes are durable\<close>

lemma complete_success:
  assumes env: "env_ok env" and inv: "db_inv (e_pg env) (w_db w)"
    and run: "executor_complete_run env q i v w = (Inr (), w')"
  shows "\<exists>s r t. map_of (storage (w_db w')) q = Some s \<and> r \<in> set (runs s) \<and> r_id r = i
    \<and> r_state r = Completed \<and> r_result r = Some v \<and> t \<in> set (tasks s) \<and> t_id t = r_task_id r
    \<and> t_state t = Completed \<and> t_last_attempt_run t = i"
proof -
  let ?d = "e_others env (w_tick w) (w_db w)"
  from run have call: "execute env Pool (complete_run (e_pg env) q i v) w = (Inr True, w')"
    by (auto simp: executor_complete_run_def ebind_Inr_iff esm_Inr_iff map_err_Inr_iff split: if_splits)
  note fin = pool_success(1) [OF call]
  have inv': "db_inv (e_pg env) ?d" using env inv by (rule env_inv)
  from fin obtain x d where lock: "lock_running_attempt (e_pg env) q i False ?d = (Inr x, d)"
    by (auto simp: complete_run_def ebind_Inr_iff)
  from lock inv' show ?thesis
  proof (rule attempt_success)
    fix s r t lease
    assume a: "queue_name_ok (e_pg env) q" "map_of (storage ?d) q = Some s" "running_attempt s i r t lease"
      "False = (lease \<le> pg_clock (e_pg env) (seq ?d))"
    define s' where "s' = completed_store (pg_clock (e_pg env) (seq ?d)) i (r_task_id r) v s"
    have "w_db w' = put_store q s' (tick ?d)"
      using fin complete_run_eval [OF inv' a(1-3), of v] a(4)
      by (auto simp: s'_def split: sum.splits bool.splits)
    then have "map_of (storage (w_db w')) q = Some s'" by simp
    moreover have "finish_run (pg_clock (e_pg env) (seq ?d)) v r \<in> set (runs s')"
      "t\<lparr>t_state := Completed, t_last_attempt_run := i\<rparr> \<in> set (tasks s')"
      using running_attemptD [OF a(3)] by (auto simp: s'_def completed_store_def set_update_where)
    ultimately show ?thesis using running_attemptD [OF a(3)]
      by (intro exI [where x = s'] exI [where x = "finish_run (pg_clock (e_pg env) (seq ?d)) v r"]
          exI [where x = "t\<lparr>t_state := Completed, t_last_attempt_run := i\<rparr>"]) (simp add: finish_run_def)
  qed
qed

text \<open>An attempt whose handler returned an output ends without error in two ways.\<close>

lemma settle_output_cases:
  assumes guard: "w_guard w = Some started" and run: "settle env F q i (Inr (Inr response)) w = (Inr (), w')"
  obtains (completed) v where "executor_complete_run env q i (resp_output response) w = (Inr (), v)"
      "w_db w' = w_db v"
      "w_metrics w' = finish_execution (TaskExecution_start (max 0 (w_now v - started))) Outcome_Completed (w_metrics w)"
  | (cancelled) v where "executor_complete_run env q i (resp_output response) w = (Inl Error_Cancelled, v)"
      "w_db w' = w_db v"
      "w_metrics w' = finish_execution (TaskExecution_start (max 0 (w_now v - started))) Outcome_Cancelled (w_metrics w)"
proof -
  obtain r v where c: "executor_complete_run env q i (resp_output response) w = (r, v)" by fastforce
  then have "same_metrics w v" using transition_frames(1) by (rule effectD [rotated])
  then have v: "w_metrics v = w_metrics w" "w_guard v = Some started"
    using guard by (simp_all add: same_metrics_def)
  have end_run: "(case r of Inr _ \<Rightarrow> finish Outcome_Completed | Inl Error_Cancelled \<Rightarrow> finish Outcome_Cancelled
      | Inl Error_LeaseLost \<Rightarrow> lease_lost | Inl err \<Rightarrow> eraise err) v = (Inr (), w')"
    using run c by (simp add: settle_def ebind_apply etry_def)
  show thesis
  proof (cases r)
    case (Inl e)
    then have "e = Error_Cancelled" using end_run
      by (cases e) (auto simp: esm_apply lease_lost_def ebind_apply finish_def)
    then show thesis using end_run Inl v c
      by (intro cancelled [of v]) (auto simp: finish_def esm_apply guard_at_def)
  next
    case (Inr u)
    then show thesis using end_run v c by (intro completed [of v]) (auto simp: finish_def esm_apply guard_at_def)
  qed
qed

definition demo_settled :: world where
  "demo_settled = snd (settle (quiet exact_pg) demo_fmt ''q'' 1 (Inr (Inr (ExecutionResponse_new (JInt 42))))
     (start_guard (world_of demo_claimed)))"

subsection \<open>Failures and lease loss\<close>

lemma failure_json_name: "failure_name (Some (failure_json n m)) = Some n"
  by (simp add: failure_name_def failure_json_def)

lemma error_name_not_lease: "error_name e \<noteq> ''$LeaseExpired''"
  by (simp add: error_name_def split: error.splits)

text \<open>An answer of supervision that leaves the tables as they are.\<close>

lemma client_supervise_reads:
  assumes "env_ok env" and fault: "e_fault env (w_tick w) = None" and inv: "db_inv (e_pg env) (w_db w)"
    and run: "supervise_run (e_pg env) q i renew (e_others env (w_tick w) (w_db w)) =
      (Inr x, tick (e_others env (w_tick w) (w_db w)))"
  shows "fst (client_supervise_run env q i renew w) = supervision_of_text (e_fmt env) x"
proof -
  let ?d = "e_others env (w_tick w) (w_db w)"
  have "db_inv (e_pg env) (tick ?d)"
    using db_inv_tick [OF env_inv [OF assms(1) inv], of "w_tick w"] by (simp add: tick_def)
  then have "run_txn (supervise_run (e_pg env) q i renew) ?d = (Inr x, tick ?d)"
    by (rule run_txn_commits [of "supervise_run (e_pg env) q i renew", OF run])
  from pool_call_ok [OF fault this] show ?thesis
    by (cases "supervision_of_text (e_fmt env) x") (simp_all add: client_supervise_run_def ebind_apply map_err_apply esm_apply)
qed

text \<open>The failures an attempt persists: a serialized error or a panic.\<close>

inductive attempt_failure :: "fmt \<Rightarrow> json \<Rightarrow> bool" for F :: fmt where
  error_failure: "attempt_failure F (serialize_error F e)"
| panic_failure: "attempt_failure F (failure_json ''Panic'' (''panic: '' @ panic_message p))"

text \<open>The application cannot forge a lost lease: whatever error a handler returns, even one
  that imitates Steda's control errors, and whatever it panics with, a run that failed with the
  persisted failure is reported by supervision as failed and never as a lost lease, which only the
  reaper's own failure marker stands for.\<close>

lemma application_failure_is_not_lease_loss:
  assumes inv: "db_inv (e_pg env) (w_db w)" and env: "env_ok env" "e_fault env (w_tick w) = None"
    and q: "queue_name_ok (e_pg env) q"
    and s: "map_of (storage (e_others env (w_tick w) (w_db w))) q = Some s"
    and r: "find_row r_id i (runs s) = Some r" "r_state r = Failed" "r_failure_reason r = Some failure"
    and t: "find_row t_id (r_task_id r) (tasks s) = Some t" "t_state t \<noteq> Cancelled"
    and failure: "attempt_failure F failure"
    and renew: "case renew of None \<Rightarrow> True | Some n \<Rightarrow> n > 0"
  shows "fst (client_supervise_run env q i renew w) = Inr Sup_Failed"
proof -
  let ?d = "e_others env (w_tick w) (w_db w)"
  have name: "failure_name (Some failure) \<noteq> Some ''$LeaseExpired''"
    using failure by cases (auto simp: serialize_error_def failure_json_name error_name_not_lease)
  have "supervise_run (e_pg env) q i renew ?d = (Inr ''failed'', tick ?d)"
    using r t q s renew name lock_attempt_context_eval [OF q s r(1) t(1)]
    by (simp add: supervise_run_def ebind_apply esm_apply)
  from client_supervise_reads [OF env inv this] show ?thesis by (simp add: supervision_of_text_def)
qed

text \<open>The last attempt of a task fails with an error of the handler's that imitates a lost lease.\<close>

definition demo_forged :: db where
  "demo_forged =
     snd (run_txn (fail_run exact_pg ''q'' 1 (serialize_error demo_fmt Error_LeaseLost) False) demo_last)"

definition demo_forged_run :: run_row where
  "demo_forged_run = hd (runs (the (map_of (storage demo_forged) ''q'')))"

lemma application_failure_is_not_lease_loss_witness:
  "fst (client_supervise_run (quiet exact_pg) ''q'' 1 None (world_of demo_forged)) = Inr Sup_Failed"
proof (rule application_failure_is_not_lease_loss)
  let ?s = "the (map_of (storage demo_forged) ''q'')"
  show "env_ok (quiet exact_pg)" using exact_pg_ok by (rule quiet_ok)
  have "db_inv exact_pg demo_forged" by code_simp
  then show "db_inv (e_pg (quiet exact_pg)) (w_db (world_of demo_forged))" by simp
  show "e_fault (quiet exact_pg) (w_tick (world_of demo_forged)) = None" by simp
  show "queue_name_ok (e_pg (quiet exact_pg)) ''q''" by code_simp
  show "map_of (storage (e_others (quiet exact_pg) (w_tick (world_of demo_forged))
      (w_db (world_of demo_forged)))) ''q'' = Some ?s" by code_simp
  show "find_row r_id 1 (runs ?s) = Some demo_forged_run" by code_simp
  show "r_state demo_forged_run = Failed" by code_simp
  show "r_failure_reason demo_forged_run = Some (serialize_error demo_fmt Error_LeaseLost)" by code_simp
  show "find_row t_id (r_task_id demo_forged_run) (tasks ?s) = Some (hd (tasks ?s))" by code_simp
  show "t_state (hd (tasks ?s)) \<noteq> Cancelled" by code_simp
  show "attempt_failure demo_fmt (serialize_error demo_fmt Error_LeaseLost)" by (rule error_failure)
qed simp

end
