(* ===== verification/WorkerProperties.thy ===== *)
theory WorkerProperties
  imports Worker ExecutionProperties
begin

section \<open>The worker loop\<close>

text \<open>
  Properties of the builder and of the polling loop: what a built worker is configured with, the
  invariant of the loop (capacity, capabilities, database, accounting), why it ends, and that a drain
  ends. The loop's invariant is proved once over \<open>worker_step\<close> and carried to every reachable state
  by the interpretation of \<open>transition_system\<close>.
\<close>

subsection \<open>The builder\<close>

datatype builder_call = Lease_duration duration | Concurrency nat | Register string ErasedTaskExecutor

primrec apply_call :: "fmt \<Rightarrow> builder_call \<Rightarrow> WorkerBuilder \<Rightarrow> WorkerBuilder" where
  "apply_call F (Lease_duration d) = WorkerBuilder_lease_duration d"
| "apply_call F (Concurrency n) = WorkerBuilder_concurrency n"
| "apply_call F (Register name erased) = register_erased F name erased"

definition builder_ok :: "WorkerBuilder \<Rightarrow> bool" where
  "builder_ok b \<longleftrightarrow>
     (\<exists>n. duration_seconds (rt_lease_duration (wb_runtime b)) = Inr n \<and> n \<noteq> 0)
   \<and> 1 \<le> rt_concurrency (wb_runtime b) \<and> int (rt_concurrency (wb_runtime b)) \<le> i32_max
   \<and> distinct (map fst (wb_registry b))
   \<and> (\<forall>name\<in>fst ` set (wb_registry b). validate_task_name name = Inr ())"

lemma builder_ok_new: "builder_ok (Queue_worker q)"
proof -
  have "duration_seconds \<lparr>as_secs = 120, subsec_nanos = 0\<rparr> = Inr 120" by code_simp
  then show ?thesis
    by (simp add: builder_ok_def Queue_worker_def WorkerBuilder_new_def WorkerRuntime_default_def)
qed

lemma builder_ok_call: "builder_ok b \<Longrightarrow> builder_ok (apply_call F c b)"
  by (cases c)
    (auto simp: builder_ok_def WorkerBuilder_lease_duration_def WorkerBuilder_concurrency_def
      register_erased_def i32_try_from_def map_of_eq_None_iff split: sum.splits if_splits)

lemma builder_ok_calls: "builder_ok b \<Longrightarrow> builder_ok (fold (apply_call F) calls b)"
  by (induction calls arbitrary: b) (simp_all add: builder_ok_call)

lemma call_keeps_error: "wb_error b = Some e \<Longrightarrow> apply_call F c b = b"
  by (cases c) (simp_all add: WorkerBuilder_lease_duration_def WorkerBuilder_concurrency_def register_erased_def)

lemma calls_keep_error: "wb_error b = Some e \<Longrightarrow> fold (apply_call F) calls b = b"
  by (induction calls) (simp_all add: call_keeps_error)

lemma call_queue: "wb_queue (apply_call F c b) = wb_queue b"
  by (cases c) (simp_all add: WorkerBuilder_lease_duration_def WorkerBuilder_concurrency_def
      register_erased_def split: sum.split)

lemma calls_queue: "wb_queue (fold (apply_call F) calls b) = wb_queue b"
  by (induction calls arbitrary: b) (simp_all add: call_queue)

definition cfg_ok :: "worker_cfg \<Rightarrow> bool" where
  "cfg_ok cf \<longleftrightarrow>
     0 < cf_lease_seconds cf \<and> 1 \<le> cf_concurrency cf \<and> int (cf_concurrency cf) \<le> i32_max
   \<and> cf_supported cf = map fst (xc_registry (cf_xc cf)) \<and> cf_supported cf \<noteq> []"

text \<open>\<^bold>\<open>C35.\<close> Whatever calls are made on a worker builder, in any order: the first error is the one
  \<open>build\<close> returns, and a worker that is built has a lease of at least one second, a concurrency that
  fits a positive PostgreSQL integer, and a non-empty set of distinct valid task names, which are
  exactly the capabilities its loop claims with.\<close>

theorem built_worker_is_configured:
  assumes "WorkerBuilder_build (fold (apply_call F) (before @ after) (Queue_worker q)) = r"
  shows "(case wb_error (fold (apply_call F) before (Queue_worker q)) of
      Some e \<Rightarrow> r = Inl e
    | None \<Rightarrow> (\<forall>w. r = Inr w \<longrightarrow> wk_queue w = q
        \<and> distinct (map fst (wk_registry w)) \<and> (\<forall>name\<in>fst ` set (wk_registry w). validate_task_name name = Inr ())
        \<and> (\<forall>env G u. \<exists>cf. worker_config env G u w = Inr cf \<and> cfg_ok cf)))"
proof (cases "wb_error (fold (apply_call F) before (Queue_worker q))")
  case (Some e)
  then show ?thesis using assms calls_keep_error [OF Some, where F = F and calls = after] by (simp add: WorkerBuilder_build_def)
next
  case None
  let ?b = "fold (apply_call F) (before @ after) (Queue_worker q)"
  have ok: "builder_ok ?b" by (intro builder_ok_calls builder_ok_new)
  then obtain n where n: "duration_seconds (rt_lease_duration (wb_runtime ?b)) = Inr n" "n \<noteq> 0"
    by (auto simp: builder_ok_def)
  have "0 \<le> n" using n(1) by (auto simp: duration_seconds_Inr)
  have "wk_queue w = q \<and> distinct (map fst (wk_registry w))
      \<and> (\<forall>name\<in>fst ` set (wk_registry w). validate_task_name name = Inr ())
      \<and> (\<forall>env G u. \<exists>cf. worker_config env G u w = Inr cf \<and> cfg_ok cf)" if "r = Inr w" for w
  proof -
    have w: "wk_queue w = wb_queue ?b" "wk_registry w = wb_registry ?b" "wk_runtime w = wb_runtime ?b"
      "wb_registry ?b \<noteq> []"
      using assms that by (auto simp: WorkerBuilder_build_def split: option.splits if_splits)
    have "wb_queue ?b = q" by (simp only: calls_queue) (simp add: Queue_worker_def WorkerBuilder_new_def)
    then show ?thesis using ok n \<open>0 \<le> n\<close> w
      by (simp add: builder_ok_def worker_config_def worker_lease_seconds_def res_bind_def cfg_ok_def
          registered_task_names_def ExecutionContext_new_def)
  qed
  then show ?thesis using None by simp
qed

definition demo_queue :: "service Queue" where
  "demo_queue = \<lparr>Queue_name = ''q'', Queue_execution = steda_execution Steda_from_pool\<rparr>"

definition demo_calls :: "builder_call list" where
  "demo_calls = [Concurrency 2, Register ''mail'' demo_handler]"

definition demo_worker :: Worker where
  "demo_worker = \<lparr>wk_queue = demo_queue, wk_registry = [(''mail'', demo_handler)],
     wk_runtime = WorkerRuntime_default\<lparr>rt_concurrency := 2\<rparr>\<rparr>"

lemma validate_mail: "validate_task_name ''mail'' = Inr ()" by code_simp

lemma demo_build:
  "WorkerBuilder_build (fold (apply_call demo_fmt) (demo_calls @ [Lease_duration \<lparr>as_secs = 60, subsec_nanos = 0\<rparr>])
    (Queue_worker demo_queue)) =
    Inr (demo_worker\<lparr>wk_runtime := \<lparr>rt_lease_duration = \<lparr>as_secs = 60, subsec_nanos = 0\<rparr>, rt_concurrency = 2\<rparr>\<rparr>)"
proof -
  have "duration_seconds \<lparr>as_secs = 60, subsec_nanos = 0\<rparr> = Inr 60" by code_simp
  then show ?thesis
    by (simp add: demo_calls_def demo_worker_def Queue_worker_def WorkerBuilder_new_def
        WorkerRuntime_default_def WorkerBuilder_concurrency_def WorkerBuilder_lease_duration_def
        register_erased_def validate_mail i32_try_from_def WorkerBuilder_build_def)
qed

theorem built_worker_is_configured_witness:
  "\<exists>cf. worker_config (quiet exact_pg) demo_fmt 0 (demo_worker\<lparr>wk_runtime :=
      \<lparr>rt_lease_duration = \<lparr>as_secs = 60, subsec_nanos = 0\<rparr>, rt_concurrency = 2\<rparr>\<rparr>) = Inr cf \<and> cfg_ok cf"
proof -
  have "wb_error (fold (apply_call demo_fmt) demo_calls (Queue_worker demo_queue)) = None"
    by (simp add: demo_calls_def Queue_worker_def WorkerBuilder_new_def WorkerBuilder_concurrency_def
        register_erased_def validate_mail i32_try_from_def)
  then show ?thesis using built_worker_is_configured [OF demo_build] by simp
qed

subsection \<open>The invariant of the loop\<close>

text \<open>The errors that end a worker: neither control outcomes of one attempt nor transient
  infrastructure failures.\<close>

definition worker_fatal :: "error \<Rightarrow> bool" where
  "worker_fatal e \<longleftrightarrow> \<not> control_error e \<and> \<not> is_transient_worker_error e"

definition slot_ok :: "worker_cfg \<Rightarrow> slot \<Rightarrow> bool" where
  "slot_ok cf sl = (case sl of
       In_flight task \<Rightarrow> claimed_task_name task \<in> set (cf_supported cf)
     | Joined j \<Rightarrow> (case terminal_join_error j of None \<Rightarrow> True | Some e \<Rightarrow> worker_fatal e))"

definition phase_ok :: "worker_cfg \<Rightarrow> worker_state \<Rightarrow> bool" where
  "phase_ok cf s = (case ws_phase s of
       Claim k \<Rightarrow> length (ws_executing s) + nat k \<le> cf_concurrency cf \<and> ws_terminal s = None
     | Drain \<Rightarrow> ws_terminal s \<noteq> None \<or> ws_shutdown s
     | Exited r \<Rightarrow> ws_executing s = [] \<and> r = loop_result s \<and> (ws_terminal s \<noteq> None \<or> ws_shutdown s)
     | _ \<Rightarrow> ws_terminal s = None)"

definition loop_inv :: "worker_cfg \<Rightarrow> worker_state \<Rightarrow> bool" where
  "loop_inv cf s \<longleftrightarrow>
     db_inv (e_pg (cf_env cf)) (w_db (ws_world s))
   \<and> length (ws_executing s) \<le> cf_concurrency cf \<and> list_all (slot_ok cf) (ws_executing s)
   \<and> pred_option worker_fatal (ws_terminal s) \<and> phase_ok cf s"

definition loop_cfg :: "worker_cfg \<Rightarrow> bool" where
  "loop_cfg cf \<longleftrightarrow> cfg_ok cf \<and> env_ok (cf_env cf) \<and> attempt_ok (cf_env cf) (cf_xc cf)"

lemma slot_ok_attempt: "slot_ok cf (Joined (Inr (attempt_outcome r)))"
  by (auto simp: slot_ok_def attempt_outcome_def terminal_join_error_def worker_fatal_def
      split: sum.splits)

lemma slot_ok_crash: "slot_ok cf (Joined (Inl msg))"
  by (simp add: slot_ok_def terminal_join_error_def worker_fatal_def is_transient_worker_error_def)

lemma claimed_task_errors:
  "claimed_task_from_row F row = Inl e \<Longrightarrow> \<not> control_error e"
  by (auto simp: claimed_task_from_row_def claimed_headers_of_def res_bind_def
      split: option.splits json.splits sum.splits)

lemma traverse_errors:
  "traverse_list f xs = Inl e \<Longrightarrow> \<exists>x. f x = Inl e"
  by (induction xs) (auto simp: res_bind_def split: sum.splits)

lemma claim_query_errors:
  assumes "claim_query cf k w = (Inl e, w')"
  shows "\<not> control_error e"
proof -
  obtain a v where call: "map_err Error_Database (execute (cf_env cf) Pool (claim_tasks (e_pg (cf_env cf))
      (xc_queue_name (cf_xc cf)) (cf_worker_id cf) (cf_lease_seconds cf) k (cf_supported cf))) w = (a, v)"
    by fastforce
  show ?thesis
  proof (cases a)
    case (Inl x)
    then have "x = e" using assms call by (simp add: claim_query_def client_claim_tasks_def ebind_apply)
    moreover have "\<exists>d. x = Error_Database d"
      using call Inl unfolding map_err_apply by (auto simp del: execute.simps simp: map_sum_def split: sum.splits)
    ultimately show ?thesis by auto
  next
    case (Inr rows)
    then have "traverse_list (claimed_task_from_row (e_fmt (cf_env cf))) rows = Inl e"
      using assms call by (simp add: claim_query_def client_claim_tasks_def ebind_apply esm_apply)
    then show ?thesis by (auto dest!: traverse_errors claimed_task_errors)
  qed
qed

lemma claim_query_rows:
  assumes cfg: "loop_cfg cf" and inv: "db_inv (e_pg (cf_env cf)) (w_db w)"
    and run: "claim_query cf k w = (Inr ts, w')"
  shows "length ts \<le> nat k" and "list_all (slot_ok cf) (map In_flight ts)"
proof -
  let ?env = "cf_env cf"
  have env: "env_ok ?env" "inj (pg_uuid (e_pg ?env))"
    using cfg by (simp_all add: loop_cfg_def env_ok_def pg_ok_def)
  from run obtain rows v where call: "execute ?env Pool (claim_tasks (e_pg ?env) (xc_queue_name (cf_xc cf))
      (cf_worker_id cf) (cf_lease_seconds cf) k (cf_supported cf)) w = (Inr rows, v)"
    and rows: "list_all2 (\<lambda>x y. claimed_task_from_row (e_fmt ?env) x = Inr y) rows ts"
    by (auto simp: claim_query_def client_claim_tasks_def ebind_Inr_iff esm_Inr_iff map_err_Inr_iff
        traverse_list_Inr_iff)
  note facts = claim_tasks_rows [OF env_inv [OF env(1) inv] env(2) pool_success(1) [OF call]]
  show "length ts \<le> nat k" using facts(1) list_all2_lengthD [OF rows] by simp
  have "claimed_task_name y = k_task_name x" if "claimed_task_from_row F x = Inr y" for F x y
    using that by (auto simp: claimed_task_from_row_def res_bind_eq_Inr split: option.splits)
  then show "list_all (slot_ok cf) (map In_flight ts)"
    using facts(2) rows
    by (auto simp: list_all_iff slot_ok_def in_set_conv_nth list_all2_conv_all_nth) metis
qed

lemma claim_query_inv:
  assumes cfg: "loop_cfg cf" and inv: "db_inv (e_pg (cf_env cf)) (w_db w)"
    and run: "claim_query cf k w = (r, w')"
  shows "db_inv (e_pg (cf_env cf)) (w_db w')" and "w_metrics w' = w_metrics w"
proof -
  have env: "env_ok (cf_env cf)" using cfg by (simp add: loop_cfg_def)
  have "effect (protocol (e_pg (cf_env cf))) (claim_query cf k)" "effect same_metrics (claim_query cf k)"
    unfolding claim_query_def using env by (intro effects; assumption)+
  then have "protocol (e_pg (cf_env cf)) w w'" "same_metrics w w'" using run by (auto dest: effectD)
  then show "db_inv (e_pg (cf_env cf)) (w_db w')" and "w_metrics w' = w_metrics w"
    using env inv by (simp_all add: protocol_def same_metrics_def env_ok_def)
qed

text \<open>One step keeps the invariant.\<close>

lemma loop_inv_join:
  assumes inv: "loop_inv cf s" and exec: "ws_executing s = xs @ Joined j # ys"
    and phase: "ws_phase s = Top \<or> ws_phase s = Full"
  shows "loop_inv cf (join_one (xs @ ys) j s)"
proof (cases "terminal_join_error j")
  case None
  then show ?thesis using assms by (auto simp: loop_inv_def phase_ok_def join_one_def)
next
  case (Some e)
  then have "worker_fatal e" using inv exec by (simp add: loop_inv_def slot_ok_def)
  then show ?thesis using assms Some by (auto simp: loop_inv_def phase_ok_def join_one_def)
qed

lemma loop_inv_claim:
  assumes cfg: "loop_cfg cf" and inv: "loop_inv cf s" and phase: "ws_phase s = Claim k"
    and run: "claim_query cf k (ws_world s) = (r, w')"
  shows "loop_inv cf (after_claim r (s\<lparr>ws_world := w'\<rparr>))"
proof -
  have db: "db_inv (e_pg (cf_env cf)) (w_db (ws_world s))" using inv by (simp add: loop_inv_def)
  note claim_query_inv(1) [OF cfg db run]
  moreover have cap: "length (ws_executing s) + nat k \<le> cf_concurrency cf" "ws_terminal s = None"
    using inv phase by (simp_all add: loop_inv_def phase_ok_def)
  ultimately show ?thesis
  proof (cases r)
    case (Inl e)
    then have "\<not> control_error e" using claim_query_errors run by blast
    with Inl inv cap \<open>db_inv (e_pg (cf_env cf)) (w_db w')\<close> show ?thesis
      by (simp add: after_claim_def Let_def loop_inv_def phase_ok_def worker_fatal_def)
  next
    case (Inr ts)
    note rows = claim_query_rows [OF cfg db run [unfolded Inr]]
    show ?thesis using Inr inv cap rows \<open>db_inv (e_pg (cf_env cf)) (w_db w')\<close>
      by (simp add: after_claim_def loop_inv_def phase_ok_def)
  qed
qed

lemma loop_inv_slot:
  assumes inv: "loop_inv cf s" and exec: "ws_executing s = xs @ In_flight task # ys"
    and "slot_ok cf (Joined j)" and "db_inv (e_pg (cf_env cf)) (w_db w')" and "\<forall>r. ws_phase s \<noteq> Exited r"
  shows "loop_inv cf (s\<lparr>ws_executing := xs @ Joined j # ys, ws_world := w'\<rparr>)"
  using assms by (auto simp: loop_inv_def phase_ok_def loop_result_def split: phase.splits)

lemma no_batch_error:
  "loop_cfg cf \<Longrightarrow> i32_try_from (int (available cf s)) \<noteq> None"
  by (auto simp: loop_cfg_def cfg_ok_def i32_try_from_def available_def)

lemma loop_inv_step:
  assumes cfg: "loop_cfg cf" and step: "worker_step cf s t" and inv: "loop_inv cf s"
  shows "loop_inv cf t"
  using step
proof cases
  case (try_join xs j ys)
  then show ?thesis using loop_inv_join [OF inv] by blast
next
  case (full_join xs j ys)
  then show ?thesis using loop_inv_join [OF inv] by blast
next
  case (start_claim k)
  then show ?thesis using inv
    by (auto simp: loop_inv_def phase_ok_def available_def i32_try_from_def split: if_splits)
next
  case batch_too_large
  then show ?thesis using no_batch_error [OF cfg] by blast
next
  case (finish_claim k r w')
  then show ?thesis using loop_inv_claim [OF cfg inv] by blast
next
  case pause_over
  have "effect (protocol (e_pg (cf_env cf))) (sleep (cf_env cf) DEFAULT_POLL_INTERVAL () :: unit rust)"
    using cfg by (intro protocol_sleep) (simp_all add: loop_cfg_def DEFAULT_POLL_INTERVAL_def)
  then have "protocol (e_pg (cf_env cf)) (ws_world s)
      (snd ((sleep (cf_env cf) DEFAULT_POLL_INTERVAL () :: unit rust) (ws_world s)))"
    by (rule effectD) (rule prod.collapse [symmetric])
  then show ?thesis using pause_over inv cfg
    by (simp add: loop_inv_def phase_ok_def loop_cfg_def env_ok_def protocol_def)
next
  case (drain_join xs j ys)
  then show ?thesis using inv
    by (auto simp: loop_inv_def phase_ok_def slot_ok_def split: option.splits)
next
  case (attempt_ends xs task ys r w')
  have "db_inv (e_pg (cf_env cf)) (w_db w')"
    using cfg inv attempt_ends(4) by (auto simp: loop_cfg_def loop_inv_def intro: execute_task_protocol(2))
  then show ?thesis unfolding attempt_ends(1)
    using loop_inv_slot [OF inv attempt_ends(3) slot_ok_attempt] attempt_ends(2) by blast
next
  case (attempt_crashes xs task ys w' msg)
  have "db_inv (e_pg (cf_env cf)) (w_db (drop_guard w'))"
    using cfg inv attempt_crashes(4) steps_inv
    by (auto simp: loop_cfg_def loop_inv_def env_ok_def drop_guard_def split: option.splits)
  then show ?thesis unfolding attempt_crashes(1)
    using loop_inv_slot [OF inv attempt_crashes(3) slot_ok_crash] attempt_crashes(2) by blast
next
  case shutdown_resolves
  then show ?thesis using inv
    by (simp add: loop_inv_def phase_ok_def loop_result_def split: phase.splits)
qed (use inv in \<open>auto simp: loop_inv_def phase_ok_def loop_result_def\<close>)

definition loop_start :: "worker_cfg \<Rightarrow> worker_state \<Rightarrow> bool" where
  "loop_start cf s \<longleftrightarrow> (\<exists>w. db_inv (e_pg (cf_env cf)) (w_db w) \<and> s = worker_start w)"

interpretation worker_loop:
  transition_system "loop_start cf" "worker_step cf" "\<lambda>s. loop_cfg cf \<longrightarrow> loop_inv cf s" for cf
proof unfold_locales
  show "loop_cfg cf \<longrightarrow> loop_inv cf s" if "loop_start cf s" for s
    using that by (auto simp: loop_start_def worker_start_def loop_inv_def phase_ok_def)
qed (blast intro: loop_inv_step)

text \<open>\<^bold>\<open>C12.\<close> The worker never owns more runs than it can execute: in every state its loop can reach,
  under any interleaving of claims, attempts, panics, other sessions and the shutdown signal, at most
  \<open>concurrency\<close> attempts are spawned, each of them of a task the worker has an executor for, and the
  database satisfies its invariants.\<close>

theorem worker_stays_within_capacity:
  assumes "loop_cfg cf" and "db_inv (e_pg (cf_env cf)) (w_db w)"
    and "(worker_step cf)\<^sup>*\<^sup>* (worker_start w) s"
  shows "length (ws_executing s) \<le> cf_concurrency cf
    \<and> (\<forall>task. In_flight task \<in> set (ws_executing s) \<longrightarrow>
         map_of (xc_registry (cf_xc cf)) (claimed_task_name task) \<noteq> None)
    \<and> db_inv (e_pg (cf_env cf)) (w_db (ws_world s))"
proof -
  have "loop_start cf (worker_start w)" using assms(2) by (auto simp: loop_start_def)
  then have inv: "loop_inv cf s" using worker_loop.reachable_good assms(1,3) by blast
  have "cf_supported cf = map fst (xc_registry (cf_xc cf))" using assms(1) by (simp add: loop_cfg_def cfg_ok_def)
  then show ?thesis using inv
    by (auto simp: loop_inv_def list_all_iff slot_ok_def map_of_eq_None_iff dest!: bspec)
qed

text \<open>\<^bold>\<open>C27.\<close> Why a worker stops: when \<open>run_until\<close> returns, no attempt the worker spawned is left
  running and the database satisfies its invariants; it returns normally only after the shutdown
  signal (so \<open>run\<close> never does), and with an error only for one that is neither the outcome of a
  single attempt (suspended, cancelled, failed, lease lost) nor a transient database failure.\<close>

theorem worker_stops_for_a_reason:
  assumes cf: "worker_config env F u self = Inr cf" "loop_cfg cf"
    and inv: "db_inv (e_pg (cf_env cf)) (w_db w)"
    and run: "Worker_run_until env F u self shutdown w r w'"
  shows "(\<exists>s. (worker_step cf)\<^sup>*\<^sup>* (worker_start w) s \<and> ws_world s = w' \<and> ws_phase s = Exited r
      \<and> ws_executing s = [])
    \<and> (case r of Inr _ \<Rightarrow> shutdown
       | Inl e \<Rightarrow> \<not> control_error e \<and> \<not> is_transient_worker_error e)
    \<and> db_inv (e_pg (cf_env cf)) (w_db w')
    \<and> \<not> Worker_run env F u self w (Inr ()) w''"
proof -
  have start: "loop_start cf (worker_start w)" using inv by (auto simp: loop_start_def)
  have good: "ws_executing s = [] \<and> db_inv (e_pg (cf_env cf)) (w_db (ws_world s))
      \<and> (case x of Inr _ \<Rightarrow> ws_shutdown s | Inl e \<Rightarrow> worker_fatal e)"
    if "(worker_step cf)\<^sup>*\<^sup>* (worker_start w) s" "ws_phase s = Exited x" for s x
  proof -
    have "loop_inv cf s" using worker_loop.reachable_good [OF start that(1)] cf(2) by blast
    then show ?thesis using that(2)
      by (auto simp: loop_inv_def phase_ok_def loop_result_def split: option.splits)
  qed
  from run obtain s where s: "(worker_step cf)\<^sup>*\<^sup>* (worker_start w) s" "ws_phase s = Exited r"
    "ws_shutdown s = shutdown" "ws_world s = w'"
    by (auto simp: Worker_run_until_def run_worker_loop_def cf(1))
  have "\<not> Worker_run env F u self w (Inr ()) w''"
    using good [of _ "Inr ()"] by (auto simp: Worker_run_def Worker_run_until_def run_worker_loop_def cf(1))
  then show ?thesis using good [OF s(1,2)] s by (auto simp: worker_fatal_def split: sum.splits)
qed

subsection \<open>A demonstration run\<close>

definition demo_running_worker :: Worker where
  "demo_running_worker = demo_worker\<lparr>wk_runtime :=
     \<lparr>rt_lease_duration = \<lparr>as_secs = 60, subsec_nanos = 0\<rparr>, rt_concurrency = 2\<rparr>\<rparr>"

definition demo_cf :: worker_cfg where
  "demo_cf = \<lparr>cf_env = quiet exact_pg, cf_fmt = demo_fmt, cf_xc = demo_xc, cf_worker_id = ''worker:aa'',
     cf_lease_seconds = 60, cf_concurrency = 2, cf_supported = [''mail'']\<rparr>"

lemma demo_config: "worker_config (quiet exact_pg) demo_fmt 2 demo_running_worker = Inr demo_cf"
proof -
  have "duration_seconds \<lparr>as_secs = 60, subsec_nanos = 0\<rparr> = Inr 60" by code_simp
  then show ?thesis
    by (simp add: worker_config_def worker_lease_seconds_def res_bind_def demo_running_worker_def
        demo_worker_def demo_queue_def demo_cf_def demo_xc_def registered_task_names_def
        default_worker_id_def demo_fmt_def numeral_2_eq_2)
qed

lemma demo_cf_ok: "loop_cfg demo_cf"
  using quiet_ok [OF exact_pg_ok] demo_xc_ok
  by (simp add: loop_cfg_def cfg_ok_def demo_cf_def demo_xc_def ExecutionContext_new_def)

text \<open>Claim the submitted task, execute it, join it, then shut down.\<close>

definition demo_s2 :: worker_state where
  "demo_s2 = (case claim_query demo_cf 2 (world_of demo_spawned) of
     (r, w) \<Rightarrow> after_claim r ((worker_start w)\<lparr>ws_phase := Claim 2\<rparr>))"

definition demo_s3 :: worker_state where
  "demo_s3 = demo_s2\<lparr>ws_executing := [Joined (Inr (Inr ()))], ws_world := demo_attempt (ws_world demo_s2)\<rparr>"

definition demo_exited :: worker_state where
  "demo_exited = demo_s3\<lparr>ws_executing := [], ws_shutdown := True, ws_phase := Exited (Inr ())\<rparr>"

lemma demo_s2_facts:
  "ws_executing demo_s2 = [In_flight demo_claim_task]" "ws_phase demo_s2 = Top"
  "ws_terminal demo_s2 = None" "ws_shutdown demo_s2 = False"
  by code_simp+

lemma demo_s3_facts:
  "ws_executing demo_s3 = [Joined (Inr (Inr ()))]" "ws_phase demo_s3 = Top"
  "ws_terminal demo_s3 = None" "ws_shutdown demo_s3 = False"
  by (simp_all add: demo_s3_def demo_s2_facts)

lemma demo_s2_attempt:
  "execute_task (quiet exact_pg) demo_fmt demo_xc demo_claim_task 60 (ws_world demo_s2) (Inr ())
    (demo_attempt (ws_world demo_s2))"
  by (rule demo_attempt_runs; code_simp)

lemma demo_loop: "(worker_step demo_cf)\<^sup>*\<^sup>* (worker_start (world_of demo_spawned)) demo_exited"
proof -
  let ?s0 = "worker_start (world_of demo_spawned)" and ?step = "worker_step demo_cf"
  let ?s4 = "demo_s3\<lparr>ws_executing := [], ws_phase := Top\<rparr>"
  let ?s5 = "?s4\<lparr>ws_shutdown := True\<rparr>"
  have a: "available demo_cf ?s0 = 2" "i32_try_from (int (available demo_cf ?s0)) = Some 2"
    by (simp_all add: available_def worker_start_def demo_cf_def i32_try_from_def)
  have s1: "?step ?s0 (?s0\<lparr>ws_phase := Claim 2\<rparr>)"
    using a by (intro worker_step.start_claim) (simp_all add: worker_start_def)
  have s2: "?step (?s0\<lparr>ws_phase := Claim 2\<rparr>) demo_s2"
  proof -
    obtain r w where run: "claim_query demo_cf 2 (world_of demo_spawned) = (r, w)" by fastforce
    then have "?step (?s0\<lparr>ws_phase := Claim 2\<rparr>) (after_claim r (?s0\<lparr>ws_phase := Claim 2\<rparr>\<lparr>ws_world := w\<rparr>))"
      by (intro worker_step.finish_claim) (simp_all add: worker_start_def)
    then show ?thesis using run by (simp add: demo_s2_def worker_start_def)
  qed
  have s3: "?step demo_s2 demo_s3"
    using worker_step.attempt_ends [of demo_s2 "[]" demo_claim_task "[]" demo_cf "Inr ()"] demo_s2_facts demo_s2_attempt
    by (simp add: demo_s3_def demo_cf_def attempt_outcome_def)
  have s4: "?step demo_s3 ?s4"
    using worker_step.try_join [of demo_s3 "[]" "Inr (Inr ())" "[]" demo_cf] demo_s3_facts
    by (simp add: join_one_def terminal_join_error_def)
  have s5: "?step ?s4 ?s5" by (rule worker_step.shutdown_resolves)
  have s6: "?step ?s5 (?s5\<lparr>ws_phase := Drain\<rparr>)"
    by (rule worker_step.stop_claiming) (simp_all add: available_def demo_cf_def)
  have s7: "?step (?s5\<lparr>ws_phase := Drain\<rparr>) demo_exited"
    using worker_step.drain_done [of "?s5\<lparr>ws_phase := Drain\<rparr>" demo_cf] demo_s3_facts
    by (simp add: demo_exited_def loop_result_def)
  show ?thesis using s1 s2 s3 s4 s5 s6 s7
    by (meson converse_rtranclp_into_rtranclp rtranclp.rtrancl_refl)
qed

theorem worker_stays_within_capacity_witness:
  "length (ws_executing demo_exited) \<le> 2 \<and> db_inv exact_pg (w_db (ws_world demo_exited))"
proof -
  have "db_inv (e_pg (cf_env demo_cf)) (w_db (world_of demo_spawned))" by (simp add: demo_cf_def demo_inv)
  from worker_stays_within_capacity [OF demo_cf_ok this demo_loop] show ?thesis by (simp add: demo_cf_def)
qed

theorem worker_stops_for_a_reason_witness:
  "\<not> Worker_run (quiet exact_pg) demo_fmt 2 demo_running_worker (world_of demo_spawned) (Inr ())
    (ws_world demo_exited)"
proof -
  have run: "Worker_run_until (quiet exact_pg) demo_fmt 2 demo_running_worker True (world_of demo_spawned)
      (Inr ()) (ws_world demo_exited)"
    using demo_loop
    by (auto simp: Worker_run_until_def run_worker_loop_def demo_config demo_exited_def)
  have "db_inv (e_pg (cf_env demo_cf)) (w_db (world_of demo_spawned))" by (simp add: demo_cf_def demo_inv)
  from worker_stops_for_a_reason [OF demo_config demo_cf_ok this run] show ?thesis by blast
qed

subsection \<open>Draining\<close>

definition running_tasks :: "worker_state \<Rightarrow> ClaimedTask set" where
  "running_tasks s = {task. In_flight task \<in> set (ws_executing s)}"

text \<open>What a drain that began in \<open>s\<close> keeps.\<close>

definition drain_inv :: "worker_state \<Rightarrow> worker_state \<Rightarrow> bool" where
  "drain_inv s t \<longleftrightarrow>
     (case ws_phase t of Drain \<Rightarrow> True | Exited r \<Rightarrow> ws_executing t = [] \<and> r = loop_result t | _ \<Rightarrow> False)
   \<and> running_tasks t \<subseteq> running_tasks s \<and> (\<forall>e. ws_terminal s = Some e \<longrightarrow> ws_terminal t = Some e)"

text \<open>The steps the loop itself still has to make: join every attempt that has ended, then return.\<close>

definition drain_work :: "worker_state \<Rightarrow> nat" where
  "drain_work s = length (ws_executing s) + (case ws_phase s of Exited _ \<Rightarrow> 0 | _ \<Rightarrow> 1)"

lemma drain_inv_step:
  assumes "worker_step cf t u" and "drain_inv s t"
  shows "drain_inv s u"
  using assms
  by (cases rule: worker_step.cases)
    (auto simp: drain_inv_def running_tasks_def loop_result_def split: phase.splits)

lemma drain_inv_steps:
  assumes "(worker_step cf)\<^sup>*\<^sup>* t u" and "drain_inv s t"
  shows "drain_inv s u"
  using assms by (induction rule: rtranclp_induct) (auto intro: drain_inv_step)

lemma ended_step:
  assumes "worker_step cf t u" and "drain_inv s t" and "running_tasks s = {}"
  shows "u = t\<lparr>ws_shutdown := True\<rparr> \<or> drain_work u < drain_work t"
  using assms
  by (cases rule: worker_step.cases)
    (auto simp: drain_inv_def running_tasks_def drain_work_def split: phase.splits)

lemma ended_progress:
  assumes drain: "ws_phase t = Drain" and ended: "running_tasks t = {}"
  shows "\<exists>u. worker_step cf t u \<and> drain_work u < drain_work t"
proof (cases "ws_executing t")
  case Nil
  then have "worker_step cf t (t\<lparr>ws_phase := Exited (loop_result t)\<rparr>)" using drain by (intro drain_done)
  moreover have "drain_work (t\<lparr>ws_phase := Exited (loop_result t)\<rparr>) < drain_work t"
    using drain by (simp add: drain_work_def)
  ultimately show ?thesis by blast
next
  case (Cons sl ys)
  then obtain j where sl: "sl = Joined j" using ended by (cases sl) (auto simp: running_tasks_def)
  let ?u = "t\<lparr>ws_executing := ys, ws_terminal :=
    (if ws_terminal t = None then terminal_join_error j else ws_terminal t)\<rparr>"
  have "worker_step cf t ?u" using drain Cons sl drain_join [of t "[]" j ys cf] by simp
  moreover have "drain_work ?u < drain_work t" using drain Cons by (simp add: drain_work_def)
  ultimately show ?thesis by blast
qed

lemma ended_completes:
  assumes "drain_inv s t" and "running_tasks s = {}"
  shows "\<exists>u r. (worker_step cf)\<^sup>*\<^sup>* t u \<and> ws_phase u = Exited r"
  using assms(1)
proof (induction "drain_work t" arbitrary: t rule: less_induct)
  case less
  show ?case
  proof (cases "ws_phase t = Drain")
    case True
    have "running_tasks t = {}" using less.prems assms(2) by (simp add: drain_inv_def)
    then obtain u where u: "worker_step cf t u" "drain_work u < drain_work t" using ended_progress [OF True] by blast
    from less.hyps [OF u(2) drain_inv_step [OF u(1) less.prems]] u(1) show ?thesis
      by (meson converse_rtranclp_into_rtranclp)
  next
    case False
    then have "\<exists>r. ws_phase t = Exited r" using less.prems by (auto simp: drain_inv_def split: phase.splits)
    then show ?thesis by blast
  qed
qed

lemma ended_chain:
  assumes "\<forall>i<n. worker_step cf (f i) (f (Suc i)) \<and> f (Suc i) \<noteq> (f i)\<lparr>ws_shutdown := True\<rparr>"
    and "drain_inv s (f 0)" and "running_tasks s = {}"
  shows "drain_inv s (f n) \<and> drain_work (f n) + n \<le> drain_work (f 0)"
  using assms(1)
proof (induction n)
  case 0
  then show ?case using assms(2) by simp
next
  case (Suc n)
  then have n: "drain_inv s (f n)" "drain_work (f n) + n \<le> drain_work (f 0)" by simp_all
  have "worker_step cf (f n) (f (Suc n))" "f (Suc n) \<noteq> (f n)\<lparr>ws_shutdown := True\<rparr>" using Suc.prems by simp_all
  then show ?case using drain_inv_step [OF _ n(1)] ended_step [OF _ n(1) assms(3)] n(2) by force
qed

text \<open>\<^bold>\<open>C23.\<close> A drain waits for the attempts the worker has, and for nothing else: once the loop stops
  claiming it never claims again, whatever happens it only executes attempts it already had; it returns
  only when every one of them has ended and been joined, and with the error that stopped it, if there was
  one; and once all attempts have ended, it does return, after at most one step for each of them and one
  more. (An attempt whose handler never resolves, and whose run is not ended by supervision, keeps the
  drain waiting.)\<close>

theorem drain_waits_then_returns:
  assumes "ws_phase s = Drain"
  shows "(\<forall>t. (worker_step cf)\<^sup>*\<^sup>* s t \<longrightarrow>
        (ws_phase t = Drain
         \<or> (\<exists>r. ws_phase t = Exited r \<and> ws_executing t = [] \<and> (\<forall>e. ws_terminal s = Some e \<longrightarrow> r = Inl e)))
      \<and> (\<forall>task. In_flight task \<in> set (ws_executing t) \<longrightarrow> In_flight task \<in> set (ws_executing s)))
    \<and> ((\<forall>task. In_flight task \<notin> set (ws_executing s)) \<longrightarrow>
        (\<exists>t r. (worker_step cf)\<^sup>*\<^sup>* s t \<and> ws_phase t = Exited r)
      \<and> (\<forall>f n. f 0 = s
          \<and> (\<forall>i<n. worker_step cf (f i) (f (Suc i)) \<and> f (Suc i) \<noteq> (f i)\<lparr>ws_shutdown := True\<rparr>)
          \<longrightarrow> n \<le> length (ws_executing s) + 1))"
proof -
  have s: "drain_inv s s" using assms by (simp add: drain_inv_def)
  have "(ws_phase t = Drain
         \<or> (\<exists>r. ws_phase t = Exited r \<and> ws_executing t = [] \<and> (\<forall>e. ws_terminal s = Some e \<longrightarrow> r = Inl e)))
      \<and> (\<forall>task. In_flight task \<in> set (ws_executing t) \<longrightarrow> In_flight task \<in> set (ws_executing s))"
    if "(worker_step cf)\<^sup>*\<^sup>* s t" for t
    using drain_inv_steps [OF that s]
    by (auto simp: drain_inv_def running_tasks_def loop_result_def split: phase.splits)
  moreover have "n \<le> length (ws_executing s) + 1"
    if "running_tasks s = {}" "f 0 = s"
      "\<forall>i<n. worker_step cf (f i) (f (Suc i)) \<and> f (Suc i) \<noteq> (f i)\<lparr>ws_shutdown := True\<rparr>" for f n
    using ended_chain [OF that(3) _ that(1)] that(2) s assms by (simp add: drain_work_def)
  moreover have "running_tasks s = {} \<longleftrightarrow> (\<forall>task. In_flight task \<notin> set (ws_executing s))"
    by (auto simp: running_tasks_def)
  ultimately show ?thesis using ended_completes [OF s] by blast
qed

theorem drain_waits_then_returns_witness:
  "\<exists>t r. (worker_step demo_cf)\<^sup>*\<^sup>* (demo_s3\<lparr>ws_phase := Drain\<rparr>) t \<and> ws_phase t = Exited r"
  using drain_waits_then_returns [of "demo_s3\<lparr>ws_phase := Drain\<rparr>" demo_cf] demo_s3_facts(1) by simp

subsection \<open>Accounting\<close>

definition in_flight :: "worker_state \<Rightarrow> nat" where
  "in_flight s = length (filter (\<lambda>sl. \<not> is_joined sl) (ws_executing s))"

definition accounted :: "worker_state \<Rightarrow> bool" where
  "accounted s \<longleftrightarrow> (let m = w_metrics (ws_world s) in
     uint (claimed_runs m) < 2 ^ 64 - 1 \<longrightarrow>
       metrics_balanced m \<and> uint (claimed_runs m) = uint (executions m) + int (in_flight s))"

lemma accounted_claim:
  assumes "accounted s" and "w_metrics w' = w_metrics (ws_world s)"
  shows "accounted (after_claim r (s\<lparr>ws_world := w'\<rparr>))"
proof (cases r)
  case (Inl e)
  then show ?thesis using assms
    by (simp add: accounted_def after_claim_def record_claim_error_def Let_def metrics_balanced_def
        ended_total_def ended_counters_def in_flight_def)
next
  case (Inr ts)
  have "uint (clamp_u64 (int (length ts))) = min (int (length ts)) (2 ^ 64 - 1)" by (simp add: uint_clamp_u64)
  moreover have "filter (\<lambda>sl. \<not> is_joined sl) (map In_flight ts) = map In_flight ts"
    by (simp add: is_joined_def filter_map comp_def)
  ultimately show ?thesis using Inr assms uint_ge_0 [of "claimed_runs (w_metrics (ws_world s))"]
    by (auto simp: accounted_def after_claim_def record_claimed_def Let_def metrics_balanced_def
        ended_total_def ended_counters_def in_flight_def uint_increment min_def split: if_splits)
qed

definition counted_once :: "QueueMetrics \<Rightarrow> QueueMetrics \<Rightarrow> bool" where
  "counted_once m m' \<longleftrightarrow> (\<exists>el. m' = drop_execution (TaskExecution_start el) m
     \<or> (\<exists>out. m' = finish_execution (TaskExecution_start el) out m))"

lemma counted_once_metrics:
  assumes "counted_once m m'"
  shows "claimed_runs m' = claimed_runs m"
    and "metrics_balanced m \<Longrightarrow> uint (executions m) < 2 ^ 64 - 1 \<Longrightarrow>
      metrics_balanced m' \<and> uint (executions m') = uint (executions m) + 1"
  using assms drop_execution_balanced finish_execution_balanced by (auto simp: counted_once_def)

lemma accounted_attempt:
  assumes acc: "accounted s" and exec: "ws_executing s = xs @ In_flight task # ys"
    and once: "counted_once (w_metrics (ws_world s)) (w_metrics w')"
  shows "accounted (s\<lparr>ws_executing := xs @ Joined j # ys, ws_world := w'\<rparr>)"
proof -
  let ?m = "w_metrics (ws_world s)"
  have "metrics_balanced (w_metrics w') \<and> uint (claimed_runs ?m) = uint (executions (w_metrics w')) +
      int (length (filter (\<lambda>sl. \<not> is_joined sl) (xs @ Joined j # ys)))"
    if u: "uint (claimed_runs ?m) < 2 ^ 64 - 1"
  proof -
    from acc u have m: "metrics_balanced ?m" "uint (claimed_runs ?m) = uint (executions ?m) + int (in_flight s)"
      unfolding accounted_def Let_def by blast+
    have "in_flight s = Suc (length (filter (\<lambda>sl. \<not> is_joined sl) (xs @ Joined j # ys)))"
      by (simp add: in_flight_def exec is_joined_def)
    then show ?thesis using counted_once_metrics(2) [OF once m(1)] m(2) u by simp
  qed
  then show ?thesis using counted_once_metrics(1) [OF once]
    unfolding accounted_def Let_def in_flight_def by simp
qed

lemma accounted_step:
  assumes cfg: "loop_cfg cf" and inv: "loop_inv cf s" and acc: "accounted s" and step: "worker_step cf s t"
  shows "accounted t"
  using step
proof cases
  case (finish_claim k r w')
  have "w_metrics w' = w_metrics (ws_world s)"
    using claim_query_inv(2) [OF cfg _ finish_claim(3)] inv by (simp add: loop_inv_def)
  then show ?thesis unfolding finish_claim(1) using acc by (rule accounted_claim [rotated])
next
  case (attempt_ends xs task ys r w')
  have "counted_once (w_metrics (ws_world s)) (w_metrics w')"
    using execute_task_counts [OF _ attempt_ends(4)] cfg by (auto simp: loop_cfg_def counted_once_def)
  then show ?thesis unfolding attempt_ends(1) by (rule accounted_attempt [OF acc attempt_ends(3)])
next
  case (attempt_crashes xs task ys w' msg)
  have "counted_once (w_metrics (ws_world s)) (w_metrics (drop_guard w'))"
    using attempt_crashes(5)
    by (auto simp: counted_once_def same_metrics_def start_guard_def drop_guard_def guard_at_def)
  then show ?thesis unfolding attempt_crashes(1) by (rule accounted_attempt [OF acc attempt_crashes(3)])
next
  case batch_too_large
  then show ?thesis using no_batch_error [OF cfg] by blast
qed (use acc in \<open>auto simp: accounted_def in_flight_def join_one_def is_joined_def sleep_def Let_def
  begin_event_def split: option.splits\<close>)

text \<open>\<^bold>\<open>C34.\<close> The worker's counters add up: in every reachable state, until the 64-bit counter of
  claimed runs saturates, every run it claimed is either still executing or was counted as exactly one
  execution with exactly one outcome; after the loop has returned the three totals are equal.\<close>

theorem claimed_runs_are_accounted:
  assumes "loop_cfg cf" and "db_inv (e_pg (cf_env cf)) (w_db w)" and "w_metrics w = QueueMetrics_new"
    and "(worker_step cf)\<^sup>*\<^sup>* (worker_start w) s"
    and "uint (claimed_runs (w_metrics (ws_world s))) < 2 ^ 64 - 1"
  shows "ended_total (w_metrics (ws_world s)) = uint (executions (w_metrics (ws_world s)))
    \<and> uint (claimed_runs (w_metrics (ws_world s))) =
        uint (executions (w_metrics (ws_world s))) + int (in_flight s)
    \<and> ((\<exists>r. ws_phase s = Exited r) \<longrightarrow> in_flight s = 0)"
proof -
  have start: "loop_inv cf (worker_start w)"
    using assms(1,2) worker_loop.start_good [of cf "worker_start w"] by (auto simp: loop_start_def)
  have "accounted (worker_start w) \<longrightarrow> accounted s"
    using assms(4)
  proof (rule worker_loop.steps_related [where R = "\<lambda>u v. accounted u \<longrightarrow> accounted v"])
    show "accounted u \<longrightarrow> accounted v" if "loop_cfg cf \<longrightarrow> loop_inv cf u" "worker_step cf u v" for u v
      using that assms(1) accounted_step by blast
  qed (use start in blast)+
  moreover have "accounted (worker_start w)"
    by (simp add: accounted_def worker_start_def assms(3) QueueMetrics_new_def metrics_balanced_def
        ended_total_def ended_counters_def in_flight_def)
  moreover have "loop_inv cf s" using worker_loop.steps_good assms(1,4) start by blast
  ultimately show ?thesis using assms(5)
    by (auto simp: accounted_def Let_def metrics_balanced_def loop_inv_def phase_ok_def in_flight_def)
qed

theorem claimed_runs_are_accounted_witness:
  "uint (claimed_runs (w_metrics (ws_world demo_exited))) = uint (executions (w_metrics (ws_world demo_exited)))"
proof -
  have "db_inv (e_pg (cf_env demo_cf)) (w_db (world_of demo_spawned))" by (simp add: demo_cf_def demo_inv)
  moreover have "w_metrics (world_of demo_spawned) = QueueMetrics_new" by simp
  moreover have "claimed_runs (w_metrics (ws_world demo_exited)) = 1" by code_simp
  then have "uint (claimed_runs (w_metrics (ws_world demo_exited))) < 2 ^ 64 - 1" by simp
  moreover have "\<exists>r. ws_phase demo_exited = Exited r" by (simp add: demo_exited_def)
  ultimately show ?thesis using claimed_runs_are_accounted [OF demo_cf_ok _ _ demo_loop] by simp
qed

end
