(* ===== verification/ConcurrentSteps.thy ===== *)
theory ConcurrentSteps
  imports ContextProperties
begin

section \<open>Concurrent calls on one context\<close>

text \<open>
  A handler may await several checkpoint calls of \<open>src/context.rs\<close> at once (a \<open>TaskContext\<close> is cheap to
  clone). \<open>TaskContext::checkpoint\<close> serializes the calls of one name through \<open>checkpoint_lock\<close>, a table
  of asynchronous mutexes, and holds the guard across the cache lookup, the caller's function and the
  write. Here the calls are processes that interleave at their await points over the attempt's shared
  world; a call may also be dropped at any await point (\<open>select!\<close>, a timeout), which releases its guard.
  The sequential definition \<open>checkpoint\<close> is the run of one call without the others
  (\<open>lone_call_is_checkpoint\<close>).
\<close>

subsection \<open>Locks\<close>

type_synonym lock_table = "(string \<times> nat option) list"

text \<open>The entry of a name, created free on first use.\<close>

definition checkpoint_lock :: "string \<Rightarrow> lock_table \<Rightarrow> lock_table" where
  "checkpoint_lock name locks =
     (case map_of locks name of Some _ \<Rightarrow> locks | None \<Rightarrow> (name, None) # locks)"

definition lock_holder :: "string \<Rightarrow> lock_table \<Rightarrow> nat option" where
  "lock_holder name locks = (case map_of locks name of Some h \<Rightarrow> h | None \<Rightarrow> None)"

definition lock_take :: "string \<Rightarrow> nat \<Rightarrow> lock_table \<Rightarrow> lock_table" where
  "lock_take name i locks = AList.update name (Some i) (checkpoint_lock name locks)"

definition lock_release :: "string \<Rightarrow> lock_table \<Rightarrow> lock_table" where
  "lock_release name locks = AList.update name None locks"

lemma lock_holder_simps [simp]:
  "lock_holder n (checkpoint_lock name locks) = lock_holder n locks"
  "lock_holder n (lock_take name i locks) = (if n = name then Some i else lock_holder n locks)"
  "lock_holder n (lock_release name locks) = (if n = name then None else lock_holder n locks)"
  by (auto simp: lock_holder_def checkpoint_lock_def lock_take_def lock_release_def update_conv'
      split: option.splits)

subsection \<open>Calls\<close>

text \<open>Where a call is: at the lock, holding it before the cache lookup, running its function, about to
  write a computed value in its serialized form, returned (the flag says whether its function ran), or
  dropped.\<close>

datatype 'a call_pc =
    Entering
  | Locked
  | Computing
  | Persisting 'a json
  | Returned bool "error + 'a"
  | Dropped

record 'a call =
  call_name :: string
  call_ser :: "'a ser"
  call_dec :: "'a dec"
  call_fn :: "'a async"
  call_pc :: "'a call_pc"

record 'a calls =
  cs_world :: world
  cs_locks :: lock_table
  cs_calls :: "'a call list"

definition in_section :: "'a call_pc \<Rightarrow> bool" where
  "in_section pc = (case pc of Locked \<Rightarrow> True | Computing \<Rightarrow> True | Persisting _ _ \<Rightarrow> True | _ \<Rightarrow> False)"

definition ended :: "'a call_pc \<Rightarrow> bool" where
  "ended pc = (case pc of Returned _ _ \<Rightarrow> True | Dropped \<Rightarrow> True | _ \<Rightarrow> False)"

definition set_pc :: "nat \<Rightarrow> 'a call_pc \<Rightarrow> 'a calls \<Rightarrow> 'a calls" where
  "set_pc i pc s = s\<lparr>cs_calls := (cs_calls s)[i := (cs_calls s ! i)\<lparr>call_pc := pc\<rparr>]\<rparr>"

text \<open>A call ends: its guard is dropped.\<close>

definition leave :: "nat \<Rightarrow> 'a call_pc \<Rightarrow> 'a calls \<Rightarrow> 'a calls" where
  "leave i pc s =
     (set_pc i pc s)\<lparr>cs_locks := lock_release (call_name (cs_calls s ! i)) (cs_locks s)\<rparr>"

text \<open>After the function: serialize the value, or end with the error.\<close>

definition after_function :: "nat \<Rightarrow> error + 'a \<Rightarrow> 'a calls \<Rightarrow> 'a calls" where
  "after_function i r s =
     (case r of
        Inl e \<Rightarrow> leave i (Returned True (Inl e)) s
      | Inr v \<Rightarrow>
          (case serde (call_ser (cs_calls s ! i) v) of
             Inl e \<Rightarrow> leave i (Returned True (Inl e)) s
           | Inr j \<Rightarrow> set_pc i (Persisting v j) s))"

text \<open>After the write: the computed value, or the decoded state of an earlier commit.\<close>

definition after_write :: "nat \<Rightarrow> 'a \<Rightarrow> error + json \<times> bool \<Rightarrow> 'a calls \<Rightarrow> 'a calls" where
  "after_write i v r s =
     (case r of
        Inl e \<Rightarrow> leave i (Returned True (Inl e)) s
      | Inr (state, written) \<Rightarrow>
          leave i (Returned True (if written then Inr v
            else serde (call_dec (cs_calls s ! i) state))) s)"

text \<open>The steps of one call. A call dropped while its function runs has done some of the function's work;
  one dropped while it writes may have committed, but has not updated the cache.\<close>

inductive call_step :: "env \<Rightarrow> TaskContext \<Rightarrow> nat \<Rightarrow> 'a calls \<Rightarrow> 'a calls \<Rightarrow> bool"
  for env :: env and ctx :: TaskContext and i :: nat where
  acquire: "i < length (cs_calls s) \<Longrightarrow> call_pc (cs_calls s ! i) = Entering \<Longrightarrow>
     lock_holder (call_name (cs_calls s ! i)) (cs_locks s) = None \<Longrightarrow>
     call_step env ctx i s ((set_pc i Locked s)\<lparr>cs_locks :=
       lock_take (call_name (cs_calls s ! i)) i (cs_locks s)\<rparr>)"
| replay: "i < length (cs_calls s) \<Longrightarrow> call_pc (cs_calls s ! i) = Locked \<Longrightarrow>
     map_of (w_cache (cs_world s)) (call_name (cs_calls s ! i)) = Some state \<Longrightarrow>
     call_step env ctx i s (leave i (Returned False (serde (call_dec (cs_calls s ! i) state))) s)"
| begin_function: "i < length (cs_calls s) \<Longrightarrow> call_pc (cs_calls s ! i) = Locked \<Longrightarrow>
     map_of (w_cache (cs_world s)) (call_name (cs_calls s ! i)) = None \<Longrightarrow>
     call_step env ctx i s (set_pc i Computing s)"
| end_function: "i < length (cs_calls s) \<Longrightarrow> call_pc (cs_calls s ! i) = Computing \<Longrightarrow>
     call_fn (cs_calls s ! i) (cs_world s) = Some (r, w') \<Longrightarrow>
     call_step env ctx i s (after_function i r (s\<lparr>cs_world := w'\<rparr>))"
| commit: "i < length (cs_calls s) \<Longrightarrow> call_pc (cs_calls s ! i) = Persisting v j \<Longrightarrow>
     persist_checkpoint env ctx (call_name (cs_calls s ! i)) j (cs_world s) = (r, w') \<Longrightarrow>
     call_step env ctx i s (after_write i v r (s\<lparr>cs_world := w'\<rparr>))"
| drop_waiting: "i < length (cs_calls s) \<Longrightarrow> call_pc (cs_calls s ! i) = Entering \<Longrightarrow>
     call_step env ctx i s (set_pc i Dropped s)"
| drop_locked: "i < length (cs_calls s) \<Longrightarrow> call_pc (cs_calls s ! i) = Locked \<Longrightarrow>
     call_step env ctx i s (leave i Dropped s)"
| drop_computing: "i < length (cs_calls s) \<Longrightarrow> call_pc (cs_calls s ! i) = Computing \<Longrightarrow>
     protocol (e_pg env) (cs_world s) w' \<Longrightarrow> same_cache (cs_world s) w' \<Longrightarrow>
     call_step env ctx i s (leave i Dropped (s\<lparr>cs_world := w'\<rparr>))"
| drop_writing: "i < length (cs_calls s) \<Longrightarrow> call_pc (cs_calls s ! i) = Persisting v j \<Longrightarrow>
     persist_checkpoint env ctx (call_name (cs_calls s ! i)) j (cs_world s) = (r, w') \<Longrightarrow>
     call_step env ctx i s (leave i Dropped (s\<lparr>cs_world := w'\<lparr>w_cache := w_cache (cs_world s)\<rparr>\<rparr>))"

definition calls_step :: "env \<Rightarrow> TaskContext \<Rightarrow> 'a calls \<Rightarrow> 'a calls \<Rightarrow> bool" where
  "calls_step env ctx s t \<longleftrightarrow> (\<exists>i. call_step env ctx i s t)"

definition calls_start :: "world \<Rightarrow> 'a call list \<Rightarrow> 'a calls" where
  "calls_start w cs = \<lparr>cs_world = w, cs_locks = [], cs_calls = map (\<lambda>c. c\<lparr>call_pc := Entering\<rparr>) cs\<rparr>"

subsection \<open>The invariant\<close>

definition ran_ok :: "'a call_pc \<Rightarrow> bool" where
  "ran_ok pc = (case pc of Returned computed r \<Rightarrow> computed \<and> \<not> isl r | _ \<Rightarrow> False)"

definition cached :: "'a calls \<Rightarrow> string \<Rightarrow> json option" where
  "cached s name = map_of (w_cache (cs_world s)) name"

definition call_ok :: "'a calls \<Rightarrow> nat \<Rightarrow> 'a call \<Rightarrow> bool" where
  "call_ok s i c \<longleftrightarrow>
     (in_section (call_pc c) \<longrightarrow> lock_holder (call_name c) (cs_locks s) = Some i)
   \<and> (case call_pc c of
        Computing \<Rightarrow> cached s (call_name c) = None
      | Persisting v j \<Rightarrow> cached s (call_name c) = None \<and> call_ser c v = Inr j
      | Returned computed (Inr v) \<Rightarrow> (\<exists>st. cached s (call_name c) = Some st
          \<and> (call_dec c st = Inr v \<or> computed \<and> call_ser c v = Inr st))
      | _ \<Rightarrow> True)"

definition locks_ok :: "'a calls \<Rightarrow> bool" where
  "locks_ok s \<longleftrightarrow> (\<forall>n i. lock_holder n (cs_locks s) = Some i \<longrightarrow>
     i < length (cs_calls s) \<and> call_name (cs_calls s ! i) = n \<and> in_section (call_pc (cs_calls s ! i)))"

definition calls_inv :: "env \<Rightarrow> 'a calls \<Rightarrow> bool" where
  "calls_inv env s \<longleftrightarrow>
     db_inv (e_pg env) (w_db (cs_world s)) \<and> locks_ok s
   \<and> (\<forall>i<length (cs_calls s). call_ok s i (cs_calls s ! i))
   \<and> (\<forall>i<length (cs_calls s). \<forall>j<length (cs_calls s). ran_ok (call_pc (cs_calls s ! i)) \<longrightarrow>
        ran_ok (call_pc (cs_calls s ! j)) \<longrightarrow> call_name (cs_calls s ! i) = call_name (cs_calls s ! j) \<longrightarrow> i = j)"

text \<open>Step functions keep to the database protocol and do not nest checkpoint calls (a nested call of
  the same name would wait for its own lock forever).\<close>

definition calls_ok :: "env \<Rightarrow> 'a calls \<Rightarrow> bool" where
  "calls_ok env s \<longleftrightarrow> (\<forall>c\<in>set (cs_calls s).
     async_effect (protocol (e_pg env)) (call_fn c) \<and> async_effect same_cache (call_fn c))"

lemma calls_sel [simp]:
  "cs_world (set_pc i pc s) = cs_world s" "cs_locks (set_pc i pc s) = cs_locks s"
  "cs_world (leave i pc s) = cs_world s"
  "cs_locks (leave i pc s) = lock_release (call_name (cs_calls s ! i)) (cs_locks s)"
  "cs_calls (set_pc i pc s) = (cs_calls s)[i := (cs_calls s ! i)\<lparr>call_pc := pc\<rparr>]"
  "cs_calls (leave i pc s) = (cs_calls s)[i := (cs_calls s ! i)\<lparr>call_pc := pc\<rparr>]"
  by (simp_all add: set_pc_def leave_def)

lemma call_ok_frame:
  assumes "cached t (call_name c) = cached s (call_name c)"
    and "in_section (call_pc c) \<Longrightarrow> lock_holder (call_name c) (cs_locks t) = lock_holder (call_name c) (cs_locks s)"
    and "call_ok s i c"
  shows "call_ok t i c"
  using assms unfolding call_ok_def by (simp split: call_pc.splits sum.splits)

lemma ran_ok_cached:
  assumes "call_ok s i c" and "ran_ok (call_pc c)"
  shows "cached s (call_name c) \<noteq> None"
  using assms by (auto simp: call_ok_def ran_ok_def isl_def split: call_pc.splits sum.splits)

lemma calls_inv_lock:
  "calls_inv env s \<Longrightarrow> lock_holder n (cs_locks s) = Some j \<Longrightarrow>
    j < length (cs_calls s) \<and> call_name (cs_calls s ! j) = n \<and> in_section (call_pc (cs_calls s ! j))"
  unfolding calls_inv_def locks_ok_def by blast

text \<open>A step of call \<open>i\<close> inside or at the border of its section keeps the invariant when it only touches
  its own lock, its own cache entry, and only an empty one.\<close>

lemma call_ok_other:
  assumes okj: "call_ok s j c" and j: "j \<noteq> i"
    and own: "lock_holder n (cs_locks s) \<in> {None, Some i}"
    and locks: "\<And>n'. n' \<noteq> n \<Longrightarrow> lock_holder n' (cs_locks t) = lock_holder n' (cs_locks s)"
    and cache: "\<And>n'. n' \<noteq> n \<or> cached s n' \<noteq> None \<Longrightarrow> cached t n' = cached s n'"
  shows "call_ok t j c"
proof (cases "call_name c = n")
  case True
  have out: "\<not> in_section (call_pc c)" using okj own j True by (auto simp: call_ok_def)
  show ?thesis
  proof (cases "\<exists>b v. call_pc c = Returned b (Inr v)")
    case True
    then have "cached s (call_name c) \<noteq> None" using okj by (auto simp: call_ok_def)
    then have "cached t (call_name c) = cached s (call_name c)" using cache by blast
    then show ?thesis using okj out by (blast intro: call_ok_frame)
  next
    case False
    then show ?thesis using out
      by (auto simp: call_ok_def in_section_def split: call_pc.splits sum.splits)
  qed
next
  case False
  then have "cached t (call_name c) = cached s (call_name c)" using cache by blast
  then show ?thesis using okj False locks by (auto intro: call_ok_frame)
qed

lemma calls_inv_update:
  assumes inv: "calls_inv env s" and i: "i < length (cs_calls s)"
    and calls: "cs_calls t = (cs_calls s)[i := (cs_calls s ! i)\<lparr>call_pc := pc\<rparr>]"
    and own: "lock_holder (call_name (cs_calls s ! i)) (cs_locks s) \<in> {None, Some i}"
    and locks: "\<And>n. lock_holder n (cs_locks t) = (if n = call_name (cs_calls s ! i)
      then if in_section pc then Some i else None else lock_holder n (cs_locks s))"
    and cache: "\<And>n. n \<noteq> call_name (cs_calls s ! i) \<or> cached s n \<noteq> None \<Longrightarrow> cached t n = cached s n"
    and db: "db_inv (e_pg env) (w_db (cs_world t))"
    and ok: "call_ok t i ((cs_calls s ! i)\<lparr>call_pc := pc\<rparr>)"
    and once: "ran_ok pc \<Longrightarrow> cached s (call_name (cs_calls s ! i)) = None"
  shows "calls_inv env t"
proof -
  let ?c = "\<lambda>j. cs_calls s ! j"
  have nth: "cs_calls t ! j = (if j = i then (?c i)\<lparr>call_pc := pc\<rparr> else ?c j)" for j
    using i by (simp add: calls)
  have len: "length (cs_calls t) = length (cs_calls s)" by (simp add: calls)
  have other: "call_ok t j (?c j)" if j: "j < length (cs_calls s)" "j \<noteq> i" for j
    using call_ok_other [OF _ j(2) own _ cache] inv j(1) locks by (simp add: calls_inv_def)
  have "locks_ok t"
    unfolding locks_ok_def
  proof (intro allI impI)
    fix n j
    assume h: "lock_holder n (cs_locks t) = Some j"
    show "j < length (cs_calls t) \<and> call_name (cs_calls t ! j) = n \<and> in_section (call_pc (cs_calls t ! j))"
    proof (cases "n = call_name (?c i)")
      case True
      then show ?thesis using h locks [of n] i by (simp add: nth len split: if_splits)
    next
      case False
      then have "lock_holder n (cs_locks s) = Some j" using h locks by simp
      then show ?thesis using calls_inv_lock [OF inv, of n j] False by (auto simp: nth len)
    qed
  qed
  moreover have fresh: "\<not> ran_ok (call_pc (?c j))"
    if "ran_ok pc" "j < length (cs_calls s)" "call_name (?c j) = call_name (?c i)" for j
    using that once ran_ok_cached [of s j "?c j"] inv by (auto simp: calls_inv_def)
  moreover have "i' = j'" if "i' < length (cs_calls s)" "j' < length (cs_calls s)"
    "ran_ok (call_pc (cs_calls t ! i'))" "ran_ok (call_pc (cs_calls t ! j'))"
    "call_name (cs_calls t ! i') = call_name (cs_calls t ! j')" for i' j'
  proof -
    have "ran_ok (call_pc (?c i')) \<Longrightarrow> ran_ok (call_pc (?c j')) \<Longrightarrow>
        call_name (?c i') = call_name (?c j') \<Longrightarrow> i' = j'"
      using inv that(1,2) unfolding calls_inv_def by blast
    then show ?thesis using that(3-5) fresh [of i'] fresh [of j'] that(1,2)
      by (cases "i' = i"; cases "j' = i") (simp_all add: nth)
  qed
  ultimately show ?thesis using db other ok by (simp add: calls_inv_def nth len)
qed

lemma persist_cache:
  assumes "persist_checkpoint env ctx name v w = (r, w')"
  shows "map_of (w_cache w') n = (case r of Inl _ \<Rightarrow> map_of (w_cache w) n
    | Inr (state, _) \<Rightarrow> if n = name then Some state else map_of (w_cache w) n)"
proof -
  obtain y u where call: "execute env Pool (set_task_checkpoint_state (e_pg env) (ctx_queue_name ctx)
      (ctx_task_id ctx) name v (ctx_run_id ctx)) w = (y, u)"
    by fastforce
  have "w_cache u = w_cache w"
    using effectD [OF frame_execute(2) call] by (simp add: same_cache_def)
  then show ?thesis using assms call
    by (auto simp: persist_checkpoint_def cache_checkpoint_def ebind_def eseq_def esm_apply map_err_def
        update_conv' split: sum.splits option.splits)
qed


lemma calls_inv_own:
  assumes "calls_inv env s" "i < length (cs_calls s)"
  shows "call_ok s i (cs_calls s ! i)"
    "in_section (call_pc (cs_calls s ! i)) \<Longrightarrow>
      lock_holder (call_name (cs_calls s ! i)) (cs_locks s) = Some i"
  using assms by (auto simp: calls_inv_def call_ok_def)

text \<open>The three shapes of a step: staying in the section, leaving it, and giving up at the lock.\<close>

lemma calls_inv_stay:
  assumes inv: "calls_inv env s" and i: "i < length (cs_calls s)"
    and pc: "in_section (call_pc (cs_calls s ! i))" "in_section pc"
    and cache: "w_cache w' = w_cache (cs_world s)" and db: "db_inv (e_pg env) (w_db w')"
    and ok: "call_ok s i ((cs_calls s ! i)\<lparr>call_pc := pc\<rparr>)"
  shows "calls_inv env (set_pc i pc (s\<lparr>cs_world := w'\<rparr>))"
proof (rule calls_inv_update [OF inv i])
  show "call_ok (set_pc i pc (s\<lparr>cs_world := w'\<rparr>)) i ((cs_calls s ! i)\<lparr>call_pc := pc\<rparr>)"
    using ok cache by (auto simp: cached_def intro: call_ok_frame)
  show "ran_ok pc \<Longrightarrow> cached s (call_name (cs_calls s ! i)) = None"
    using pc(2) by (simp add: ran_ok_def in_section_def split: call_pc.splits)
qed (use calls_inv_own [OF inv i] pc cache db in \<open>simp_all add: cached_def\<close>)

lemma calls_inv_leave:
  assumes inv: "calls_inv env s" and i: "i < length (cs_calls s)"
    and pc: "in_section (call_pc (cs_calls s ! i))" "ended pc"
    and cache: "\<And>n. n \<noteq> call_name (cs_calls s ! i) \<or> cached s n \<noteq> None \<Longrightarrow>
      map_of (w_cache w') n = cached s n"
    and db: "db_inv (e_pg env) (w_db w')"
    and ok: "call_ok (s\<lparr>cs_world := w'\<rparr>) i ((cs_calls s ! i)\<lparr>call_pc := pc\<rparr>)"
    and once: "ran_ok pc \<Longrightarrow> cached s (call_name (cs_calls s ! i)) = None"
  shows "calls_inv env (leave i pc (s\<lparr>cs_world := w'\<rparr>))"
proof (rule calls_inv_update [OF inv i])
  have out: "\<not> in_section pc" using pc(2) by (simp add: ended_def in_section_def split: call_pc.splits)
  show "call_ok (leave i pc (s\<lparr>cs_world := w'\<rparr>)) i ((cs_calls s ! i)\<lparr>call_pc := pc\<rparr>)"
    using ok by (rule call_ok_frame [rotated 2]) (use out in \<open>simp_all add: cached_def\<close>)
  show "lock_holder n (cs_locks (leave i pc (s\<lparr>cs_world := w'\<rparr>))) =
      (if n = call_name (cs_calls s ! i) then if in_section pc then Some i else None
       else lock_holder n (cs_locks s))" for n
    using out by simp
  show "cached (leave i pc (s\<lparr>cs_world := w'\<rparr>)) n = cached s n"
    if "n \<noteq> call_name (cs_calls s ! i) \<or> cached s n \<noteq> None" for n
    using cache [OF that] by (simp add: cached_def)
qed (use calls_inv_own [OF inv i] pc db once in simp_all)

lemma calls_inv_give_up:
  assumes inv: "calls_inv env s" and i: "i < length (cs_calls s)"
    and pc: "call_pc (cs_calls s ! i) = Entering"
  shows "calls_inv env (set_pc i Dropped s)"
proof -
  have "locks_ok (set_pc i Dropped s)"
    unfolding locks_ok_def
  proof (intro allI impI)
    fix n j
    assume "lock_holder n (cs_locks (set_pc i Dropped s)) = Some j"
    then have "j < length (cs_calls s) \<and> call_name (cs_calls s ! j) = n \<and> in_section (call_pc (cs_calls s ! j))"
      using calls_inv_lock [OF inv] by simp
    then show "j < length (cs_calls (set_pc i Dropped s)) \<and> call_name (cs_calls (set_pc i Dropped s) ! j) = n
        \<and> in_section (call_pc (cs_calls (set_pc i Dropped s) ! j))"
      using pc by (cases "j = i") (simp_all add: in_section_def)
  qed
  moreover have "call_ok (set_pc i Dropped s) j (cs_calls (set_pc i Dropped s) ! j)"
    if "j < length (cs_calls s)" for j
  proof (cases "j = i")
    case True
    then show ?thesis using i by (simp add: call_ok_def in_section_def)
  next
    case False
    have "call_ok s j (cs_calls s ! j)" using inv that by (simp add: calls_inv_def)
    then have "call_ok (set_pc i Dropped s) j (cs_calls s ! j)"
      by (rule call_ok_frame [rotated 2]) (simp_all add: cached_def)
    then show ?thesis using False by simp
  qed
  moreover have "ran_ok (call_pc (cs_calls (set_pc i Dropped s) ! j)) \<longleftrightarrow> j \<noteq> i \<and> ran_ok (call_pc (cs_calls s ! j))"
    "call_name (cs_calls (set_pc i Dropped s) ! j) = call_name (cs_calls s ! j)" if "j < length (cs_calls s)" for j
    using i that by (cases "j = i"; simp add: ran_ok_def)+
  ultimately show ?thesis using inv unfolding calls_inv_def calls_sel(1,2) by simp
qed


lemma calls_ok_fn:
  assumes "calls_ok env s" "i < length (cs_calls s)" "call_fn (cs_calls s ! i) w = Some (r, w')"
  shows "protocol (e_pg env) w w'" "w_cache w' = w_cache w"
proof -
  have "async_effect (protocol (e_pg env)) (call_fn (cs_calls s ! i))"
    "async_effect same_cache (call_fn (cs_calls s ! i))"
    using assms(1,2) by (simp_all add: calls_ok_def)
  then show "protocol (e_pg env) w w'" "w_cache w' = w_cache w"
    using assms(3) by (auto dest: async_effectD simp: same_cache_def)
qed

lemma after_function_inv:
  assumes inv: "calls_inv env s" and i: "i < length (cs_calls s)"
    and pc: "call_pc (cs_calls s ! i) = Computing"
    and cache: "w_cache w' = w_cache (cs_world s)" and db: "db_inv (e_pg env) (w_db w')"
  shows "calls_inv env (after_function i r (s\<lparr>cs_world := w'\<rparr>))"
proof -
  have "in_section (call_pc (cs_calls s ! i))" using pc by (simp add: in_section_def)
  note stay = calls_inv_stay [OF inv i this _ cache db] and out = calls_inv_leave [OF inv i this _ _ db]
  have own: "lock_holder (call_name (cs_calls s ! i)) (cs_locks s) = Some i"
    "cached s (call_name (cs_calls s ! i)) = None"
    using calls_inv_own [OF inv i] pc by (simp_all add: in_section_def call_ok_def)
  have failed: "calls_inv env (leave i (Returned True (Inl e)) (s\<lparr>cs_world := w'\<rparr>))" for e
    using cache by (intro out) (simp_all add: ended_def call_ok_def ran_ok_def in_section_def cached_def)
  have "calls_inv env (set_pc i (Persisting v j) (s\<lparr>cs_world := w'\<rparr>))"
    if "call_ser (cs_calls s ! i) v = Inr j" for v j
    using own that by (intro stay) (simp_all add: in_section_def call_ok_def)
  then show ?thesis using failed
    by (auto simp: after_function_def serde_Inr_iff split: sum.split)
qed

lemma after_write_inv:
  assumes env: "env_ok env" and inv: "calls_inv env s" and i: "i < length (cs_calls s)"
    and pc: "call_pc (cs_calls s ! i) = Persisting v j"
    and run: "persist_checkpoint env ctx (call_name (cs_calls s ! i)) j (cs_world s) = (r, w')"
  shows "calls_inv env (after_write i v r (s\<lparr>cs_world := w'\<rparr>))"
    and "calls_inv env (leave i Dropped (s\<lparr>cs_world := w'\<lparr>w_cache := w_cache (cs_world s)\<rparr>\<rparr>))"
proof -
  let ?n = "call_name (cs_calls s ! i)"
  have sec: "in_section (call_pc (cs_calls s ! i))" using pc by (simp add: in_section_def)
  have ser: "call_ser (cs_calls s ! i) v = Inr j" and none: "cached s ?n = None"
    using calls_inv_own [OF inv i] pc by (simp_all add: call_ok_def)
  have pg: "pg_ok (e_pg env)" and old: "db_inv (e_pg env) (w_db (cs_world s))"
    using env inv by (simp_all add: env_ok_def calls_inv_def)
  have db: "db_inv (e_pg env) (w_db w')"
    using protocol_inv [OF effectD [OF context_protocol(3) [OF env] run]] pg old by simp
  note cache = persist_cache [OF run]
  show "calls_inv env (leave i Dropped (s\<lparr>cs_world := w'\<lparr>w_cache := w_cache (cs_world s)\<rparr>\<rparr>))"
    using db by (intro calls_inv_leave [OF inv i sec])
      (simp_all add: ended_def call_ok_def ran_ok_def in_section_def cached_def)
  show "calls_inv env (after_write i v r (s\<lparr>cs_world := w'\<rparr>))"
  proof (cases r)
    case (Inl e)
    have "calls_inv env (leave i (Returned True (Inl e)) (s\<lparr>cs_world := w'\<rparr>))"
      using db cache Inl by (intro calls_inv_leave [OF inv i sec])
        (simp_all add: ended_def call_ok_def ran_ok_def in_section_def cached_def)
    then show ?thesis using Inl by (simp add: after_write_def)
  next
    case (Inr p)
    obtain st written where p: "p = (st, written)" by fastforce
    have fresh: "written \<Longrightarrow> st = j"
      using persist_success [OF env old run [unfolded Inr p]] by blast
    have "calls_inv env (leave i (Returned True (if written then Inr v
        else serde (call_dec (cs_calls s ! i) st))) (s\<lparr>cs_world := w'\<rparr>))"
      using db cache Inr p fresh ser none
      by (intro calls_inv_leave [OF inv i sec])
        (auto simp: ended_def call_ok_def in_section_def cached_def serde_Inr_iff split: sum.splits)
    then show ?thesis using Inr p by (cases written) (simp_all add: after_write_def)
  qed
qed


lemma call_step_inv:
  assumes env: "env_ok env" and ok: "calls_ok env s" and inv: "calls_inv env s"
    and step: "call_step env ctx i s t"
  shows "calls_inv env t"
  using step
proof cases
  case acquire
  have "calls_inv env ((set_pc i Locked s)\<lparr>cs_locks := lock_take (call_name (cs_calls s ! i)) i (cs_locks s)\<rparr>)"
    using acquire inv by (intro calls_inv_update [OF inv, of i _ Locked])
      (auto simp: in_section_def call_ok_def cached_def ran_ok_def calls_inv_def)
  then show ?thesis using acquire by simp
next
  case (replay state)
  have "calls_inv env (leave i (Returned False (serde (call_dec (cs_calls s ! i) state)))
      (s\<lparr>cs_world := cs_world s\<rparr>))"
    using replay inv by (intro calls_inv_leave [OF inv])
      (auto simp: in_section_def ended_def call_ok_def cached_def ran_ok_def calls_inv_def serde_Inr_iff
        split: sum.split)
  then show ?thesis using replay by simp
next
  case begin_function
  have "calls_inv env (set_pc i Computing (s\<lparr>cs_world := cs_world s\<rparr>))"
    using begin_function inv calls_inv_own [OF inv] by (intro calls_inv_stay [OF inv])
      (auto simp: in_section_def call_ok_def cached_def calls_inv_def)
  then show ?thesis using begin_function by simp
next
  case (end_function r w')
  have "db_inv (e_pg env) (w_db w')"
    using protocol_inv calls_ok_fn(1) [OF ok end_function(2,4)] env inv
    by (fastforce simp: env_ok_def calls_inv_def)
  then show ?thesis
    using after_function_inv [OF inv end_function(2,3)] calls_ok_fn(2) [OF ok end_function(2,4)]
      end_function(1) by simp
next
  case (commit v j r w')
  then show ?thesis using after_write_inv(1) [OF env inv] by simp
next
  case drop_waiting
  then show ?thesis using calls_inv_give_up [OF inv] by simp
next
  case drop_locked
  have "calls_inv env (leave i Dropped (s\<lparr>cs_world := cs_world s\<rparr>))"
    using drop_locked inv by (intro calls_inv_leave [OF inv])
      (auto simp: in_section_def ended_def call_ok_def cached_def ran_ok_def calls_inv_def)
  then show ?thesis using drop_locked by simp
next
  case (drop_computing w')
  have "db_inv (e_pg env) (w_db w')"
    using protocol_inv drop_computing(4) env inv by (fastforce simp: env_ok_def calls_inv_def)
  then have "calls_inv env (leave i Dropped (s\<lparr>cs_world := w'\<rparr>))"
    using drop_computing by (intro calls_inv_leave [OF inv])
      (auto simp: in_section_def ended_def call_ok_def cached_def ran_ok_def same_cache_def)
  then show ?thesis using drop_computing by simp
next
  case (drop_writing v j r w')
  then show ?thesis using after_write_inv(2) [OF env inv] by simp
qed


text \<open>A step moves one call forward and leaves what the calls are.\<close>

definition call_rank :: "'a call_pc \<Rightarrow> nat" where
  "call_rank pc = (case pc of Entering \<Rightarrow> 4 | Locked \<Rightarrow> 3 | Computing \<Rightarrow> 2 | Persisting _ _ \<Rightarrow> 1 | _ \<Rightarrow> 0)"

definition calls_left :: "'a calls \<Rightarrow> nat" where
  "calls_left s = sum_list (map (\<lambda>c. call_rank (call_pc c)) (cs_calls s))"

lemma call_step_shape:
  assumes "call_step env ctx i s t"
  obtains pc where "i < length (cs_calls s)" "cs_calls t = (cs_calls s)[i := (cs_calls s ! i)\<lparr>call_pc := pc\<rparr>]"
    "call_rank pc < call_rank (call_pc (cs_calls s ! i))"
  using assms
  by cases (auto simp: after_function_def after_write_def call_rank_def split: sum.splits)

lemma call_step_frame:
  assumes "call_step env ctx i s t"
  shows "map (\<lambda>c. c\<lparr>call_pc := Entering\<rparr>) (cs_calls t) = map (\<lambda>c. c\<lparr>call_pc := Entering\<rparr>) (cs_calls s)"
    and "calls_left t < calls_left s"
proof -
  obtain pc where t: "i < length (cs_calls s)" "cs_calls t = (cs_calls s)[i := (cs_calls s ! i)\<lparr>call_pc := pc\<rparr>]"
    "call_rank pc < call_rank (call_pc (cs_calls s ! i))"
    using assms by (rule call_step_shape)
  show "map (\<lambda>c. c\<lparr>call_pc := Entering\<rparr>) (cs_calls t) = map (\<lambda>c. c\<lparr>call_pc := Entering\<rparr>) (cs_calls s)"
    using t by (simp add: map_update list_update_same_conv)
  show "calls_left t < calls_left s"
    using t member_le_sum_list [of "call_rank (call_pc (cs_calls s ! i))" "map (\<lambda>c. call_rank (call_pc c)) (cs_calls s)"]
    by (simp add: calls_left_def map_update sum_list_update)
qed

lemma calls_ok_frame:
  assumes "map (\<lambda>c. c\<lparr>call_pc := Entering\<rparr>) (cs_calls t) = map (\<lambda>c. c\<lparr>call_pc := Entering\<rparr>) (cs_calls s)"
    and "calls_ok env s"
  shows "calls_ok env t"
proof -
  have "map call_fn (cs_calls t) = map call_fn (cs_calls s)"
    using arg_cong [OF assms(1), of "map call_fn"] by (simp add: comp_def)
  then have "call_fn ` set (cs_calls t) = call_fn ` set (cs_calls s)" by (metis list.set_map)
  then show ?thesis using assms(2) unfolding calls_ok_def by (metis (no_types, lifting) imageE imageI)
qed

text \<open>Calls that start together on a database that satisfies its invariant.\<close>

definition calls_begin :: "env \<Rightarrow> 'a call list \<Rightarrow> 'a calls \<Rightarrow> bool" where
  "calls_begin env cs s \<longleftrightarrow> (\<exists>w. s = calls_start w cs \<and> db_inv (e_pg env) (w_db w)) \<and> calls_ok env s
     \<and> env_ok env"

definition calls_good :: "env \<Rightarrow> 'a call list \<Rightarrow> 'a calls \<Rightarrow> bool" where
  "calls_good env cs s \<longleftrightarrow> env_ok env \<and> calls_ok env s \<and> calls_inv env s
     \<and> map (\<lambda>c. c\<lparr>call_pc := Entering\<rparr>) (cs_calls s) = map (\<lambda>c. c\<lparr>call_pc := Entering\<rparr>) cs"

interpretation concurrent_calls: transition_system "calls_begin env cs" "calls_step env ctx" "calls_good env cs"
  for env :: env and ctx :: TaskContext and cs :: "'a call list"
proof
  show "calls_good env cs s" if "calls_begin env cs s" for s
    using that by (auto simp: calls_begin_def calls_good_def calls_start_def calls_inv_def locks_ok_def
        call_ok_def in_section_def ran_ok_def lock_holder_def comp_def)
  show "calls_good env cs t" if "calls_step env ctx s t" "calls_good env cs s" for s t
    using that call_step_inv call_step_frame(1) calls_ok_frame
    unfolding calls_good_def calls_step_def by metis
qed


lemma calls_good_index:
  assumes "calls_good env cs s" "i < length cs"
  shows "i < length (cs_calls s)" "call_ok s i (cs_calls s ! i)"
    "call_name (cs_calls s ! i) = call_name (cs ! i)" "call_ser (cs_calls s ! i) = call_ser (cs ! i)"
    "call_dec (cs_calls s ! i) = call_dec (cs ! i)" "call_fn (cs_calls s ! i) = call_fn (cs ! i)"
proof -
  have same: "map (\<lambda>c. c\<lparr>call_pc := Entering\<rparr>) (cs_calls s) = map (\<lambda>c. c\<lparr>call_pc := Entering\<rparr>) cs"
    using assms(1) by (simp add: calls_good_def)
  show i: "i < length (cs_calls s)" using map_eq_imp_length_eq [OF same] assms(2) by simp
  then show "call_ok s i (cs_calls s ! i)" using assms(1) by (simp add: calls_good_def calls_inv_def)
  have "(cs_calls s ! i)\<lparr>call_pc := Entering\<rparr> = (cs ! i)\<lparr>call_pc := Entering\<rparr>"
    using arg_cong [OF same, of "\<lambda>xs. xs ! i"] i assms(2) by simp
  then show "call_name (cs_calls s ! i) = call_name (cs ! i)" "call_ser (cs_calls s ! i) = call_ser (cs ! i)"
    "call_dec (cs_calls s ! i) = call_dec (cs ! i)" "call_fn (cs_calls s ! i) = call_fn (cs ! i)"
    by (metis call.ext_inject call.surjective call.update_convs(5))+
qed

lemma calls_start_good:
  assumes "env_ok env" and "db_inv (e_pg env) (w_db w)"
    and "\<forall>c\<in>set cs. async_effect (protocol (e_pg env)) (call_fn c) \<and> async_effect same_cache (call_fn c)"
    and "(calls_step env ctx)\<^sup>*\<^sup>* (calls_start w cs) s"
  shows "calls_good env cs s"
proof -
  have "calls_begin env cs (calls_start w cs)"
    using assms by (auto simp: calls_begin_def calls_ok_def calls_start_def)
  then show ?thesis using assms(4) by (rule concurrent_calls.reachable_good)
qed

text \<open>The next step of a call that is not dropped, as a function: a schedule is a list of calls.\<close>

definition advance :: "env \<Rightarrow> TaskContext \<Rightarrow> nat \<Rightarrow> 'a calls \<Rightarrow> 'a calls option" where
  "advance env ctx i s =
     (if i < length (cs_calls s) then
        let c = cs_calls s ! i in
        (case call_pc c of
           Entering \<Rightarrow>
             (case lock_holder (call_name c) (cs_locks s) of
                Some _ \<Rightarrow> None
              | None \<Rightarrow> Some ((set_pc i Locked s)\<lparr>cs_locks := lock_take (call_name c) i (cs_locks s)\<rparr>))
         | Locked \<Rightarrow>
             (case map_of (w_cache (cs_world s)) (call_name c) of
                Some state \<Rightarrow> Some (leave i (Returned False (serde (call_dec c state))) s)
              | None \<Rightarrow> Some (set_pc i Computing s))
         | Computing \<Rightarrow>
             (case call_fn c (cs_world s) of
                None \<Rightarrow> None
              | Some (r, w') \<Rightarrow> Some (after_function i r (s\<lparr>cs_world := w'\<rparr>)))
         | Persisting v j \<Rightarrow>
             (case persist_checkpoint env ctx (call_name c) j (cs_world s) of
                (r, w') \<Rightarrow> Some (after_write i v r (s\<lparr>cs_world := w'\<rparr>)))
         | _ \<Rightarrow> None)
      else None)"

fun advance_all :: "env \<Rightarrow> TaskContext \<Rightarrow> nat list \<Rightarrow> 'a calls \<Rightarrow> 'a calls option" where
  "advance_all env ctx [] s = Some s"
| "advance_all env ctx (i # is) s =
     (case advance env ctx i s of None \<Rightarrow> None | Some t \<Rightarrow> advance_all env ctx is t)"

lemma after_pc:
  assumes "i < length (cs_calls s)"
  shows "call_pc (cs_calls (after_function i r s) ! i) \<noteq> Dropped"
    and "call_pc (cs_calls (after_write i v p s) ! i) \<noteq> Dropped"
proof -
  show "call_pc (cs_calls (after_function i r s) ! i) \<noteq> Dropped"
    using assms by (cases r) (auto simp: after_function_def split: sum.split)
  show "call_pc (cs_calls (after_write i v p s) ! i) \<noteq> Dropped"
    using assms by (cases p) (auto simp: after_write_def)
qed

lemma advance_step:
  assumes "advance env ctx i s = Some t"
  shows "call_step env ctx i s t" "call_pc (cs_calls t ! i) \<noteq> Dropped"
  using assms
  by (auto simp: advance_def Let_def after_pc intro: call_step.intros split: if_splits call_pc.splits
      option.splits prod.splits)

lemma advance_all_steps: "advance_all env ctx is s = Some t \<Longrightarrow> (calls_step env ctx ^^ length is) s t"
proof (induction "is" arbitrary: s)
  case (Cons i "is")
  then obtain u where u: "advance env ctx i s = Some u" "advance_all env ctx is u = Some t"
    by (auto split: option.splits)
  then have "calls_step env ctx s u" by (auto simp: calls_step_def dest: advance_step(1))
  moreover have "(calls_step env ctx ^^ length is) u t" using u(2) by (rule Cons.IH)
  ultimately show ?case by (auto intro: relpowp_Suc_I2 simp del: relpowp.simps)
qed simp

lemma section_progress:
  assumes "i < length (cs_calls s)" and "in_section (call_pc (cs_calls s ! i))"
    and "call_fn (cs_calls s ! i) (cs_world s) \<noteq> None"
  shows "\<exists>t. advance env ctx i s = Some t"
  using assms
  by (auto simp: advance_def in_section_def Let_def split: call_pc.splits option.splits prod.splits)

text \<open>A call that has not ended can move, or the call that holds its lock can.\<close>

lemma call_progress:
  assumes inv: "calls_inv env s" and i: "i < length (cs_calls s)"
    and live: "\<not> ended (call_pc (cs_calls s ! i))"
    and returns: "\<And>c. c \<in> set (cs_calls s) \<Longrightarrow> call_fn c (cs_world s) \<noteq> None"
  shows "\<exists>k t. advance env ctx k s = Some t"
proof (cases "in_section (call_pc (cs_calls s ! i))")
  case True
  then show ?thesis using section_progress [OF i True] returns i by (metis nth_mem)
next
  case False
  then have entering: "call_pc (cs_calls s ! i) = Entering"
    using live by (simp add: in_section_def ended_def split: call_pc.splits)
  show ?thesis
  proof (cases "lock_holder (call_name (cs_calls s ! i)) (cs_locks s)")
    case None
    then have "advance env ctx i s \<noteq> None" using i entering by (simp add: advance_def)
    then show ?thesis by blast
  next
    case (Some k)
    then have "k < length (cs_calls s)" "in_section (call_pc (cs_calls s ! k))"
      using calls_inv_lock [OF inv] by auto
    then show ?thesis using section_progress returns by (metis nth_mem)
  qed
qed

subsection \<open>A call by itself\<close>

text \<open>What the world is when a lone call is at each point.\<close>

definition alone_at :: "env \<Rightarrow> TaskContext \<Rightarrow> 'a call \<Rightarrow> world \<Rightarrow> 'a calls \<Rightarrow> bool" where
  "alone_at env ctx c w s \<longleftrightarrow>
     (let pc = call_pc (cs_calls s ! 0) in
      cs_calls s = [c\<lparr>call_pc := pc\<rparr>] \<and>
       (case pc of
          Entering \<Rightarrow> cs_world s = w
        | Locked \<Rightarrow> cs_world s = w
        | Computing \<Rightarrow> cs_world s = w \<and> map_of (w_cache w) (call_name c) = None
        | Persisting v j \<Rightarrow> map_of (w_cache w) (call_name c) = None \<and> call_ser c v = Inr j
            \<and> call_fn c w = Some (Inr v, cs_world s)
        | Returned b r \<Rightarrow> checkpoint env ctx (call_ser c) (call_dec c) (call_name c) (call_fn c) w
            = Some (r, cs_world s)
        | Dropped \<Rightarrow> True))"

lemmas checkpoint_unfold = checkpoint_def cached_checkpoint_def abind_apply async_apply esm_apply

lemma alone_step:
  assumes s: "alone_at env ctx c w s" and step: "call_step env ctx i s t"
  shows "alone_at env ctx c w t"
proof -
  define pc where "pc = call_pc (cs_calls s ! 0)"
  have calls: "cs_calls s = [c\<lparr>call_pc := pc\<rparr>]" using s by (simp add: alone_at_def pc_def Let_def)
  have i: "i = 0" using step by (rule call_step_shape) (simp add: calls)
  note at = s [unfolded alone_at_def Let_def, folded pc_def]
  from step show ?thesis
  proof cases
    case (end_function r w')
    then show ?thesis using at calls i
      by (cases r) (auto simp: alone_at_def Let_def leave_def set_pc_def after_function_def checkpoint_unfold
        serde_Inr_iff split: sum.splits)
  next
    case (commit v j r w')
    then show ?thesis using at calls i
      by (cases r) (auto simp: alone_at_def Let_def leave_def set_pc_def after_write_def checkpoint_unfold
        serde_Inr_iff split: sum.splits)
  qed (use at calls i in \<open>auto simp: alone_at_def Let_def leave_def set_pc_def checkpoint_unfold\<close>)
qed


lemma alone_run:
  assumes "checkpoint env ctx (call_ser c) (call_dec c) (call_name c) (call_fn c) w = Some (r, w')"
  obtains s b where "(calls_step env ctx)\<^sup>*\<^sup>* (calls_start w [c]) s" "cs_world s = w'"
    "call_pc (cs_calls s ! 0) = Returned b r"
proof -
  define locks where "locks = lock_take (call_name c) 0 []"
  define at_pc where "at_pc pc = \<lparr>cs_world = w, cs_locks = locks, cs_calls = [c\<lparr>call_pc := pc\<rparr>]\<rparr>" for pc
  have locked: "(calls_step env ctx)\<^sup>*\<^sup>* (calls_start w [c]) (at_pc Locked)"
    using call_step.acquire [of 0 "calls_start w [c]" env ctx]
    by (intro r_into_rtranclp) (auto simp: calls_step_def calls_start_def set_pc_def locks_def at_pc_def
        lock_holder_def)
  show thesis
  proof (cases "map_of (w_cache w) (call_name c)")
    case (Some state)
    let ?t = "leave 0 (Returned False (serde (call_dec c state))) (at_pc Locked)"
    have "calls_step env ctx (at_pc Locked) ?t"
      using call_step.replay [of 0 "at_pc Locked" state env ctx] Some by (auto simp: calls_step_def at_pc_def)
    moreover have "r = serde (call_dec c state) \<and> w' = w"
      using assms Some by (auto simp: checkpoint_unfold split: sum.splits)
    ultimately show thesis using locked
      by (intro that [of ?t]) (auto simp: at_pc_def leave_def set_pc_def)
  next
    case None
    have computing: "(calls_step env ctx)\<^sup>*\<^sup>* (calls_start w [c]) (at_pc Computing)"
      using locked call_step.begin_function [of 0 "at_pc Locked" env ctx] None
      by (elim rtranclp.rtrancl_into_rtrancl) (auto simp: calls_step_def at_pc_def set_pc_def)
    obtain y u where fn: "call_fn c w = Some (y, u)"
      using assms None by (auto simp: checkpoint_unfold split: option.splits)
    let ?u = "after_function 0 y ((at_pc Computing)\<lparr>cs_world := u\<rparr>)"
    have after: "(calls_step env ctx)\<^sup>*\<^sup>* (calls_start w [c]) ?u"
      using computing call_step.end_function [of 0 "at_pc Computing" y u env ctx] fn
      by (elim rtranclp.rtrancl_into_rtrancl) (auto simp: calls_step_def at_pc_def)
    show thesis
    proof (cases "\<exists>v j. y = Inr v \<and> call_ser c v = Inr j")
      case False
      then show thesis using after assms None fn that [of ?u]
        by (cases y) (auto simp: checkpoint_unfold after_function_def at_pc_def leave_def set_pc_def
            serde_Inr_iff split: sum.splits)
    next
      case True
      then obtain v j where v: "y = Inr v" "call_ser c v = Inr j" by auto
      obtain p z where persist: "persist_checkpoint env ctx (call_name c) j u = (p, z)" by fastforce
      let ?t = "after_write 0 v p (?u\<lparr>cs_world := z\<rparr>)"
      have "(calls_step env ctx)\<^sup>*\<^sup>* (calls_start w [c]) ?t"
        using after call_step.commit [of 0 ?u v j env ctx p z] v persist
        by (elim rtranclp.rtrancl_into_rtrancl)
          (auto simp: calls_step_def after_function_def at_pc_def set_pc_def)
      then show thesis using assms None fn v persist that [of ?t]
        by (cases p) (auto simp: checkpoint_unfold after_function_def after_write_def at_pc_def leave_def
            set_pc_def split: sum.splits if_splits)
    qed
  qed
qed

text \<open>The step-by-step model of a checkpoint call, lock included, run by itself, returns exactly
  the result and world of the sequential definition of \<open>TaskContext::checkpoint\<close>.\<close>

lemma lone_call_is_checkpoint:
  "checkpoint env ctx (call_ser c) (call_dec c) (call_name c) (call_fn c) w = Some (r, w')
   \<longleftrightarrow> (\<exists>s b. (calls_step env ctx)\<^sup>*\<^sup>* (calls_start w [c]) s \<and> cs_world s = w'
         \<and> call_pc (cs_calls s ! 0) = Returned b r)"
proof
  assume "\<exists>s b. (calls_step env ctx)\<^sup>*\<^sup>* (calls_start w [c]) s \<and> cs_world s = w'
    \<and> call_pc (cs_calls s ! 0) = Returned b r"
  then obtain s b where s: "(calls_step env ctx)\<^sup>*\<^sup>* (calls_start w [c]) s" "cs_world s = w'"
    "call_pc (cs_calls s ! 0) = Returned b r" by blast
  have "alone_at env ctx c w s"
    using s(1)
  proof (induction rule: rtranclp_induct)
    case base
    then show ?case by (simp add: alone_at_def calls_start_def)
  next
    case (step t u)
    then show ?case using alone_step unfolding calls_step_def by blast
  qed
  then show "checkpoint env ctx (call_ser c) (call_dec c) (call_name c) (call_fn c) w = Some (r, w')"
    using s(2,3) by (simp add: alone_at_def Let_def)
qed (blast elim: alone_run)

subsection \<open>Concurrent callers of one step\<close>

text \<open>\<^bold>\<open>C6.\<close> When checkpoint calls of one attempt run concurrently, in any interleaving and with any of
  them dropped at any await point, two calls of the same name are never both between the lock and their
  end, at most one of them runs its function and returns a value, and all of them that return a value
  return the same one, provided the type's deserialization inverts its serialization.\<close>

theorem concurrent_steps_agree:
  fixes cs :: "'a call list"
  assumes env: "env_ok env" and inv: "db_inv (e_pg env) (w_db w)"
    and fns: "\<forall>c\<in>set cs. async_effect (protocol (e_pg env)) (call_fn c) \<and> async_effect same_cache (call_fn c)"
    and codec: "\<forall>c\<in>set cs. call_ser c = ser \<and> call_dec c = dec"
    and round: "\<forall>v j. ser v = Inr j \<longrightarrow> dec j = Inr v"
    and run: "(calls_step env ctx)\<^sup>*\<^sup>* (calls_start w cs) s"
    and i: "i < length cs" and k: "k < length cs" and name: "call_name (cs ! i) = call_name (cs ! k)"
  shows "(in_section (call_pc (cs_calls s ! i)) \<and> in_section (call_pc (cs_calls s ! k)) \<longrightarrow> i = k)
    \<and> (ran_ok (call_pc (cs_calls s ! i)) \<and> ran_ok (call_pc (cs_calls s ! k)) \<longrightarrow> i = k)
    \<and> (\<forall>b v b' v'. call_pc (cs_calls s ! i) = Returned b (Inr v) \<and>
         call_pc (cs_calls s ! k) = Returned b' (Inr v') \<longrightarrow> v = v')"
proof -
  have good: "calls_good env cs s" using env inv fns run by (rule calls_start_good)
  note gi = calls_good_index [OF good i] and gk = calls_good_index [OF good k]
  have dec: "dec st = Inr v" if "call_ok s m (cs_calls s ! m)" "m < length cs"
    "call_pc (cs_calls s ! m) = Returned b (Inr v)" "cached s (call_name (cs ! m)) = Some st" for m b v st
    using that codec round calls_good_index(3-5) [OF good that(2)] by (auto simp: call_ok_def)
  have "v = v'" if r: "call_pc (cs_calls s ! i) = Returned b (Inr v)" "call_pc (cs_calls s ! k) = Returned b' (Inr v')"
    for b v b' v'
  proof -
    obtain st where "cached s (call_name (cs ! i)) = Some st" using gi(2,3) r(1) by (auto simp: call_ok_def)
    then have "dec st = Inr v" "dec st = Inr v'" using dec [OF gi(2) i r(1)] dec [OF gk(2) k r(2)] name by auto
    then show "v = v'" by simp
  qed
  moreover have "i = k" if "in_section (call_pc (cs_calls s ! i))" "in_section (call_pc (cs_calls s ! k))"
    using that gi(2,3) gk(2,3) name by (simp add: call_ok_def)
  moreover have "i = k" if "ran_ok (call_pc (cs_calls s ! i))" "ran_ok (call_pc (cs_calls s ! k))"
    using good that gi(1,3) gk(1,3) name unfolding calls_good_def calls_inv_def by metis
  ultimately show ?thesis by blast
qed

text \<open>\<^bold>\<open>C24.\<close> Concurrent checkpoint calls never deadlock and always finish when their functions return:
  no schedule takes more than four steps per call, and whatever steps were taken, as long as a call has
  not ended some call can take a step other than being dropped.\<close>

theorem concurrent_steps_finish:
  fixes cs :: "'a call list"
  assumes env: "env_ok env" and inv: "db_inv (e_pg env) (w_db w)"
    and fns: "\<forall>c\<in>set cs. async_effect (protocol (e_pg env)) (call_fn c) \<and> async_effect same_cache (call_fn c)"
    and returns: "\<forall>c\<in>set cs. \<forall>u. call_fn c u \<noteq> None"
    and run: "(calls_step env ctx ^^ n) (calls_start w cs) s"
  shows "n \<le> 4 * length cs \<and> length (cs_calls s) = length cs
    \<and> ((\<forall>c\<in>set (cs_calls s). ended (call_pc c))
       \<or> (\<exists>i t. call_step env ctx i s t \<and> call_pc (cs_calls t ! i) \<noteq> Dropped))"
proof (intro conjI)
  have "calls_left s + n \<le> calls_left (calls_start w cs)"
    using run
  proof (induction n arbitrary: s)
    case (Suc n)
    then obtain u where "(calls_step env ctx ^^ n) (calls_start w cs) u" "calls_step env ctx u s" by auto
    then show ?case using Suc.IH [of u] call_step_frame(2) unfolding calls_step_def by fastforce
  qed simp
  moreover have "calls_left (calls_start w cs) = 4 * length cs"
    by (induction cs) (simp_all add: calls_left_def calls_start_def call_rank_def)
  ultimately show "n \<le> 4 * length cs" by simp
  have "(calls_step env ctx)\<^sup>*\<^sup>* (calls_start w cs) s" using run by (auto simp: rtranclp_power)
  with env inv fns have good: "calls_good env cs s" by (rule calls_start_good)
  then show len: "length (cs_calls s) = length cs" unfolding calls_good_def by (metis length_map)
  have returns': "call_fn c (cs_world s) \<noteq> None" if c: "c \<in> set (cs_calls s)" for c
  proof -
    obtain i where "i < length cs" "c = cs_calls s ! i" using c len by (auto simp: in_set_conv_nth)
    then show ?thesis using calls_good_index(6) [OF good] returns by simp
  qed
  show "(\<forall>c\<in>set (cs_calls s). ended (call_pc c))
      \<or> (\<exists>i t. call_step env ctx i s t \<and> call_pc (cs_calls t ! i) \<noteq> Dropped)"
    using call_progress [of env s _ ctx] returns' good advance_step unfolding calls_good_def
    by (metis in_set_conv_nth)
qed


definition demo_calls :: "int call list" where
  "demo_calls = map (\<lambda>v. \<lparr>call_name = ''new'', call_ser = int_ser, call_dec = int_dec, call_fn = areturn v,
     call_pc = Entering\<rparr>) [5, 6]"

definition demo_schedule :: "nat list" where
  "demo_schedule = [0, 0, 0, 0, 1, 1]"

definition demo_calls_end :: "int calls" where
  "demo_calls_end = the (advance_all (quiet exact_pg) demo_ctx demo_schedule (calls_start demo_ctx_world demo_calls))"

lemma demo_calls_returned:
  "map call_pc (cs_calls demo_calls_end) = [Returned True (Inr 5), Returned False (Inr 5)]"
  by code_simp

lemma demo_calls_run:
  "(calls_step (quiet exact_pg) demo_ctx ^^ length demo_schedule) (calls_start demo_ctx_world demo_calls) demo_calls_end"
proof -
  have "advance_all (quiet exact_pg) demo_ctx demo_schedule (calls_start demo_ctx_world demo_calls) \<noteq> None"
    by code_simp
  then show ?thesis by (intro advance_all_steps) (simp add: demo_calls_end_def)
qed

lemma demo_calls_ok:
  "env_ok (quiet exact_pg)" "db_inv (e_pg (quiet exact_pg)) (w_db demo_ctx_world)"
  "\<forall>c\<in>set demo_calls. async_effect (protocol (e_pg (quiet exact_pg))) (call_fn c) \<and> async_effect same_cache (call_fn c)"
proof -
  show env: "env_ok (quiet exact_pg)" using exact_pg_ok by (rule quiet_ok)
  show "db_inv (e_pg (quiet exact_pg)) (w_db demo_ctx_world)"
    using protocol_inv [OF effectD [OF context_protocol(1) [OF env] demo_context]]
      exact_pg_ok demo_checkpointed_inv by simp
  show "\<forall>c\<in>set demo_calls. async_effect (protocol (e_pg (quiet exact_pg))) (call_fn c) \<and> async_effect same_cache (call_fn c)"
    by (simp add: demo_calls_def async_effect_def areturn_def protocol.effect_refl same_cache_def)
qed

theorem concurrent_steps_agree_witness:
  "ran_ok (call_pc (cs_calls demo_calls_end ! 0)) \<and> \<not> ran_ok (call_pc (cs_calls demo_calls_end ! 1))"
proof -
  have pc: "call_pc (cs_calls demo_calls_end ! 0) = Returned True (Inr 5)"
    "call_pc (cs_calls demo_calls_end ! 1) = Returned False (Inr 5)"
    using demo_calls_returned by (auto simp: map_eq_Cons_conv)
  have "(calls_step (quiet exact_pg) demo_ctx)\<^sup>*\<^sup>* (calls_start demo_ctx_world demo_calls) demo_calls_end"
    using demo_calls_run by (rule relpowp_imp_rtranclp)
  note agree = concurrent_steps_agree [OF demo_calls_ok _ _ this, of int_ser int_dec 0 1]
  have "ran_ok (call_pc (cs_calls demo_calls_end ! 0)) \<and> ran_ok (call_pc (cs_calls demo_calls_end ! 1)) \<longrightarrow> (0::nat) = 1"
    using agree by (simp add: demo_calls_def int_ser_def int_dec_def)
  then show ?thesis using pc by (simp add: ran_ok_def)
qed

theorem concurrent_steps_finish_witness:
  "length demo_schedule \<le> 4 * length demo_calls \<and> list_all (\<lambda>c. ended (call_pc c)) (cs_calls demo_calls_end)"
proof -
  have "\<forall>pc\<in>set (map call_pc (cs_calls demo_calls_end)). ended pc"
    unfolding demo_calls_returned by (simp add: ended_def)
  moreover have "length demo_schedule \<le> 4 * length demo_calls"
    using concurrent_steps_finish [OF demo_calls_ok _ demo_calls_run]
    by (simp add: demo_calls_def areturn_def)
  ultimately show ?thesis by (simp add: list_all_iff)
qed

end
