(* ===== verification/Examples.thy ===== *)
theory Examples
  imports Worker
begin

section \<open>The example workflows\<close>

text \<open>
  The handlers and executors of \<open>examples/\<close>, client code of the library: typed inputs and outputs with
  the \<open>serde\<close> implementations their \<open>derive\<close> attributes stand for, and the bodies as functions of
  input and context over the task context of \<open>src/context.rs\<close>. What they print is not modelled. A
  shared counter that a handler bumps is an argument, the effect of its \<open>fetch_add\<close>. The \<open>main\<close>
  functions only wire the parts together and are not modelled.
\<close>

subsection \<open>Derived serialization\<close>

text \<open>A struct is an object of its fields, read back from such an object (unknown fields are ignored)
  or from the sequence of the fields.\<close>

definition struct_to_value :: "(string \<times> json) list \<Rightarrow> json" where
  "struct_to_value entries = JObj (fold (\<lambda>(k, v). json_insert k v) entries [])"

definition struct_fields :: "string list \<Rightarrow> json \<Rightarrow> json list option" where
  "struct_fields names j =
     (case j of
        JObj kvs \<Rightarrow> those (map (map_of kvs) names)
      | JArr vs \<Rightarrow> (if length vs = length names then Some vs else None)
      | _ \<Rightarrow> None)"

definition invalid_value :: string where
  "invalid_value = ''invalid type or missing field''"

definition string_to_value :: "string ser" where
  "string_to_value s = Inr (JStr s)"

definition string_from_value :: "string dec" where
  "string_from_value j = (case j of JStr s \<Rightarrow> Inr s | _ \<Rightarrow> Inl invalid_value)"

definition uint_from_value :: "nat \<Rightarrow> int dec" where
  "uint_from_value bits j =
     (case j of JInt i \<Rightarrow> (if 0 \<le> i \<and> i < 2 ^ bits then Inr i else Inl ''invalid value'') | _ \<Rightarrow> Inl invalid_value)"

definition unit_to_value :: "unit ser" where
  "unit_to_value u = Inr JNull"

definition unit_from_value :: "unit dec" where
  "unit_from_value j = (case j of JNull \<Rightarrow> Inr () | _ \<Rightarrow> Inl invalid_value)"

text \<open>Structs of one, two and three fields.\<close>

definition from_value1 :: "string \<Rightarrow> 'a dec \<Rightarrow> ('a \<Rightarrow> 'r) \<Rightarrow> 'r dec" where
  "from_value1 n da con j =
     (case struct_fields [n] j of
        Some [a] \<Rightarrow> res_bind (da a) (\<lambda>x. Inr (con x)) | _ \<Rightarrow> Inl invalid_value)"

definition from_value2 :: "string \<Rightarrow> 'a dec \<Rightarrow> string \<Rightarrow> 'b dec \<Rightarrow> ('a \<Rightarrow> 'b \<Rightarrow> 'r) \<Rightarrow> 'r dec" where
  "from_value2 n da m db con j =
     (case struct_fields [n, m] j of
        Some [a, b] \<Rightarrow> res_bind (da a) (\<lambda>x. res_bind (db b) (\<lambda>y. Inr (con x y)))
      | _ \<Rightarrow> Inl invalid_value)"

definition from_value3 ::
    "string \<Rightarrow> 'a dec \<Rightarrow> string \<Rightarrow> 'b dec \<Rightarrow> string \<Rightarrow> 'c dec \<Rightarrow> ('a \<Rightarrow> 'b \<Rightarrow> 'c \<Rightarrow> 'r) \<Rightarrow> 'r dec" where
  "from_value3 n da m db k dc con j =
     (case struct_fields [n, m, k] j of
        Some [a, b, c] \<Rightarrow>
          res_bind (da a) (\<lambda>x. res_bind (db b) (\<lambda>y. res_bind (dc c) (\<lambda>z. Inr (con x y z))))
      | _ \<Rightarrow> Inl invalid_value)"

lemma struct_fields_to_value:
  assumes "distinct (map fst entries)"
  shows "struct_fields (map fst entries) (struct_to_value entries) = Some (map snd entries)"
proof -
  have "map_of (fold (\<lambda>(k, v). json_insert k v) es m) = map_of m ++ map_of (rev es)" for es m
    by (induction es arbitrary: m) (auto simp: map_add_def fun_eq_iff split: option.splits)
  then have obj: "map_of (fold (\<lambda>(k, v). json_insert k v) entries []) = map_of (rev entries)" by simp
  have "map_of (rev entries) k = Some v" if "(k, v) \<in> set entries" for k v
    using assms that by (simp add: rev_map [symmetric])
  then have "map (map_of (rev entries)) (map fst entries) = map Some (map snd entries)" by auto
  moreover have "those (map Some vs) = Some vs" for vs :: "json list" by (induction vs) simp_all
  ultimately show ?thesis by (simp add: struct_fields_def struct_to_value_def obj del: map_map)
qed


lemma from_value_struct:
  "da a = Inr x \<Longrightarrow> from_value1 n da con (struct_to_value [(n, a)]) = Inr (con x)"
  "n \<noteq> m \<Longrightarrow> da a = Inr x \<Longrightarrow> dec b = Inr y \<Longrightarrow>
    from_value2 n da m dec con2 (struct_to_value [(n, a), (m, b)]) = Inr (con2 x y)"
  "n \<noteq> m \<Longrightarrow> n \<noteq> k \<Longrightarrow> m \<noteq> k \<Longrightarrow> da a = Inr x \<Longrightarrow> dec b = Inr y \<Longrightarrow> dc c = Inr z \<Longrightarrow>
    from_value3 n da m dec k dc con3 (struct_to_value [(n, a), (m, b), (k, c)]) = Inr (con3 x y z)"
  using struct_fields_to_value [of "[(n, a)]"] struct_fields_to_value [of "[(n, a), (m, b)]"]
    struct_fields_to_value [of "[(n, a), (m, b), (k, c)]"]
  by (simp_all add: from_value1_def from_value2_def from_value3_def)

subsection \<open>A parent that waits for a child in another queue\<close>

record EmailReceiptInput =
  receipt_order_id :: string
  receipt_address :: string

record EmailReceiptOutput =
  message_id :: string

record CompleteOrderInput =
  complete_order_id :: string
  complete_email :: string

record CompleteOrderOutput =
  completed_order_id :: string
  receipt_message_id :: string

definition receipt_input_to_value :: "EmailReceiptInput ser" where
  "receipt_input_to_value i = Inr (struct_to_value [(''order_id'', JStr (receipt_order_id i)),
     (''address'', JStr (receipt_address i))])"

definition receipt_output_to_value :: "EmailReceiptOutput ser" where
  "receipt_output_to_value o' = Inr (struct_to_value [(''message_id'', JStr (message_id o'))])"

definition receipt_output_from_value :: "EmailReceiptOutput dec" where
  "receipt_output_from_value = from_value1 ''message_id'' string_from_value (\<lambda>m. \<lparr>message_id = m\<rparr>)"

definition EMAIL_RECEIPT :: Task where "EMAIL_RECEIPT = Task_new ''email-receipt''"

definition SPAWN_RECEIPT :: Step where "SPAWN_RECEIPT = \<lparr>step_name = ''spawn-receipt''\<rparr>"

text \<open>The builder of the child's submission and the body of the checkpointed step.\<close>

definition receipt_spawn ::
    "fmt \<Rightarrow> 'svc Queue \<Rightarrow> CompleteOrderInput \<Rightarrow> TaskContext \<Rightarrow> (EmailReceiptInput, 'svc) Spawn" where
  "receipt_spawn F child_queue input ctx =
     Spawn_idempotency_key (''receipt:'' @ f_uuid F (ctx_task_id ctx))
       (Queue_spawn child_queue EMAIL_RECEIPT
         \<lparr>receipt_order_id = complete_order_id input, receipt_address = complete_email input\<rparr>)"

definition spawn_receipt ::
    "env \<Rightarrow> fmt \<Rightarrow> 'svc Queue \<Rightarrow> CompleteOrderInput \<Rightarrow> TaskContext \<Rightarrow> TaskRef async" where
  "spawn_receipt env F child_queue input ctx =
     alift (ebind (Spawn_into_future env receipt_input_to_value (receipt_spawn F child_queue input ctx))
       (\<lambda>child. ereturn (spawned_task_ref child)))"

definition task_ref_to_value :: "fmt \<Rightarrow> TaskRef ser" where
  "task_ref_to_value F r = Inr (TaskRef_serialize F r)"

definition complete_order ::
    "env \<Rightarrow> fmt \<Rightarrow> CompleteOrderInput \<Rightarrow> TaskContext \<Rightarrow> 'svc Queue \<Rightarrow> CompleteOrderOutput async" where
  "complete_order env F input ctx child_queue =
     abind (ctx_step env ctx (task_ref_to_value F) (TaskRef_deserialize F) SPAWN_RECEIPT
       (spawn_receipt env F child_queue input ctx)) (\<lambda>child.
     if ctx_attempt ctx = 1
     then alift (eraise (Error_Other ''order worker restarted after spawning receipt''))
     else
       abind (TaskWait_into_future env F receipt_output_to_value receipt_output_from_value
         (TaskWait_timeout \<lparr>as_secs = 10, subsec_nanos = 0\<rparr> (ctx_await_task ctx child))) (\<lambda>receipt.
       areturn \<lparr>completed_order_id = complete_order_id input, receipt_message_id = message_id receipt\<rparr>))"

definition send_receipt :: "unit rust \<Rightarrow> EmailReceiptInput \<Rightarrow> TaskContext \<Rightarrow> EmailReceiptOutput async" where
  "send_receipt receipt_runs input ctx =
     alift (eseq receipt_runs (ereturn \<lparr>message_id = ''MSG-1001''\<rparr>))"

subsection \<open>Orders in durable steps\<close>

record ShipOrderInput =
  ship_order_id :: string
  ship_amount_cents :: int

record ShippedOrder =
  shipped_order_id :: string
  shipped_reservation_id :: string
  shipped_payment_id :: string

definition RESERVE_INVENTORY :: Step where "RESERVE_INVENTORY = \<lparr>step_name = ''reserve-inventory''\<rparr>"

definition CHARGE_PAYMENT :: Step where "CHARGE_PAYMENT = \<lparr>step_name = ''charge-payment''\<rparr>"

definition ship_order ::
    "env \<Rightarrow> ShipOrderInput \<Rightarrow> TaskContext \<Rightarrow> unit async \<Rightarrow> unit async \<Rightarrow> ShippedOrder async" where
  "ship_order env input ctx reservation_calls charge_calls =
     abind (ctx_step env ctx string_to_value string_from_value RESERVE_INVENTORY
       (abind reservation_calls (\<lambda>_. areturn ''RES-1001''))) (\<lambda>reservation_id.
     abind (ctx_step env ctx string_to_value string_from_value CHARGE_PAYMENT
       (abind charge_calls (\<lambda>_. areturn ''PAY-1001''))) (\<lambda>payment_id.
     if ctx_attempt ctx = 1
     then alift (eraise (Error_Other ''label printer temporarily unavailable''))
     else areturn \<lparr>shipped_order_id = ship_order_id input, shipped_reservation_id = reservation_id,
       shipped_payment_id = payment_id\<rparr>))"

record FulfillOrderInput =
  fulfill_order_id :: string
  fulfill_amount_cents :: int

record Reservation =
  reservation_id :: string

record Payment =
  payment_id :: string

record Shipment =
  tracking_number :: string

record FulfillOrderOutput =
  fulfilled_order_id :: string
  fulfilled_reservation_id :: string
  fulfilled_payment_id :: string
  fulfilled_tracking_number :: string

definition reservation_to_value :: "Reservation ser" where
  "reservation_to_value r = Inr (struct_to_value [(''reservation_id'', JStr (reservation_id r))])"

definition reservation_from_value :: "Reservation dec" where
  "reservation_from_value = from_value1 ''reservation_id'' string_from_value (\<lambda>i. \<lparr>reservation_id = i\<rparr>)"

definition payment_to_value :: "Payment ser" where
  "payment_to_value p = Inr (struct_to_value [(''payment_id'', JStr (payment_id p))])"

definition payment_from_value :: "Payment dec" where
  "payment_from_value = from_value1 ''payment_id'' string_from_value (\<lambda>i. \<lparr>payment_id = i\<rparr>)"

definition shipment_to_value :: "Shipment ser" where
  "shipment_to_value t = Inr (struct_to_value [(''tracking_number'', JStr (tracking_number t))])"

definition shipment_from_value :: "Shipment dec" where
  "shipment_from_value = from_value1 ''tracking_number'' string_from_value (\<lambda>i. \<lparr>tracking_number = i\<rparr>)"

definition CAPTURE_PAYMENT :: Step where "CAPTURE_PAYMENT = \<lparr>step_name = ''capture-payment''\<rparr>"

definition CREATE_SHIPMENT :: Step where "CREATE_SHIPMENT = \<lparr>step_name = ''create-shipment''\<rparr>"

definition fulfill_order :: "env \<Rightarrow> FulfillOrderInput \<Rightarrow> TaskContext \<Rightarrow> FulfillOrderOutput async" where
  "fulfill_order env input ctx =
     abind (ctx_step env ctx reservation_to_value reservation_from_value RESERVE_INVENTORY
       (areturn \<lparr>reservation_id = ''RES-1001''\<rparr>)) (\<lambda>reservation.
     abind (ctx_step env ctx payment_to_value payment_from_value CAPTURE_PAYMENT
       (areturn \<lparr>payment_id = ''PAY-1001''\<rparr>)) (\<lambda>payment.
     abind (ctx_step env ctx shipment_to_value shipment_from_value CREATE_SHIPMENT
       (areturn \<lparr>tracking_number = ''TRACK-1001''\<rparr>)) (\<lambda>shipment.
     areturn \<lparr>fulfilled_order_id = fulfill_order_id input,
       fulfilled_reservation_id = reservation_id reservation, fulfilled_payment_id = payment_id payment,
       fulfilled_tracking_number = tracking_number shipment\<rparr>)))"


subsection \<open>A durable delay\<close>

record ReminderSent =
  reminder_account_id :: string
  reminder_attempt :: int

definition RECORD_TRIAL :: Step where "RECORD_TRIAL = \<lparr>step_name = ''record-trial''\<rparr>"

definition REMINDER_DELAY :: Sleep where "REMINDER_DELAY = \<lparr>sleep_name = ''reminder-delay''\<rparr>"

definition send_trial_reminder ::
    "env \<Rightarrow> time_lib \<Rightarrow> string \<Rightarrow> TaskContext \<Rightarrow> ReminderSent async" where
  "send_trial_reminder env tlib account_id ctx =
     abind (ctx_step env ctx unit_to_value unit_from_value RECORD_TRIAL (areturn ())) (\<lambda>_.
     abind (alift (ctx_sleep_for env tlib ctx REMINDER_DELAY \<lparr>as_secs = 2, subsec_nanos = 0\<rparr>)) (\<lambda>_.
     areturn \<lparr>reminder_account_id = account_id, reminder_attempt = ctx_attempt ctx\<rparr>))"

subsection \<open>Attempts in provisioned environments\<close>

record AgentTurnInput =
  turn_session_id :: string
  turn_prompt :: string

record AgentTurnOutput =
  out_session_id :: string
  out_environment_id :: "64 word"
  out_response :: string

definition PREPARE_TURN :: Step where "PREPARE_TURN = \<lparr>step_name = ''prepare-turn''\<rparr>"

definition prepared_to_value :: "string ser" where
  "prepared_to_value prompt = Inr (struct_to_value [(''prompt'', JStr prompt)])"

definition prepared_from_value :: "string dec" where
  "prepared_from_value = from_value1 ''prompt'' string_from_value (\<lambda>p. p)"

record SandboxExecutor =
  next_environment_id :: "64 word"

definition SandboxExecutor_new :: SandboxExecutor where
  "SandboxExecutor_new = \<lparr>next_environment_id = 1\<rparr>"

text \<open>The environment is numbered when \<open>execute\<close> is called (\<open>fetch_add\<close> wraps), before its future
  runs.\<close>

definition sandbox_execute ::
    "env \<Rightarrow> SandboxExecutor \<Rightarrow> AgentTurnInput \<Rightarrow> TaskContext \<Rightarrow> AgentTurnOutput async \<times> SandboxExecutor" where
  "sandbox_execute env self input ctx =
     (let environment_id = next_environment_id self in
      (abind (ctx_step env ctx prepared_to_value prepared_from_value PREPARE_TURN
         (areturn (turn_prompt input))) (\<lambda>prepared.
       if ctx_attempt ctx = 1
       then alift (eraise (Error_Other ''provisioned runtime exited unexpectedly''))
       else
         abind (alift (sleep env 50000000 ())) (\<lambda>_.
         areturn \<lparr>out_session_id = turn_session_id input, out_environment_id = environment_id,
           out_response = ''processed: '' @ prepared\<rparr>)),
       self\<lparr>next_environment_id := environment_id + 1\<rparr>))"

subsection \<open>A timing layer\<close>

text \<open>The counter is bumped when the inner future resolves, not when it unwinds.\<close>

definition ExecutionTimingLayer :: "(world \<Rightarrow> world) \<Rightarrow> layers" where
  "ExecutionTimingLayer completed_calls inner =
     \<lparr>svc_poll_ready = svc_poll_ready inner,
      svc_call = (\<lambda>request. fbind (svc_call inner request) (\<lambda>r. case r of
          Inl (Unwound p) \<Rightarrow> Resolved (Inl (Unwound p))
        | _ \<Rightarrow> after_effect completed_calls (Resolved r)))\<rparr>"

definition render_preview :: "env \<Rightarrow> string \<Rightarrow> TaskContext \<Rightarrow> string async" where
  "render_preview env document_id ctx =
     abind (alift (sleep env 50000000 ())) (\<lambda>_. areturn (''previews/'' @ document_id @ ''.png''))"

subsection \<open>Handlers without steps\<close>

record DeliverDocumentInput =
  document_id :: string
  destination :: string

record DeliveryReceipt =
  delivered_document_id :: string
  delivered_destination :: string
  delivered_on_attempt :: int

definition deliver_document :: "DeliverDocumentInput \<Rightarrow> TaskContext \<Rightarrow> DeliveryReceipt async" where
  "deliver_document input ctx =
     (if ctx_attempt ctx < 3
      then alift (eraise (Error_Other ''remote service temporarily unavailable''))
      else areturn \<lparr>delivered_document_id = document_id input, delivered_destination = destination input,
        delivered_on_attempt = ctx_attempt ctx\<rparr>)"

record MetricProbeInput =
  probe_label :: string
  should_fail :: bool

definition metric_probe :: "MetricProbeInput \<Rightarrow> TaskContext \<Rightarrow> string async" where
  "metric_probe input ctx =
     (if should_fail input then alift (eraise (Error_Other ''simulated application failure''))
      else areturn (probe_label input))"

record RenderInvoiceInput =
  invoice_number :: string
  subtotal_cents :: "64 word"
  tax_cents :: "64 word"

record RenderInvoiceOutput =
  rendered_invoice_number :: string
  total_cents :: "64 word"

text \<open>The sum overflows by unwinding when overflow checks are compiled in, and wraps otherwise.\<close>

definition render_invoice ::
    "bool \<Rightarrow> RenderInvoiceInput \<Rightarrow> TaskContext \<Rightarrow> RenderInvoiceOutput fallible" where
  "render_invoice overflow_checks input ctx =
     future_of (if overflow_checks \<and> unat (subtotal_cents input) + unat (tax_cents input) \<ge> 2 ^ 64
      then eraise (Unwound (Panic_str ''attempt to add with overflow''))
      else ereturn \<lparr>rendered_invoice_number = invoice_number input,
        total_cents = subtotal_cents input + tax_cents input\<rparr>)"

record PaymentCaptured =
  captured_payment_id :: string
  captured_order_id :: string
  captured_amount_cents :: int

record Fulfillment =
  fulfillment_order_id :: string
  accepted_payment :: string

definition payment_captured_to_value :: "PaymentCaptured ser" where
  "payment_captured_to_value p = Inr (struct_to_value [(''payment_id'', JStr (captured_payment_id p)),
     (''order_id'', JStr (captured_order_id p)), (''amount_cents'', JInt (captured_amount_cents p))])"

definition payment_captured_from_value :: "PaymentCaptured dec" where
  "payment_captured_from_value =
     from_value3 ''payment_id'' string_from_value ''order_id'' string_from_value
       ''amount_cents'' (uint_from_value 64)
       (\<lambda>p ord a. \<lparr>captured_payment_id = p, captured_order_id = ord, captured_amount_cents = a\<rparr>)"

definition accept_payment :: "PaymentCaptured \<Rightarrow> TaskContext \<Rightarrow> Fulfillment async" where
  "accept_payment payment ctx =
     areturn \<lparr>fulfillment_order_id = captured_order_id payment, accepted_payment = captured_payment_id payment\<rparr>"

definition FULFILL_ORDER :: Task where "FULFILL_ORDER = Task_new ''fulfill-order''"

text \<open>One delivery of the webhook, and the two of \<open>main\<close>.\<close>

definition webhook_spawn :: "'svc Queue \<Rightarrow> PaymentCaptured \<Rightarrow> string \<Rightarrow> (PaymentCaptured, 'svc) Spawn" where
  "webhook_spawn queue webhook key = Spawn_idempotency_key key (Queue_spawn queue FULFILL_ORDER webhook)"

definition webhook_deliveries ::
    "env \<Rightarrow> 'svc Queue \<Rightarrow> PaymentCaptured \<Rightarrow> string \<Rightarrow> ('svc SpawnedTask \<times> 'svc SpawnedTask) rust" where
  "webhook_deliveries env queue webhook key =
     ebind (Spawn_into_future env payment_captured_to_value (webhook_spawn queue webhook key)) (\<lambda>first.
     ebind (Spawn_into_future env payment_captured_to_value (webhook_spawn queue webhook key)) (\<lambda>duplicate.
     ereturn (first, duplicate)))"

text \<open>\<open>common::unique_key\<close>, given the clock's nanoseconds since the epoch (or its error) and the process
  id as text.\<close>

definition unique_key :: "string \<Rightarrow> string + string \<Rightarrow> string \<Rightarrow> error + string" where
  "unique_key process_id nanos prefix =
     res_bind (map_sum (\<lambda>e. Error_Other (''system clock is before UNIX_EPOCH: '' @ e)) id nanos) (\<lambda>n.
       Inr (prefix @ '':'' @ process_id @ '':'' @ n))"

text \<open>\<open>common::connect\<close>: the environment variable, the connection, then the schema's script in one
  call.\<close>

definition common_connect ::
    "string option \<Rightarrow> (string \<Rightarrow> unit sqlx) \<Rightarrow> unit sqlx \<Rightarrow> service Steda rust" where
  "common_connect database_url pool_connect apply_schema =
     (case database_url of
        None \<Rightarrow> eraise (Error_Other
          ''DATABASE_URL is not set; point it at a PostgreSQL database before running this example'')
      | Some url \<Rightarrow>
          ebind (Steda_connect pool_connect url) (\<lambda>steda.
          eseq (map_err Error_Database apply_schema)
          (ereturn steda)))"

end
