(* ===== verification/ExampleProperties.thy ===== *)
theory ExampleProperties
  imports Examples WorkflowProperties
begin

section \<open>The example workflows keep their promises\<close>

text \<open>
  What \<open>examples/cross_queue_workflow.rs\<close> announces of its parent task: a retry waits for the child the
  first attempt created, whether or not the checkpoint of the child's reference was committed. The
  general facts used are the replay of committed steps and of keyed submissions.
\<close>

subsection \<open>Keyed submissions through the builder\<close>

lemma spawn_into_future_protocol [effects]:
  assumes "env_ok env"
  shows "effect (protocol (e_pg env)) (Spawn_into_future env ser b)"
  unfolding Spawn_into_future_def spawn_typed_with_def using assms by (intro effects; assumption)

lemma spawn_into_future_call:
  assumes "Spawn_into_future env ser b w = (Inr st, w')"
  obtains params m where "ser (spawn_input b) = Inr params"
    "validate_task_name (Task_name (spawn_task_def b)) = Inr ()"
    "normalize_spawn_options (spawn_config b) = Inr m"
    "spawn_task (e_pg env) (Queue_name (spawn_queue b)) (Task_name (spawn_task_def b)) (Some params)
      (Some (JObj m)) (e_others env (w_tick w) (w_db w)) =
      (Inr (handle_task_id (spawned_handle st), spawned_new st), w_db w')"
    "spawned_handle st = TaskHandle_new (spawn_queue b) (spawn_task_def b) (handle_task_id (spawned_handle st))"
proof -
  from assms obtain params m row where
    1: "ser (spawn_input b) = Inr params" "validate_task_name (Task_name (spawn_task_def b)) = Inr ()"
      "normalize_spawn_options (spawn_config b) = Inr m"
    and call: "execute env Pool (spawn_task (e_pg env) (Queue_name (spawn_queue b))
      (Task_name (spawn_task_def b)) (Some params) (Some (JObj m))) w = (Inr row, w')"
    and st: "st = SpawnedTask_new (TaskHandle_new (spawn_queue b) (spawn_task_def b) (fst row)) (snd row)"
    by (auto simp: Spawn_into_future_def spawn_typed_with_def spawn_serialized_with_def ebind_Inr_iff
        eseq_Inr_iff esm_Inr_iff map_err_Inr_iff serde_Inr_iff)
  show thesis
    by (rule that [OF 1]) (use pool_success(1) [OF call] st in
      \<open>simp_all add: SpawnedTask_new_def TaskHandle_new_def TaskRef_from_parts_def\<close>)
qed

text \<open>Awaiting the same builder again, from any process, returns the handle of the stored task.\<close>

lemma keyed_submission_repeats:
  assumes env: "env_ok env" "env_ok env'" "e_pg env' = e_pg env" and inv: "db_inv (e_pg env) (w_db w)"
    and pg: "pg_reads_config (e_pg env) (spawn_config b)" and key: "idempotency_key (spawn_config b) = Some k"
    and first: "Spawn_into_future env ser b w = (Inr st, w')"
    and later: "(db_step (e_pg env))\<^sup>*\<^sup>* (w_db w') (w_db v)" and fault: "e_fault env' (w_tick v) = None"
    and stored: "map_of (storage (e_others env' (w_tick v) (w_db v))) (Queue_name (spawn_queue b)) = Some s"
      "handle_task_id (spawned_handle st) \<in> t_id ` set (tasks s)"
  shows "Spawn_into_future env' ser b v = (Inr (SpawnedTask_new (spawned_handle st) False),
    (begin_event env' v)\<lparr>w_db := tick3 (e_others env' (w_tick v) (w_db v))\<rparr>)"
proof -
  let ?d = "e_others env (w_tick w) (w_db w)" and ?d' = "e_others env' (w_tick v) (w_db v)"
  let ?q = "Queue_name (spawn_queue b)" and ?n = "Task_name (spawn_task_def b)"
  have pgok: "pg_ok (e_pg env)" using env(1) by (simp add: env_ok_def)
  from first obtain params m where c: "ser (spawn_input b) = Inr params" "validate_task_name ?n = Inr ()"
    "normalize_spawn_options (spawn_config b) = Inr m"
    and run: "spawn_task (e_pg env) ?q ?n (Some params) (Some (JObj m)) ?d =
      (Inr (handle_task_id (spawned_handle st), spawned_new st), w_db w')"
    and h: "spawned_handle st = TaskHandle_new (spawn_queue b) (spawn_task_def b) (handle_task_id (spawned_handle st))"
    by (rule spawn_into_future_call)
  obtain rq where rq: "parse_spawn_request (e_pg env) ?n (Some params) (Some (JObj m)) = Inr rq"
    "q_idempotency_key rq = Some k"
    using options_accepted [OF pg c(2,3)] key by auto
  have q: "queue_name_ok (e_pg env) ?q" using run by (rule spawn_task_success)
  from spawn_leaves_request [OF pgok env_inv [OF env(1) inv] rq run] obtain s1 t1 where
    inv1: "db_inv (e_pg env) (w_db w')" and t1: "map_of (storage (w_db w')) ?q = Some s1" "t1 \<in> set (tasks s1)"
      "t_id t1 = handle_task_id (spawned_handle st)" "t_idempotency_key t1 = Some k" "same_request rq t1"
    by blast
  have steps: "(db_step (e_pg env))\<^sup>*\<^sup>* (w_db w') ?d'"
    using later env_steps [OF env(2)] env(3) by (metis rtranclp_trans)
  obtain t2 where t2: "t2 \<in> set (tasks s)" "t_id t2 = handle_task_id (spawned_handle st)"
    using stored(2) by auto
  have ev: "task_evolves t1 t2"
    using later_task [OF pgok inv1 steps t1(1) stored(1) t1(2) t2(1)] t1(3) t2(2) by simp
  have inv2: "db_inv (e_pg env) ?d'" using pgok inv1 steps by (rule steps_inv)
  have "run_txn (spawn_task (e_pg env) ?q ?n (Some params) (Some (JObj m))) ?d' =
      (Inr (handle_task_id (spawned_handle st), False), tick3 ?d')"
    using spawn_repeats [OF pgok inv2 q rq(1) stored(1) t2(1) _ same_request_evolves [OF t1(5) ev]] ev t1 t2 rq(2)
    by (simp add: task_evolves_def)
  from pool_call_ok [OF fault this] show ?thesis
    using c env(3) h by (simp add: Spawn_into_future_def spawn_typed_with_def spawn_serialized_with_def
        ebind_apply esm_apply map_err_apply)
qed


subsection \<open>A retried parent waits for the same child\<close>

lemma spawn_receipt_protocol:
  "env_ok env \<Longrightarrow> async_effect (protocol (e_pg env)) (spawn_receipt env F cq input ctx)"
  unfolding spawn_receipt_def by (intro effects; assumption)

lemma receipt_step_name:
  "workflow_storage_name STEP_PREFIX (step_name SPAWN_RECEIPT) = Inr ''$step:spawn-receipt''"
  by code_simp

lemma receipt_step:
  "ctx_step env ctx ser dec SPAWN_RECEIPT f w = checkpoint env ctx ser dec ''$step:spawn-receipt'' f w"
  by (simp add: ctx_step_def receipt_step_name abind_apply async_apply esm_apply)

lemma checkpoint_of_task:
  assumes "store_inv pg n s" and "lookup_checkpoint (tid, name) s = Some state"
  shows "tid \<in> t_id ` set (tasks s)"
proof -
  obtain c where "c \<in> set (checkpoints s)" "c_task_id c = tid"
    using assms(2) by (auto simp: lookup_checkpoint_def dest!: find_row_SomeD)
  then show ?thesis using assms(1) by (auto simp: store_inv_def store_ok_iff)
qed

text \<open>A committed step returns its value whatever its body is.\<close>

lemma committed_step_value:
  assumes env: "env_ok env" and inv: "db_inv (e_pg env) db" and s: "map_of (storage db) q = Some s"
    and name: "workflow_storage_name STEP_PREFIX (step_name st) = Inr n"
    and committed: "lookup_checkpoint (claimed_task_id task, n) s = Some state" "dec state = Inr x"
    and later: "(db_step (e_pg env))\<^sup>*\<^sup>* db (w_db w)" and ctx: "TaskContext_new env q task w = (Inr ctx, w')"
  shows "ctx_step env ctx ser dec st f w' = Some (Inr x, w')"
proof -
  have "claimed_task_id task \<in> t_id ` set (tasks s)"
    by (rule checkpoint_of_task [OF db_inv_store [OF inv s] committed(1)])
  from replay_committed [OF env inv s this committed(1) later ctx, of ser dec f] show ?thesis
    using name committed(2) by (simp add: ctx_step_def abind_apply async_apply esm_apply)
qed

text \<open>After its body the step only writes the checkpoint.\<close>

lemma receipt_step_persists:
  assumes "map_of (w_cache w) ''$step:spawn-receipt'' = None"
    and "spawn_receipt env F cq input ctx w = Some (Inr child, u)"
    and "ctx_step env ctx (task_ref_to_value F) (TaskRef_deserialize F) SPAWN_RECEIPT
      (spawn_receipt env F cq input ctx) w = Some (r, w')"
  shows "\<exists>x. persist_checkpoint env ctx ''$step:spawn-receipt'' (TaskRef_serialize F child) u = (x, w')"
  using assms unfolding receipt_step
  by (cases "persist_checkpoint env ctx ''$step:spawn-receipt'' (TaskRef_serialize F child) u")
    (auto simp: checkpoint_def cached_checkpoint_def abind_apply async_apply esm_apply task_ref_to_value_def
      split: sum.splits if_splits)

definition await_receipt ::
    "env \<Rightarrow> fmt \<Rightarrow> CompleteOrderInput \<Rightarrow> TaskContext \<Rightarrow> TaskRef \<Rightarrow> CompleteOrderOutput async" where
  "await_receipt env F input ctx child =
     abind (TaskWait_into_future env F receipt_output_to_value receipt_output_from_value
       (TaskWait_timeout \<lparr>as_secs = 10, subsec_nanos = 0\<rparr> (ctx_await_task ctx child))) (\<lambda>receipt.
     areturn \<lparr>completed_order_id = complete_order_id input, receipt_message_id = message_id receipt\<rparr>)"

lemma committed_receipt:
  assumes env: "env_ok env" and inv: "db_inv (e_pg env) db"
    and s: "map_of (storage db) q = Some s"
      "lookup_checkpoint (claimed_task_id task, ''$step:spawn-receipt'') s = Some state"
      "TaskRef_deserialize F state = Inr child"
    and later: "(db_step (e_pg env))\<^sup>*\<^sup>* db (w_db w)"
    and ctx: "TaskContext_new env q task w = (Inr ctx, w')" "ctx_attempt ctx \<noteq> 1"
  shows "complete_order env F input ctx cq w' = await_receipt env F input ctx child w'"
proof -
  have "ctx_step env ctx (task_ref_to_value F) (TaskRef_deserialize F) SPAWN_RECEIPT
      (spawn_receipt env F cq input ctx) w' = Some (Inr child, w')"
    by (rule committed_step_value [where dec = "TaskRef_deserialize F", OF env inv s(1) receipt_step_name s(2,3) later ctx(1)])
  then show ?thesis using ctx(2) by (simp add: complete_order_def await_receipt_def abind_apply)
qed

lemma respawned_receipt:
  assumes env: "env_ok env" "env_ok env'" "e_pg env' = e_pg env" and inv: "db_inv (e_pg env) (w_db w)"
    and pg: "pg_reads_config (e_pg env) (spawn_config (receipt_spawn F cq input ctx))"
    and body: "spawn_receipt env F cq input ctx w = Some (Inr child, u)"
    and later: "(db_step (e_pg env))\<^sup>*\<^sup>* (w_db u) (w_db v)" and same: "ctx_task_id ctx' = ctx_task_id ctx"
    and fault: "e_fault env' (w_tick v) = None"
    and stored: "map_of (storage (e_others env' (w_tick v) (w_db v))) (Queue_name cq) = Some s"
      "ref_task_id child \<in> t_id ` set (tasks s)"
  shows "spawn_receipt env' F cq input ctx' v = Some (Inr child,
    (begin_event env' v)\<lparr>w_db := tick3 (e_others env' (w_tick v) (w_db v))\<rparr>)"
proof -
  let ?b = "receipt_spawn F cq input ctx"
  obtain st where st: "Spawn_into_future env receipt_input_to_value ?b w = (Inr st, u)"
    "child = spawned_task_ref st"
    using body by (auto simp: spawn_receipt_def async_apply ebind_Inr_iff esm_Inr_iff)
  have b: "spawn_queue ?b = cq" "idempotency_key (spawn_config ?b) = Some (''receipt:'' @ f_uuid F (ctx_task_id ctx))"
    "receipt_spawn F cq input ctx' = ?b"
    using same by (simp_all add: receipt_spawn_def Spawn_idempotency_key_def Queue_spawn_def Spawn_new_def)
  from keyed_submission_repeats [OF env inv pg b(2) st(1) later fault]
  have "Spawn_into_future env' receipt_input_to_value ?b v = (Inr (SpawnedTask_new (spawned_handle st) False),
      (begin_event env' v)\<lparr>w_db := tick3 (e_others env' (w_tick v) (w_db v))\<rparr>)"
    using stored b(1) st(2) by (simp add: spawned_task_ref_def)
  then show ?thesis using b(3) st(2)
    by (simp add: spawn_receipt_def async_apply ebind_apply esm_apply spawned_task_ref_def SpawnedTask_new_def)
qed

text \<open>\<^bold>\<open>C29.\<close> Across attempts the parent order keeps its child: when the first attempt created the child, a
  later attempt of the same parent either finds the reference committed and then waits for exactly that
  child without submitting anything, or, if the attempt died before the commit, submits again and gets
  the same child back without a second task, whatever happened in between, while the child is
  stored.\<close>

theorem retried_order_keeps_its_child:
  assumes env: "env_ok env" "env_ok env'" "e_pg env' = e_pg env" and inv: "db_inv (e_pg env) (w_db w)"
    and pg: "pg_reads_config (e_pg env) (spawn_config (receipt_spawn F cq input ctx))"
    and uncached: "map_of (w_cache w) ''$step:spawn-receipt'' = None"
    and body: "spawn_receipt env F cq input ctx w = Some (Inr child, u)"
    and first: "ctx_step env ctx (task_ref_to_value F) (TaskRef_deserialize F) SPAWN_RECEIPT
      (spawn_receipt env F cq input ctx) w = Some (r, w')"
    and later: "(db_step (e_pg env))\<^sup>*\<^sup>* (w_db w') (w_db v)"
    and retry: "TaskContext_new env' (ctx_queue_name ctx) task v = (Inr ctx', v')"
      "claimed_task_id task = ctx_task_id ctx" "claimed_attempt task \<noteq> 1"
    and refs: "\<forall>c. r = Inr c \<longrightarrow> TaskRef_deserialize F (TaskRef_serialize F c) = Inr c"
  shows "(\<forall>c. r = Inr c \<longrightarrow> complete_order env' F input ctx' cq v' =
      await_receipt env' F input ctx' c v')
    \<and> (\<forall>s. e_fault env' (w_tick v') = None
        \<and> map_of (storage (e_others env' (w_tick v') (w_db v'))) (Queue_name cq) = Some s
        \<and> ref_task_id child \<in> t_id ` set (tasks s) \<longrightarrow>
      spawn_receipt env' F cq input ctx' v' = Some (Inr child,
        (begin_event env' v')\<lparr>w_db := tick3 (e_others env' (w_tick v') (w_db v'))\<rparr>))"
proof -
  have pgok: "pg_ok (e_pg env)" using env(1) by (simp add: env_ok_def)
  have ctx': "ctx_task_id ctx' = ctx_task_id ctx" "ctx_attempt ctx' \<noteq> 1"
    using retry by (auto simp: TaskContext_new_def ebind_Inr_iff eseq_Inr_iff esm_Inr_iff ctx_task_id_def ctx_attempt_def)
  have pu: "protocol (e_pg env) w u" by (rule async_effectD [OF spawn_receipt_protocol [OF env(1)] body])
  have inv_u: "db_inv (e_pg env) (w_db u)" using pu pgok inv by (rule protocol_inv)
  obtain x where "persist_checkpoint env ctx ''$step:spawn-receipt'' (TaskRef_serialize F child) u = (x, w')"
    using receipt_step_persists [OF uncached body first] ..
  then have pw: "protocol (e_pg env) u w'" by (rule effectD [OF context_protocol(3) [OF env(1)]])
  have inv': "db_inv (e_pg env) (w_db w')" using pw pgok inv_u by (rule protocol_inv)
  have commit: "complete_order env' F input ctx' cq v' = await_receipt env' F input ctx' c v'" if r: "r = Inr c" for c
  proof -
    obtain s state where s: "map_of (storage (w_db w')) (ctx_queue_name ctx) = Some s"
      "lookup_checkpoint (ctx_task_id ctx, ''$step:spawn-receipt'') s = Some state"
      "task_ref_to_value F c = Inr state \<or> TaskRef_deserialize F state = Inr c"
      using checkpoint_commits [OF env(1) inv spawn_receipt_protocol [OF env(1)] uncached]
        first [unfolded receipt_step r] by blast
    then have "TaskRef_deserialize F state = Inr c" using refs r by (auto simp: task_ref_to_value_def)
    from committed_receipt [OF env(2) _ s(1) _ this _ retry(1) ctx'(2)] show ?thesis
      using inv' s(2) later retry(2) env(3) by simp
  qed
  have "protocol (e_pg env) v v'" using effectD [OF context_protocol(1) [OF env(2)] retry(1)] env(3) by simp
  moreover have "db_inv (e_pg env) (w_db v)" using pgok inv' later by (rule steps_inv)
  ultimately have "(db_step (e_pg env))\<^sup>*\<^sup>* (w_db v) (w_db v')" using pgok by (simp add: protocol_def)
  moreover have "(db_step (e_pg env))\<^sup>*\<^sup>* (w_db u) (w_db w')" using pw pgok inv_u by (simp add: protocol_def)
  ultimately have steps: "(db_step (e_pg env))\<^sup>*\<^sup>* (w_db u) (w_db v')" using later by (meson rtranclp_trans)
  show ?thesis using commit respawned_receipt [OF env inv pg body steps ctx'(1)] by blast
qed


text \<open>The parent task of the scenario of queue \<open>q\<close>, with children in queue \<open>p\<close>: the first attempt commits
  the reference and fails; the task is claimed again after its retry delay.\<close>

definition demo_order :: CompleteOrderInput where
  "demo_order = \<lparr>complete_order_id = ''ORD-1001'', complete_email = ''buyer@example.invalid''\<rparr>"

definition demo_receipts :: "unit Queue" where
  "demo_receipts = \<lparr>Queue_name = ''p'', Queue_execution = ()\<rparr>"

abbreviation demo_order_step :: "TaskRef async" where
  "demo_order_step \<equiv> ctx_step (quiet exact_pg) demo_ctx (task_ref_to_value demo_fmt) (TaskRef_deserialize demo_fmt)
     SPAWN_RECEIPT (spawn_receipt (quiet exact_pg) demo_fmt demo_receipts demo_order demo_ctx)"

definition demo_child_store :: store where
  "demo_child_store = \<lparr>tasks = [\<lparr>t_id = 7, t_name = ''email-receipt'',
       t_params = JObj [(''address'', JStr ''buyer@example.invalid''), (''order_id'', JStr ''ORD-1001'')],
       t_headers = None, t_retry_strategy = default_retry_strategy, t_initial_max_attempts = 5,
       t_max_attempts = 5, t_cancellation = None, t_enqueue_at = 9000000, t_first_started_at = None,
       t_state = Pending, t_attempts = 1, t_last_attempt_run = 8, t_cancelled_at = None,
       t_idempotency_key = Some ''receipt:''\<rparr>],
     runs = [\<lparr>r_id = 8, r_task_id = 7, r_attempt = 1, r_state = Pending, r_claimed_by = None,
       r_claim_expires_at = None, r_available_at = 9000000, r_started_at = None, r_completed_at = None,
       r_failed_at = None, r_result = None, r_failure_reason = None\<rparr>],
     checkpoints = []\<rparr>"

definition demo_order_queues :: "queue_row list" where
  "demo_order_queues = [\<lparr>q_name = ''q'', q_cleanup_ttl = 2592000000000, q_cleanup_limit = 1000\<rparr>,
     \<lparr>q_name = ''p'', q_cleanup_ttl = 2592000000000, q_cleanup_limit = 1000\<rparr>]"

definition demo_order_checkpoint :: checkpoint_row where
  "demo_order_checkpoint = \<lparr>c_task_id = 0, c_name = ''$step:spawn-receipt'',
     c_state = JObj [(''queueName'', JStr ''p''), (''taskId'', JStr ''aaaaaaa''),
       (''taskName'', JStr ''email-receipt'')]\<rparr>"

definition demo_order_db :: db where
  "demo_order_db = \<lparr>queues = demo_order_queues, storage = [(''p'', empty_store), (''q'', demo_store)], seq = 7\<rparr>"

definition demo_order_stepped :: db where
  "demo_order_stepped = \<lparr>queues = demo_order_queues,
     storage = [(''p'', demo_child_store), (''q'', \<lparr>tasks = [demo_running], runs = [demo_run],
       checkpoints = [demo_order_checkpoint]\<rparr>)], seq = 11\<rparr>"

definition demo_order_failed_run :: run_row where
  "demo_order_failed_run = demo_run\<lparr>r_state := Failed, r_claimed_by := None, r_claim_expires_at := None,
     r_failed_at := Some 11000000, r_failure_reason := Some (JStr ''restarted'')\<rparr>"

definition demo_order_retry_run :: run_row where
  "demo_order_retry_run = \<lparr>r_id = 12, r_task_id = 0, r_attempt = 2, r_state = Sleeping, r_claimed_by = None,
     r_claim_expires_at = None, r_available_at = 41000000, r_started_at = None, r_completed_at = None,
     r_failed_at = None, r_result = None, r_failure_reason = None\<rparr>"

definition demo_order_failed :: db where
  "demo_order_failed = \<lparr>queues = demo_order_queues, storage = [(''p'', demo_child_store),
     (''q'', \<lparr>tasks = [demo_running\<lparr>t_state := Sleeping, t_attempts := 2, t_last_attempt_run := 12\<rparr>],
       runs = [demo_order_failed_run, demo_order_retry_run], checkpoints = [demo_order_checkpoint]\<rparr>)], seq = 13\<rparr>"

definition demo_order_reclaimed :: db where
  "demo_order_reclaimed = \<lparr>queues = demo_order_queues, storage = [(''p'', demo_child_store),
     (''q'', \<lparr>tasks = [demo_running\<lparr>t_attempts := 2, t_last_attempt_run := 12\<rparr>],
       runs = [demo_order_failed_run, demo_order_retry_run\<lparr>r_state := Running, r_claimed_by := Some ''w2'',
         r_claim_expires_at := Some 123000000, r_available_at := 63000000, r_started_at := Some 63000000\<rparr>],
       checkpoints = [demo_order_checkpoint]\<rparr>)], seq = 64\<rparr>"

definition demo_order_retry :: ClaimedTask where
  "demo_order_retry = \<lparr>claimed_run_id = 12, claimed_task_id = 0, claimed_task_name = ''mail'',
     claimed_attempt = 2, claimed_params = JNull, claimed_headers = None\<rparr>"

definition demo_order_ctx :: TaskContext where
  "demo_order_ctx = \<lparr>ctx_queue_name = ''q'', ctx_task = demo_order_retry, ctx_headers = []\<rparr>"

definition demo_child :: TaskRef where
  "demo_child = \<lparr>ref_queue_name = ''p'', ref_task_name = ''email-receipt'', ref_task_id = 7\<rparr>"

lemma demo_order_created: "run_txn (create_queue exact_pg ''p'') demo_claimed = (Inr (), demo_order_db)"
  by code_simp

lemma demo_order_body:
  obtains u where "spawn_receipt (quiet exact_pg) demo_fmt demo_receipts demo_order demo_ctx (world_of demo_order_db) =
    Some (Inr demo_child, u)"
proof -
  have "map_option fst (spawn_receipt (quiet exact_pg) demo_fmt demo_receipts demo_order demo_ctx
      (world_of demo_order_db)) = Some (Inr demo_child)"
    by code_simp
  then show thesis using that by auto
qed

lemma demo_order_first:
  obtains w' where "demo_order_step (world_of demo_order_db) = Some (Inr demo_child, w')"
    "w_db w' = demo_order_stepped"
proof -
  have "map_option (map_prod id w_db) (demo_order_step (world_of demo_order_db)) =
      Some (Inr demo_child, demo_order_stepped)"
    by code_simp
  then show thesis using that by auto
qed

lemma demo_order_fails:
  "run_txn (fail_run exact_pg ''q'' 1 (JStr ''restarted'') False) demo_order_stepped = (Inr (), demo_order_failed)"
  by code_simp

lemma demo_order_claimed_again:
  "run_txn (claim_tasks exact_pg ''q'' ''w2'' 60 10 [''mail'']) (demo_order_failed\<lparr>seq := 60\<rparr>) =
    (Inr [\<lparr>k_run_id = 12, k_task_id = 0, k_attempt = 2, k_task_name = ''mail'', k_params = JNull,
       k_headers = None\<rparr>], demo_order_reclaimed)"
  by code_simp

lemma demo_order_context:
  obtains v' where "TaskContext_new (quiet exact_pg) ''q'' demo_order_retry (world_of demo_order_reclaimed) =
      (Inr demo_order_ctx, v')"
    "map_of (storage (w_db v')) ''p'' = Some demo_child_store"
proof -
  have "map_prod id (\<lambda>v. map_of (storage (w_db v)) ''p'') (TaskContext_new (quiet exact_pg) ''q'' demo_order_retry
      (world_of demo_order_reclaimed)) = (Inr demo_order_ctx, Some demo_child_store)"
    by code_simp
  then show thesis using that by (metis (no_types, lifting) fst_map_prod id_apply prod.collapse prod.sel snd_map_prod)
qed

lemma demo_order_steps:
  "db_inv exact_pg demo_order_db" "(db_step exact_pg)\<^sup>*\<^sup>* demo_order_stepped demo_order_reclaimed"
proof -
  show "db_inv exact_pg demo_order_db"
    using steps_inv [OF exact_pg_ok demo_inv(3) r_into_rtranclp] do_create [OF demo_order_created] by blast
  have "db_step exact_pg demo_order_stepped demo_order_failed" by (rule do_fail [OF demo_order_fails])
  moreover have "db_step exact_pg demo_order_failed (demo_order_failed\<lparr>seq := 60\<rparr>)"
    by (rule do_draw) (simp add: demo_order_failed_def)
  moreover have "db_step exact_pg (demo_order_failed\<lparr>seq := 60\<rparr>) demo_order_reclaimed"
    by (rule do_claim [OF demo_order_claimed_again])
  ultimately show "(db_step exact_pg)\<^sup>*\<^sup>* demo_order_stepped demo_order_reclaimed"
    by (meson r_into_rtranclp rtranclp.rtrancl_into_rtrancl)
qed

theorem retried_order_keeps_its_child_witness:
  "\<exists>v'. TaskContext_new (quiet exact_pg) ''q'' demo_order_retry (world_of demo_order_reclaimed) =
      (Inr demo_order_ctx, v')
    \<and> complete_order (quiet exact_pg) demo_fmt demo_order demo_order_ctx demo_receipts v' =
      await_receipt (quiet exact_pg) demo_fmt demo_order demo_order_ctx demo_child v'
    \<and> spawn_receipt (quiet exact_pg) demo_fmt demo_receipts demo_order demo_order_ctx v' =
      Some (Inr demo_child, (begin_event (quiet exact_pg) v')\<lparr>w_db := tick3 (w_db v')\<rparr>)"
proof -
  obtain u where body: "spawn_receipt (quiet exact_pg) demo_fmt demo_receipts demo_order demo_ctx
      (world_of demo_order_db) = Some (Inr demo_child, u)" by (rule demo_order_body)
  obtain w' where first: "demo_order_step (world_of demo_order_db) = Some (Inr demo_child, w')"
    "w_db w' = demo_order_stepped" by (rule demo_order_first)
  obtain v' where ctx: "TaskContext_new (quiet exact_pg) ''q'' demo_order_retry (world_of demo_order_reclaimed) =
      (Inr demo_order_ctx, v')" "map_of (storage (w_db v')) ''p'' = Some demo_child_store"
    by (rule demo_order_context)
  have env: "env_ok (quiet exact_pg)" using exact_pg_ok by (rule quiet_ok)
  have pg: "pg_reads_config (e_pg (quiet exact_pg))
      (spawn_config (receipt_spawn demo_fmt demo_receipts demo_order demo_ctx))"
    using exact_pg_laws
    by (simp add: pg_reads_config_def receipt_spawn_def Spawn_idempotency_key_def Queue_spawn_def Spawn_new_def
        SpawnConfig_default_def)
  have retry: "TaskContext_new (quiet exact_pg) (ctx_queue_name demo_ctx) demo_order_retry
      (world_of demo_order_reclaimed) = (Inr demo_order_ctx, v')"
    using ctx(1) by (simp add: demo_ctx_def)
  have later: "(db_step (e_pg (quiet exact_pg)))\<^sup>*\<^sup>* (w_db w') (w_db (world_of demo_order_reclaimed))"
    using demo_order_steps(2) first(2) by simp
  have ref: "\<forall>c. Inr demo_child = Inr c \<longrightarrow>
      TaskRef_deserialize demo_fmt (TaskRef_serialize demo_fmt c) = Inr c"
    by (simp, code_simp)
  from retried_order_keeps_its_child [OF env env refl _ pg _ body first(1) later retry _ _ ref]
  show ?thesis using ctx demo_order_steps(1)
    by (simp add: demo_ctx_def demo_claim_task_def demo_order_retry_def ctx_task_id_def demo_receipts_def
        demo_child_def demo_child_store_def)
qed

subsection \<open>Committed steps are not run again\<close>

text \<open>A retried shipment returns the committed reservation and payment; the calls that reserve and charge
  do not happen again.\<close>

lemma retried_shipment_replays:
  assumes env: "env_ok env" and inv: "db_inv (e_pg env) db" and s: "map_of (storage db) q = Some s"
    and committed: "lookup_checkpoint (claimed_task_id task, ''$step:reserve-inventory'') s = Some (JStr res)"
      "lookup_checkpoint (claimed_task_id task, ''$step:charge-payment'') s = Some (JStr pay)"
    and later: "(db_step (e_pg env))\<^sup>*\<^sup>* db (w_db w)"
    and ctx: "TaskContext_new env q task w = (Inr ctx, w')" "ctx_attempt ctx \<noteq> 1"
  shows "ship_order env input ctx reservation_calls charge_calls w' =
    Some (Inr \<lparr>shipped_order_id = ship_order_id input, shipped_reservation_id = res,
      shipped_payment_id = pay\<rparr>, w')"
proof -
  have names: "workflow_storage_name STEP_PREFIX (step_name RESERVE_INVENTORY) = Inr ''$step:reserve-inventory''"
    "workflow_storage_name STEP_PREFIX (step_name CHARGE_PAYMENT) = Inr ''$step:charge-payment''"
    by code_simp+
  note step = committed_step_value [OF env inv s _ _ _ later ctx(1), where dec = string_from_value]
  show ?thesis using ctx(2) step [OF names(1) committed(1)] step [OF names(2) committed(2)]
    by (simp add: ship_order_def abind_apply async_apply esm_apply string_from_value_def)
qed

text \<open>The wire form of the webhook's payload is read back unchanged.\<close>

lemma payment_captured_round_trip:
  assumes "0 \<le> captured_amount_cents p" and "captured_amount_cents p < 2 ^ 64"
  shows "payment_captured_to_value p = Inr v \<Longrightarrow> payment_captured_from_value v = Inr p"
  using assms unfolding payment_captured_to_value_def payment_captured_from_value_def
  by (auto simp: string_from_value_def uint_from_value_def intro!: from_value_struct(3) [THEN trans])

subsection \<open>Duplicate webhooks\<close>

lemma duplicate_webhook_reuses_task:
  assumes env: "env_ok env" and inv: "db_inv (e_pg env) (w_db w)"
    and pg: "pg_reads_config (e_pg env) (spawn_config (webhook_spawn queue webhook key))"
    and first: "Spawn_into_future env payment_captured_to_value (webhook_spawn queue webhook key) w = (Inr st, u)"
    and reached: "e_fault env (w_tick u) = None"
    and stored: "map_of (storage (e_others env (w_tick u) (w_db u))) (Queue_name queue) = Some s"
      "handle_task_id (spawned_handle st) \<in> t_id ` set (tasks s)"
  shows "\<exists>w'. webhook_deliveries env queue webhook key w = (Inr (st, SpawnedTask_new (spawned_handle st) False), w')"
proof -
  have b: "spawn_queue (webhook_spawn queue webhook key) = queue"
    "idempotency_key (spawn_config (webhook_spawn queue webhook key)) = Some key"
    by (simp_all add: webhook_spawn_def Spawn_idempotency_key_def Queue_spawn_def Spawn_new_def)
  from keyed_submission_repeats [OF env env refl inv pg b(2) first rtranclp.rtrancl_refl reached] show ?thesis
    using stored first b(1) by (simp add: webhook_deliveries_def ebind_apply esm_apply)
qed

end
