(* ===== verification/Outcomes.thy ===== *)
theory Outcomes
  imports ExecutionProperties
begin

section \<open>What an attempt reports is what the database recorded\<close>

text \<open>
  The calls with which \<open>src/executor.rs\<close> learns how a run ended, and what each answer says of the tables:
  supervision, completion and failure. An attempt that ends without error counts exactly one outcome, and
  the database has recorded it for that run.
\<close>

subsection \<open>Recorded outcomes\<close>

fun outcome_matches :: "ExecutionOutcome \<Rightarrow> run_row \<Rightarrow> task_row \<Rightarrow> bool" where
  "outcome_matches Outcome_Completed r t \<longleftrightarrow> r_state r = Completed"
| "outcome_matches Outcome_Failed r t \<longleftrightarrow> r_state r = Failed"
| "outcome_matches Outcome_Cancelled r t \<longleftrightarrow> r_state r = Cancelled \<or> t_state t = Cancelled"
| "outcome_matches Outcome_Suspended r t \<longleftrightarrow> r_state r = Sleeping"
| "outcome_matches Outcome_LeaseLost r t \<longleftrightarrow> r_state r = Failed"

definition recorded :: "string \<Rightarrow> uuid \<Rightarrow> ExecutionOutcome \<Rightarrow> db \<Rightarrow> bool" where
  "recorded q i out db \<longleftrightarrow> (\<exists>s r t. map_of (storage db) q = Some s \<and> r \<in> set (runs s) \<and> r_id r = i
     \<and> t \<in> set (tasks s) \<and> t_id t = r_task_id r \<and> outcome_matches out r t)"

definition run_cancelled :: "string \<Rightarrow> uuid \<Rightarrow> db \<Rightarrow> bool" where
  "run_cancelled q i db \<longleftrightarrow>
     (\<exists>s r. map_of (storage db) q = Some s \<and> r \<in> set (runs s) \<and> r_id r = i \<and> r_state r = Cancelled)"

definition run_stored :: "string \<Rightarrow> uuid \<Rightarrow> db \<Rightarrow> bool" where
  "run_stored q i db \<longleftrightarrow> (\<exists>s r. map_of (storage db) q = Some s \<and> r \<in> set (runs s) \<and> r_id r = i)"

lemma run_checks_code [code]:
  "run_cancelled q i db \<longleftrightarrow> (case map_of (storage db) q of None \<Rightarrow> False
     | Some s \<Rightarrow> list_ex (\<lambda>r. r_id r = i \<and> r_state r = Cancelled) (runs s))"
  "run_stored q i db \<longleftrightarrow> (case map_of (storage db) q of None \<Rightarrow> False
     | Some s \<Rightarrow> list_ex (\<lambda>r. r_id r = i) (runs s))"
  by (auto simp: run_cancelled_def run_stored_def list_ex_iff split: option.splits)

text \<open>Once cancelled, a run stays so and records no other outcome.\<close>

lemma cancelled_run_row:
  assumes "pg_ok pg" and "db_inv pg db" and "run_cancelled q i db" and "(db_step pg)\<^sup>*\<^sup>* db db'"
    and "map_of (storage db') q = Some s" and "r \<in> set (runs s)" and "r_id r = i"
  shows "r_state r = Cancelled"
proof -
  obtain s0 r0 where r0: "map_of (storage db) q = Some s0" "r0 \<in> set (runs s0)" "r_id r0 = i" "r_state r0 = Cancelled"
    using assms(3) by (auto simp: run_cancelled_def)
  have "run_evolves r0 r" using later_run [OF assms(1,2,4) r0(1) assms(5) r0(2) assms(6)] assms(7) r0(3) by simp
  then show ?thesis using r0(4) by (simp add: run_evolves_def)
qed

lemma cancelled_records_nothing_else:
  assumes "pg_ok pg" and "db_inv pg db" and "run_cancelled q i db" and "(db_step pg)\<^sup>*\<^sup>* db db'"
    and "recorded q i out db'"
  shows "out = Outcome_Cancelled"
proof -
  obtain s r t where r: "map_of (storage db') q = Some s" "r \<in> set (runs s)" "r_id r = i" "outcome_matches out r t"
    using assms(5) by (auto simp: recorded_def)
  then show ?thesis using cancelled_run_row [OF assms(1-4) r(1-3)] by (cases out) auto
qed

subsection \<open>Conditions\<close>

text \<open>Which errors a computation may raise. Only the fence raises Steda's own conditions \<open>ST001\<close> to
  \<open>ST003\<close>; every other error of a transition is reported to the client as a database error.\<close>

named_theorems raising \<open>errors raised by statements\<close>

definition raises :: "('e \<Rightarrow> bool) \<Rightarrow> ('s, 'e, 'a) esm \<Rightarrow> bool" where
  "raises P m \<longleftrightarrow> (\<forall>s e t. m s = (Inl e, t) \<longrightarrow> P e)"

lemma raises_esm [raising]:
  "raises P (ereturn x)" "P e \<Longrightarrow> raises P (eraise e)" "raises P (egets f)"
  "(\<And>e. r = Inl e \<Longrightarrow> P e) \<Longrightarrow> raises P (elift r)"
  by (auto simp: raises_def esm_apply)

lemma raises_ebind [raising]: "raises P m \<Longrightarrow> (\<And>x. raises P (f x)) \<Longrightarrow> raises P (ebind m f)"
  by (fastforce simp: raises_def ebind_apply split: prod.splits sum.splits)

lemma raises_eseq [raising]: "raises P m \<Longrightarrow> raises P k \<Longrightarrow> raises P (eseq m k)"
  unfolding eseq_def by (rule raises_ebind)

lemma raises_cases [raising]:
  "raises P m \<Longrightarrow> raises P k \<Longrightarrow> raises P (if b then m else k)"
  "raises P m \<Longrightarrow> (\<And>y. raises P (g y)) \<Longrightarrow> raises P (case x of None \<Rightarrow> m | Some y \<Rightarrow> g y)"
  "raises P (h z) \<Longrightarrow> raises P (let y = z in h y)"
  by (auto split: option.split)

definition plain :: "sql_error \<Rightarrow> bool" where
  "plain e \<longleftrightarrow> take 2 (sql_state e) \<noteq> ''ST''"

lemma plain_errors [simp]:
  "plain (raise_exception m)" "plain numeric_value_out_of_range" "plain invalid_text_representation"
  "plain check_violation" "plain unique_violation" "plain foreign_key_violation" "plain undefined_table"
  by (simp_all add: plain_def raise_exception_def numeric_value_out_of_range_def
      invalid_text_representation_def check_violation_def unique_violation_def foreign_key_violation_def
      undefined_table_def)

lemma plain_statements [raising]:
  "raises plain (current_time pg)" "raises plain (uuidv7 pg)" "raises plain (query q f)"
  "raises plain (int4_add a b)" "raises plain (sql_validate_queue_name pg q)"
  by (auto simp: raises_def current_time_def uuidv7_def query_def int4_add_def sql_validate_queue_name_def
      esm_apply ebind_apply split: option.splits if_splits)

lemma plain_write [raising]: "raises plain (write_store pg q g)"
  by (auto simp: raises_def write_store_def store_violation_def tasks_violation_def runs_violation_def
      checkpoints_violation_def split: option.splits if_splits)

lemma plain_policies:
  "cancellation_due c a b n = Inl e \<Longrightarrow> plain e"
  "retry_delay_seconds pg strategy k = Inl e \<Longrightarrow> plain e"
proof -
  have "plain e" if "json_bigint v = Inl e" for v
    using that by (cases v) (auto split: if_splits)
  then show "cancellation_due c a b n = Inl e \<Longrightarrow> plain e"
    by (auto simp: cancellation_due_def deadline_due_def res_bind_def split: option.splits sum.splits)
  have "plain e" if "strategy_number pg key strategy = Inl e" for key
    using that by (auto simp: strategy_number_def split: option.splits)
  then show "retry_delay_seconds pg strategy k = Inl e \<Longrightarrow> plain e"
    by (auto simp: retry_delay_seconds_def fixed_delay_def exponential_delay_def res_bind_def
        split: option.splits sum.splits if_splits)
qed

lemma plain_calls [raising]:
  "raises plain (context_due context obs)" "raises plain (cancel_task pg q tid)"
  "raises plain (insert_retry pg q context n avail)"
  unfolding context_due_def cancel_task_def insert_retry_def select_task_def update_tasks_def
    update_runs_def insert_run_def
  by (auto intro!: raising dest: plain_policies)

subsection \<open>The database functions\<close>

text \<open>A run of a consistent database has its task.\<close>

lemma stored_run_task:
  assumes "db_inv pg db" and "map_of (storage db) q = Some s" and "r \<in> set (runs s)"
  shows "r_task_id r \<in> t_id ` set (tasks s)"
  using db_inv_store [OF assms(1,2)] assms(3) by (auto simp: store_inv_def store_ok_iff)

lemma recorded_run:
  assumes "db_inv pg db" and "map_of (storage db) q = Some s" and "r \<in> set (runs s)" and "r_id r = i"
    and "\<And>t. outcome_matches out r t"
  shows "recorded q i out db"
proof -
  obtain t where "t \<in> set (tasks s)" "t_id t = r_task_id r"
    using stored_run_task [OF assms(1-3)] by auto
  then show ?thesis using assms unfolding recorded_def by blast
qed

lemma run_cancelledI:
  "map_of (storage db) q = Some s \<Longrightarrow> r \<in> set (runs s) \<Longrightarrow> r_id r = i \<Longrightarrow> r_state r = Cancelled \<Longrightarrow>
    run_cancelled q i db"
  by (auto simp: run_cancelled_def)

lemma run_cancelled_recorded: "db_inv pg db \<Longrightarrow> run_cancelled q i db \<Longrightarrow> recorded q i Outcome_Cancelled db"
  unfolding run_cancelled_def by (auto intro: recorded_run)

lemma cancelled_store_row:
  assumes "running_attempt s i r t lease"
  shows "cancel_run r \<in> set (runs (cancelled_store now (r_task_id r) s))"
  using running_attemptD [OF assms] assms
  by (auto simp: cancelled_store_def set_update_where running_attempt_def)

lemma fail_run_records:
  assumes inv: "db_inv pg db" and inj: "inj (pg_uuid pg)"
    and run: "fail_run pg q i reason expired db = (Inr x, db')"
  shows "recorded q i Outcome_Failed db' \<or> run_cancelled q i db'"
proof -
  from run obtain u d where lock: "lock_running_attempt pg q i expired db = (Inr u, d)"
    by (auto simp: fail_run_def ebind_Inr_iff)
  from lock inv show ?thesis
  proof (rule attempt_success)
    fix s r t lease
    assume a: "queue_name_ok pg q" "map_of (storage db) q = Some s" "running_attempt s i r t lease"
      "expired = (lease \<le> pg_clock pg (seq db))"
    note rt = running_attemptD [OF a(3)]
    let ?now = "pg_clock pg (seq db)" and ?f = "fail_row (pg_clock pg (seq db)) reason r"
    have inv': "db_inv pg db'" by (rule fail_run_inv [OF inv inj run])
    let ?C = "\<lambda>now s. cancelled_store now (r_task_id r) s"
    obtain s' where s': "map_of (storage db') q = Some s'"
      "(\<exists>now. s' = ?C now s) \<or> (\<exists>now. s' = ?C now (failed_store ?now i reason s))
       \<or> s' = exhausted_store ?now i reason (r_task_id r) (r_attempt r) s
       \<or> (\<exists>st avail fresh. s' = retried_store ?now i reason (r_task_id r) (r_attempt r + 1) st avail fresh s)"
      using run fail_run_eval [OF inv inj a, of reason]
      by (fastforce split: sum.splits bool.splits if_splits)
    have "cancel_run r \<in> set (runs s') \<or> ?f \<in> set (runs s')"
      using s'(2) rt cancelled_store_row [OF a(3)]
      by (auto simp: exhausted_store_def retried_store_def cancelled_store_def failed_store_def
          set_update_where fail_row_def)
    then show ?thesis
    proof
      assume "cancel_run r \<in> set (runs s')"
      then show ?thesis using run_cancelledI [OF s'(1), of "cancel_run r" i] rt(2) by (simp add: cancel_run_def)
    next
      assume "?f \<in> set (runs s')"
      then show ?thesis using recorded_run [OF inv' s'(1)] rt(2) by (simp add: fail_row_def)
    qed
  qed
qed

text \<open>What a condition raised by the fence says of the run.\<close>

definition fence_error :: "string \<Rightarrow> uuid \<Rightarrow> db \<Rightarrow> sql_error \<Rightarrow> bool" where
  "fence_error q i db e \<longleftrightarrow> plain e \<or> e = ST001 \<and> recorded q i Outcome_Cancelled db
     \<or> e = ST002 \<and> recorded q i Outcome_Failed db \<or> e = ST003"

lemma lock_attempt_context_error: "lock_attempt_context pg q i db = (Inl e, d) \<Longrightarrow> plain e"
proof -
  have "raises plain (lock_attempt_context pg q i)"
    unfolding lock_attempt_context_def select_run_def select_task_def by (intro raising plain_errors)
  then show "lock_attempt_context pg q i db = (Inl e, d) \<Longrightarrow> plain e" by (auto simp: raises_def)
qed

lemma lock_running_attempt_error:
  assumes inv: "db_inv pg db" and run: "lock_running_attempt pg q i expired db = (Inl e, d)"
  shows "fence_error q i db e"
proof (cases "lock_attempt_context pg q i db")
  case (Pair y d')
  show ?thesis
  proof (cases y)
    case (Inl e')
    then show ?thesis using run Pair lock_attempt_context_error
      by (auto simp: lock_running_attempt_def ebind_apply fence_error_def)
  next
    case (Inr u)
    with Pair have "lock_attempt_context pg q i db = (Inr u, d')" by simp
    then show ?thesis
    proof (rule lock_attempt_context_success)
      fix s r t
      assume a: "map_of (storage db) q = Some s" "find_row r_id i (runs s) = Some r"
        "find_row t_id (r_task_id r) (tasks s) = Some t" "u = attempt_context_of r t (pg_clock pg (seq db))"
      have rec: "recorded q i out db" if "outcome_matches out r t" for out
        using that a(1) find_row_SomeD [OF a(2)] find_row_SomeD [OF a(3)] unfolding recorded_def by blast
      show ?thesis using run Pair Inr a(4) rec [of Outcome_Cancelled] rec [of Outcome_Failed]
        by (auto simp: lock_running_attempt_def ebind_apply esm_apply fence_error_def
            split: if_splits option.splits)
    qed
  qed
qed

lemma fenced_error:
  assumes "db_inv pg db" and "\<And>x. raises plain (k x)"
    and "ebind (lock_running_attempt pg q i expired) k db = (Inl e, d)"
  shows "fence_error q i db e"
proof (cases "lock_running_attempt pg q i expired db")
  case (Pair y d')
  then show ?thesis
    using assms lock_running_attempt_error [OF assms(1)]
    by (cases y) (auto simp: ebind_apply raises_def fence_error_def)
qed

lemma transition_error:
  assumes "db_inv pg db"
  shows "complete_run pg q i v db = (Inl e, d) \<Longrightarrow> fence_error q i db e"
    and "fail_run pg q i reason expired db = (Inl e, d) \<Longrightarrow> fence_error q i db e"
  unfolding complete_run_def fail_run_def update_runs_def update_tasks_def
  by (erule fenced_error [OF assms, rotated], auto intro!: raising dest: plain_policies)+

subsection \<open>Supervision\<close>

lemma recordedI:
  assumes "map_of (storage db) q = Some s" and "find_row r_id i (runs s) = Some r"
    and "find_row t_id (r_task_id r) (tasks s) = Some t" and "outcome_matches out r t"
  shows "recorded q i out db"
  using assms find_row_SomeD [OF assms(2)] find_row_SomeD [OF assms(3)] unfolding recorded_def by blast

lemma recorded_storage: "storage db' = storage db \<Longrightarrow> recorded q i out db' = recorded q i out db"
  by (simp add: recorded_def)

text \<open>The tables after a supervision call: unchanged, or the task cancelled, or the run reaped.\<close>

lemma supervise_run_answer:
  assumes run: "supervise_run pg q i renew db = (Inr x, db')"
    and u: "lock_attempt_context pg q i db = (Inr (attempt_context_of r t (pg_clock pg (seq db))), d)"
    and x: "x \<noteq> ''running''" "x \<noteq> ''lease_lost''"
  shows "db' = d \<and> (x = ''cancelled'' \<and> (t_state t = Cancelled \<or> r_state r = Cancelled)
        \<or> x = ''failed'' \<and> r_state r = Failed \<or> x = ''completed'' \<and> r_state r = Completed
        \<or> x = ''suspended'' \<and> r_state r = Sleeping)
    \<or> x = ''cancelled'' \<and> r_state r = Running \<and> t_state t = Running
      \<and> ((\<exists>b. cancel_task pg q (r_task_id r) d = (Inr b, db'))
        \<or> (\<exists>b. reap_expired_run pg q i d = (Inr b, db')
            \<and> (\<exists>s t'. map_of (storage db') q = Some s \<and> find_row t_id (r_task_id r) (tasks s) = Some t'
              \<and> t_state t' = Cancelled)))"
proof (cases "t_state t = Cancelled \<or> r_state r = Cancelled \<or> r_state r \<noteq> Running")
  case True
  then show ?thesis using run x
    by (cases "r_state r") (auto simp: supervise_run_def ebind_apply esm_apply u split: if_splits)
next
  case False
  then have st: "r_state r = Running" "t_state t = Running"
    using run by (auto simp: supervise_run_def ebind_apply esm_apply u split: if_splits)
  obtain due where "task_due t (pg_clock pg (seq db)) = Inr due"
    using run st by (cases "task_due t (pg_clock pg (seq db))")
      (auto simp: supervise_run_def ebind_apply esm_apply u context_due_eval split: if_splits)
  then have due: "context_due (attempt_context_of r t (pg_clock pg (seq db))) (pg_clock pg (seq db)) d = (Inr due, d)"
    by (simp add: context_due_eval)
  show ?thesis
  proof (cases due)
    case True
    then show ?thesis using run st due
      by (auto simp: supervise_run_def ebind_apply esm_apply u split: if_splits prod.splits sum.splits)
  next
    case False
    then obtain expires where e: "r_claim_expires_at r = Some expires"
      using run st due
      by (cases "r_claim_expires_at r") (auto simp: supervise_run_def ebind_apply esm_apply u split: if_splits)
    have "expires \<le> pg_clock pg (seq db)"
    proof (rule ccontr)
      assume "\<not> expires \<le> pg_clock pg (seq db)"
      then have "x = ''running''" using run st due False e
        by (auto simp: supervise_run_def ebind_apply esm_apply u split: if_splits prod.splits sum.splits)
      with x(1) show False ..
    qed
    then have "eseq (reap_expired_run pg q i) (ebind (select_task q (r_task_id r)) (\<lambda>task.
        ereturn (if map_option t_state task = Some Cancelled then ''cancelled'' else ''lease_lost''))) d = (Inr x, db')"
      using run st due False e by (simp add: supervise_run_def ebind_apply esm_apply u split: if_splits)
    then show ?thesis using x(2) st
      by (auto simp: eseq_Inr_iff ebind_Inr_iff esm_Inr_iff select_task_def query_success split: if_splits)
  qed
qed

lemma cancel_task_records:
  assumes inv: "db_inv pg db" and s: "map_of (storage db) q = Some s" and r: "find_row r_id i (runs s) = Some r"
    and t: "find_row t_id (r_task_id r) (tasks s) = Some t" and st: "r_state r = Running" "t_state t = Running"
    and run: "cancel_task pg q (r_task_id r) db = (Inr b, db')"
  shows "run_cancelled q i db'"
proof -
  have q: "queue_name_ok pg q" using run by (rule cancel_task_found)
  have "db' = put_store q (cancelled_store (pg_clock pg (seq db)) (r_task_id r) s) (tick db)"
    using cancel_task_eval [OF q s _ t] run st db_inv_store [OF inv s] by (simp add: store_inv_def)
  moreover have "cancel_run r \<in> set (runs (cancelled_store (pg_clock pg (seq db)) (r_task_id r) s))"
    using find_row_SomeD [OF r] st(1) by (auto simp: cancelled_store_def set_update_where)
  ultimately show ?thesis
    using find_row_SomeD [OF r] by (intro run_cancelledI [of _ _ _ "cancel_run r"]) (auto simp: cancel_run_def)
qed

lemma reap_expired_run_keeps_run:
  assumes inv: "db_inv pg db" and inj: "inj (pg_uuid pg)" and run: "reap_expired_run pg q i db = (Inr b, db')"
  shows "\<exists>s r. map_of (storage db') q = Some s \<and> r \<in> set (runs s) \<and> r_id r = i"
proof -
  from run obtain u d where lock: "lock_attempt_context pg q i db = (Inr u, d)"
    by (auto simp: reap_expired_run_def ebind_Inr_iff)
  then obtain s r where a: "map_of (storage db) q = Some s" "find_row r_id i (runs s) = Some r" "d = tick db"
    by (rule lock_attempt_context_success)
  have d: "db_inv pg d" using db_inv_tick [OF inv] a(3) by (simp add: tick_def)
  from run lock have "db' = d \<or> (\<exists>reason. fail_run pg q i reason True d = (Inr (), db'))"
    by (auto simp: reap_expired_run_def ebind_Inr_iff eseq_Inr_iff esm_Inr_iff split: option.splits if_splits)
  then show ?thesis
  proof
    assume "db' = d"
    then show ?thesis using a find_row_SomeD [OF a(2)] by auto
  next
    assume "\<exists>reason. fail_run pg q i reason True d = (Inr (), db')"
    then show ?thesis using fail_run_records [OF d inj] by (fastforce simp: recorded_def run_cancelled_def)
  qed
qed

lemma supervise_run_records:
  assumes pg: "pg_ok pg" and inv: "db_inv pg db" and run: "supervise_run pg q i renew db = (Inr x, db')"
  shows "x = ''cancelled'' \<Longrightarrow> recorded q i Outcome_Cancelled db'"
    and "x = ''failed'' \<Longrightarrow> recorded q i Outcome_Failed db'"
    and "x = ''completed'' \<Longrightarrow> recorded q i Outcome_Completed db'"
    and "x = ''suspended'' \<Longrightarrow> recorded q i Outcome_Suspended db'"
proof -
  have inj: "inj (pg_uuid pg)" using pg by (simp add: pg_ok_def)
  note inv' = supervise_run_inv [OF inv inj run]
  from run obtain u d where lock: "lock_attempt_context pg q i db = (Inr u, d)"
    unfolding supervise_run_def by (auto simp: sql_steps ebind_Inr_iff)
  then obtain s r t where a: "queue_name_ok pg q" "map_of (storage db) q = Some s"
    "find_row r_id i (runs s) = Some r" "find_row t_id (r_task_id r) (tasks s) = Some t"
    "u = attempt_context_of r t (pg_clock pg (seq db))" "d = tick db"
    by (rule lock_attempt_context_success)
  note answer = supervise_run_answer [OF run lock [unfolded a(5)]]
  have same: "recorded q i out db'" if "db' = d" "outcome_matches out r t" for out
    using recordedI [OF _ a(3,4) that(2), of db' q] that(1) a(2,6) by simp
  have d: "db_inv pg d" "map_of (storage d) q = Some s" using db_inv_tick [OF inv] a(2,6) by (simp_all add: tick_def)
  have "recorded q i Outcome_Cancelled db'" if "cancel_task pg q (r_task_id r) d = (Inr b, db')"
    "r_state r = Running" "t_state t = Running" for b
    using cancel_task_records [OF d a(3,4) that(2,3,1)] by (rule run_cancelled_recorded [OF inv'])
  moreover have "recorded q i Outcome_Cancelled db'" if reap: "reap_expired_run pg q i d = (Inr b, db')"
    and t': "map_of (storage db') q = Some s'" "find_row t_id (r_task_id r) (tasks s') = Some t'" "t_state t' = Cancelled"
      for b s' t'
  proof -
    have "run_txn (supervise_run pg q i renew) db = (Inr x, db')"
      by (rule run_txn_commits [of "supervise_run pg q i renew", OF run inv'])
    then have "(db_step pg)\<^sup>*\<^sup>* db db'" by (blast intro: do_supervise)
    moreover obtain r' where r': "r' \<in> set (runs s')" "r_id r' = i"
      using reap_expired_run_keeps_run [OF d(1) inj reap] t'(1) by auto
    ultimately have "r_task_id r' = r_task_id r"
      using later_run [OF pg inv _ a(2) t'(1)] find_row_SomeD [OF a(3)] by (force simp: run_evolves_def)
    then show ?thesis
      using r' t' find_row_SomeD [OF t'(2)] unfolding recorded_def by (metis outcome_matches.simps(3))
  qed
  ultimately show "x = ''cancelled'' \<Longrightarrow> recorded q i Outcome_Cancelled db'"
    using answer same [of Outcome_Cancelled] by auto
  show "x = ''failed'' \<Longrightarrow> recorded q i Outcome_Failed db'"
    "x = ''completed'' \<Longrightarrow> recorded q i Outcome_Completed db'"
    "x = ''suspended'' \<Longrightarrow> recorded q i Outcome_Suspended db'"
    using answer same by auto
qed

subsection \<open>The client's calls\<close>

text \<open>A lost request or reply is not reported with one of Steda's own conditions.\<close>

definition honest_faults :: "env \<Rightarrow> bool" where
  "honest_faults env \<longleftrightarrow> (\<forall>n f. e_fault env n = Some f \<longrightarrow>
     map_sqlx_error (fault_error f) = Error_Database (fault_error f))"

lemma map_sqlx_plain: "plain e \<Longrightarrow> map_sqlx_error (sqlx_of_sql e) = Error_Database (sqlx_of_sql e)"
  by (auto simp: map_sqlx_error_def sqlx_of_sql_def plain_def)

lemma pool_condition:
  assumes honest: "honest_faults env" and run: "execute env Pool m w = (Inl x, w')"
    and err: "map_sqlx_error x \<noteq> Error_Database x"
  obtains e d where "m (e_others env (w_tick w) (w_db w)) = (Inl e, d)" "x = sqlx_of_sql e"
    "storage (w_db w') = storage (e_others env (w_tick w) (w_db w))"
proof -
  let ?d = "e_others env (w_tick w) (w_db w)"
  obtain y d where txn: "run_txn m ?d = (y, d)" by fastforce
  have "e_fault env (w_tick w) = None"
    using honest run err txn unfolding honest_faults_def
    by (cases "e_fault env (w_tick w)"; auto simp: pool_call_def Let_def split: fault.splits) fastforce+
  then obtain e where y: "y = Inl e" "x = sqlx_of_sql e" "w_db w' = d"
    using run txn by (cases y) (auto simp: pool_call_def Let_def)
  have "e \<noteq> foreign_key_violation" using err y(2) map_sqlx_plain [of e] by auto
  then obtain d' where "m ?d = (Inl e, d')" "w_db w' = ?d\<lparr>seq := seq d'\<rparr>"
    using txn y(1,3) by (auto simp: run_txn_def split: prod.splits sum.splits if_splits)
  then show thesis using that [OF _ y(2)] by simp
qed

lemma map_err_Inl_iff: "map_err f m s = (Inl e, t) \<longleftrightarrow> (\<exists>x. m s = (Inl x, t) \<and> e = f x)"
  by (cases "m s"; cases "fst (m s)") (auto simp: map_err_def)

lemma fence_condition:
  assumes "fence_error q i db e"
  shows "map_sqlx_error (sqlx_of_sql e) = Error_Cancelled \<Longrightarrow> recorded q i Outcome_Cancelled db"
    and "map_sqlx_error (sqlx_of_sql e) = Error_FailedRun \<Longrightarrow> recorded q i Outcome_Failed db"
  using assms map_sqlx_plain [of e]
  by (auto simp: fence_error_def map_sqlx_error_def sqlx_of_sql_def ST001_def ST002_def ST003_def)

lemma client_supervise_records:
  assumes env: "env_ok env" and inv: "db_inv (e_pg env) (w_db w)"
    and run: "client_supervise_run env q i renew w = (Inr sv, w')"
    and out: "execution_outcome_from_supervision sv = Some out" "out \<noteq> Outcome_LeaseLost"
  shows "recorded q i out (w_db w')"
proof -
  have pg: "pg_ok (e_pg env)" using env by (simp add: env_ok_def)
  obtain x where call: "execute env Pool (supervise_run (e_pg env) q i renew) w = (Inr x, w')"
    and x: "supervision_of_text (e_fmt env) x = Inr sv"
    using run by (auto simp: client_supervise_run_def ebind_Inr_iff esm_Inr_iff map_err_Inr_iff)
  note rec = supervise_run_records [OF pg env_inv [OF env inv] pool_success(1) [OF call]]
  show ?thesis using x out rec by (cases sv) (auto simp: supervision_of_text_def split: if_splits)
qed

text \<open>An answer about a cancelled run says that it is cancelled.\<close>

lemma client_supervise_cancelled:
  assumes env: "env_ok env" and inv: "db_inv (e_pg env) (w_db w)" and can: "run_cancelled q i (w_db w)"
    and run: "client_supervise_run env q i renew w = (Inr sv, w')"
  shows "sv = Sup_Cancelled"
proof -
  let ?d = "e_others env (w_tick w) (w_db w)"
  obtain x where call: "execute env Pool (supervise_run (e_pg env) q i renew) w = (Inr x, w')"
    and x: "supervision_of_text (e_fmt env) x = Inr sv"
    using run by (auto simp: client_supervise_run_def ebind_Inr_iff esm_Inr_iff map_err_Inr_iff)
  note sup = pool_success(1) [OF call]
  from sup obtain u d where lock: "lock_attempt_context (e_pg env) q i ?d = (Inr u, d)"
    unfolding supervise_run_def by (auto simp: sql_steps ebind_Inr_iff)
  then obtain s r t where a: "map_of (storage ?d) q = Some s" "find_row r_id i (runs s) = Some r"
    "u = attempt_context_of r t (pg_clock (e_pg env) (seq ?d))"
    by (rule lock_attempt_context_success)
  have "r_state r = Cancelled"
    using cancelled_run_row [OF _ inv can env_steps [OF env] a(1)] find_row_SomeD [OF a(2)] env by (simp add: env_ok_def)
  then have "x = ''cancelled''"
    using sup by (auto simp: supervise_run_def ebind_apply esm_apply lock a(3) split: if_splits)
  then show ?thesis using x by (simp add: supervision_of_text_def)
qed

lemma client_supervise_sees_cancelled:
  assumes env: "env_ok env" "e_fault env (w_tick w) = None" and inv: "db_inv (e_pg env) (w_db w)"
    and q: "queue_name_ok (e_pg env) q" and renew: "case renew of None \<Rightarrow> True | Some n \<Rightarrow> 0 < n"
    and can: "run_cancelled q i db" "db_inv (e_pg env) db" "(db_step (e_pg env))\<^sup>*\<^sup>* db (w_db w)"
    and stored: "run_stored q i (e_others env (w_tick w) (w_db w))"
  shows "fst (client_supervise_run env q i renew w) = Inr Sup_Cancelled"
proof -
  let ?d = "e_others env (w_tick w) (w_db w)"
  have inv': "db_inv (e_pg env) ?d" using env(1) inv by (rule env_inv)
  obtain s r where s: "map_of (storage ?d) q = Some s" and r: "find_row r_id i (runs s) = Some r"
    using stored by (cases "\<exists>s r. map_of (storage ?d) q = Some s \<and> find_row r_id i (runs s) = Some r")
      (auto simp: run_stored_def find_row_None_iff)
  have row: "r \<in> set (runs s)" "r_id r = i" using find_row_SomeD [OF r] by simp_all
  have state: "r_state r = Cancelled"
    using cancelled_run_row [OF _ can(2,1) rtranclp_trans [OF can(3) env_steps [OF env(1)]] s row] env(1)
    by (simp add: env_ok_def)
  obtain t where t: "find_row t_id (r_task_id r) (tasks s) = Some t"
    using stored_run_task [OF inv' s row(1)] find_row_None_iff [of t_id "r_task_id r" "tasks s"] by (metis not_Some_eq)
  have "supervise_run (e_pg env) q i renew ?d = (Inr ''cancelled'', tick ?d)"
    using state renew lock_attempt_context_eval [OF q s r t]
    by (simp add: supervise_run_def ebind_apply esm_apply)
  from client_supervise_reads [OF env inv this] show ?thesis by (simp add: supervision_of_text_def)
qed

lemma complete_run_declined:
  assumes inv: "db_inv pg db" and run: "complete_run pg q i v db = (Inr False, db')"
  shows "run_cancelled q i db'"
proof -
  from run obtain u d where lock: "lock_running_attempt pg q i False db = (Inr u, d)"
    by (auto simp: complete_run_def ebind_Inr_iff)
  from lock inv show ?thesis
  proof (rule attempt_success)
    fix s r t lease
    assume a: "queue_name_ok pg q" "map_of (storage db) q = Some s" "running_attempt s i r t lease"
      "False = (lease \<le> pg_clock pg (seq db))"
    have "db' = put_store q (cancelled_store (pg_clock pg (Suc (seq db))) (r_task_id r) s) (tick (tick db))"
      using run complete_run_eval [OF inv a(1-3), of v] a(4) by (auto split: sum.splits bool.splits)
    then show ?thesis using cancelled_store_row [OF a(3)] running_attemptD(2) [OF a(3)]
      by (intro run_cancelledI [of _ _ _ "cancel_run r"]) (auto simp: cancel_run_def)
  qed
qed

lemma executor_complete_records:
  assumes env: "env_ok env" "honest_faults env" and inv: "db_inv (e_pg env) (w_db w)"
    and run: "executor_complete_run env q i v w = (r, w')"
  shows "r = Inr () \<Longrightarrow> recorded q i Outcome_Completed (w_db w')"
    and "r = Inl Error_Cancelled \<Longrightarrow> recorded q i Outcome_Cancelled (w_db w')"
proof -
  let ?m = "complete_run (e_pg env) q i v" and ?d = "e_others env (w_tick w) (w_db w)"
  show "recorded q i Outcome_Completed (w_db w')" if "r = Inr ()"
    using complete_success [OF env(1) inv] run that by (fastforce simp: recorded_def)
  have inv': "db_inv (e_pg env) ?d" using env(1) inv by (rule env_inv)
  assume "r = Inl Error_Cancelled"
  then consider "execute env Pool ?m w = (Inr False, w')"
    | x where "execute env Pool ?m w = (Inl x, w')" "map_sqlx_error x = Error_Cancelled"
    using run by (cases "map_err map_sqlx_error (execute env Pool ?m) w"; cases "fst (map_err map_sqlx_error (execute env Pool ?m) w)")
      (auto simp: executor_complete_run_def ebind_apply esm_apply map_err_Inl_iff map_err_Inr_iff split: if_splits)
  then show "recorded q i Outcome_Cancelled (w_db w')"
  proof cases
    case 1
    have "protocol (e_pg env) w w'" by (rule effectD [OF transition_protocol(1) [OF env(1)] run])
    then have "db_inv (e_pg env) (w_db w')" using env(1) inv by (simp add: protocol_def env_ok_def)
    then show ?thesis using complete_run_declined [OF inv' pool_success(1) [OF 1]] by (rule run_cancelled_recorded)
  next
    case 2
    then obtain e d where "?m ?d = (Inl e, d)" "x = sqlx_of_sql e" "storage (w_db w') = storage ?d"
      by (auto intro: pool_condition [OF env(2) 2(1)])
    then show ?thesis using fence_condition(1) [OF transition_error(1) [OF inv']] 2(2) recorded_storage by blast
  qed
qed

lemma executor_fail_records:
  assumes env: "env_ok env" "honest_faults env" and inv: "db_inv (e_pg env) (w_db w)"
    and run: "executor_fail_run env q i f w = (r, w')"
  shows "r = Inr () \<Longrightarrow> recorded q i Outcome_Failed (w_db w') \<or> run_cancelled q i (w_db w')"
    and "r = Inl Error_Cancelled \<Longrightarrow> recorded q i Outcome_Cancelled (w_db w')"
    and "r = Inl Error_FailedRun \<Longrightarrow> recorded q i Outcome_Failed (w_db w')"
proof -
  let ?m = "fail_run (e_pg env) q i f False" and ?d = "e_others env (w_tick w) (w_db w)"
  have inj: "inj (pg_uuid (e_pg env))" using env(1) by (simp add: env_ok_def pg_ok_def)
  have inv': "db_inv (e_pg env) ?d" using env(1) inv by (rule env_inv)
  show "recorded q i Outcome_Failed (w_db w') \<or> run_cancelled q i (w_db w')" if "r = Inr ()"
    using fail_run_records [OF inv' inj] run that pool_success(1) [of env ?m w "()" w']
    by (simp add: executor_fail_run_def map_err_Inr_iff)
  have cond: "\<exists>e d. ?m ?d = (Inl e, d) \<and> map_sqlx_error (sqlx_of_sql e) = err \<and> storage (w_db w') = storage ?d"
    if r: "r = Inl err" "err \<in> {Error_Cancelled, Error_FailedRun}" for err
  proof -
    obtain x where x: "execute env Pool ?m w = (Inl x, w')" "map_sqlx_error x = err"
      using run r(1) by (auto simp: executor_fail_run_def map_err_Inl_iff simp del: execute.simps)
    then show ?thesis using r(2) by (auto intro: pool_condition [OF env(2) x(1)])
  qed
  show "recorded q i Outcome_Cancelled (w_db w')" if "r = Inl Error_Cancelled"
    using cond [OF that] fence_condition(1) [OF transition_error(2) [OF inv']] recorded_storage by blast
  show "recorded q i Outcome_Failed (w_db w')" if "r = Inl Error_FailedRun"
    using cond [OF that] fence_condition(2) [OF transition_error(2) [OF inv']] recorded_storage by blast
qed

subsection \<open>Attempts\<close>

text \<open>An attempt in the world \<open>w\<close> ended in \<open>w'\<close> with one counted outcome, recorded for its run in
  between.\<close>

definition reported :: "pg \<Rightarrow> string \<Rightarrow> uuid \<Rightarrow> world \<Rightarrow> world \<Rightarrow> bool" where
  "reported pg q i w w' \<longleftrightarrow> w_guard w' = None
   \<and> (\<exists>out el d. w_metrics w' = finish_execution (TaskExecution_start el) out (w_metrics w)
        \<and> (db_step pg)\<^sup>*\<^sup>* (w_db w) d \<and> (db_step pg)\<^sup>*\<^sup>* d (w_db w') \<and> recorded q i out d)"

definition quietly :: "env \<Rightarrow> world \<Rightarrow> world \<Rightarrow> bool" where
  "quietly env w w' \<longleftrightarrow> same_metrics w w' \<and> client_protocol env w w'"

lemma quietlyI: "effect same_metrics m \<Longrightarrow> effect (client_protocol env) m \<Longrightarrow> effect (quietly env) m"
  by (auto simp: effect_def quietly_def)

interpretation quietly: call_discipline "quietly env" env for env
proof unfold_locales
  show "quietly env s s" for s by (simp add: quietly_def same_metrics.effect_refl protocol_attempt.effect_refl)
  show "quietly env s t \<Longrightarrow> quietly env t u \<Longrightarrow> quietly env s u" for s t u
    unfolding quietly_def using same_metrics.effect_trans protocol_attempt.effect_trans by blast
qed (auto intro!: quietlyI client_protocolI effects)

lemma quietly_steps:
  assumes "quietly env w w'" and "env_ok env" and "db_inv (e_pg env) (w_db w)"
  shows "(db_step (e_pg env))\<^sup>*\<^sup>* (w_db w) (w_db w')" "db_inv (e_pg env) (w_db w')"
    "w_metrics w' = w_metrics w" "w_guard w' = w_guard w"
  using assms by (auto simp: quietly_def same_metrics_def client_protocol_def protocol_def env_ok_def)

lemma reported_after:
  assumes "quietly env w v" and "env_ok env" and "db_inv (e_pg env) (w_db w)" and "reported (e_pg env) q i v w'"
  shows "reported (e_pg env) q i w w'"
  using assms(4) quietly_steps [OF assms(1-3)] unfolding reported_def by (metis rtranclp_trans)

lemma finish_reports:
  assumes "finish out v = (Inr (), w')" and "recorded q i out (w_db u)" and "quietly env w u" and "quietly env u v"
    and "w_guard w \<noteq> None" and "env_ok env" and "db_inv (e_pg env) (w_db w)"
  shows "reported (e_pg env) q i w w'"
proof -
  note u = quietly_steps [OF assms(3,6,7)]
  note v = quietly_steps [OF assms(4,6) u(2)]
  obtain started where "w_guard v = Some started" using assms(5) u v by auto
  then show ?thesis
    using assms(1,2) u v unfolding reported_def finish_def guard_at_def
    by (intro conjI exI [of _ out] exI [of _ "max 0 (w_now v - started)"] exI [of _ "w_db u"]) (auto simp: esm_apply)
qed

lemma finish_with_reports:
  assumes "finish_with out v = (Inr (), w')" and "out \<noteq> Outcome_LeaseLost \<Longrightarrow> \<exists>u. recorded q i out (w_db u)
      \<and> quietly env w u \<and> quietly env u v"
    and "w_guard w \<noteq> None" and "env_ok env" and "db_inv (e_pg env) (w_db w)"
  shows "reported (e_pg env) q i w w'"
proof -
  have "out \<noteq> Outcome_LeaseLost \<and> finish out v = (Inr (), w')"
    using assms(1) by (auto simp: finish_with_def eseq_Inr_iff esm_Inr_iff split: if_splits)
  then show ?thesis using finish_reports [OF _ _ _ _ assms(3-5)] assms(2) by blast
qed

lemma lease_lost_raises: "lease_lost w \<noteq> (Inr (), w')"
  by (simp add: lease_lost_def eseq_Inr_iff esm_Inr_iff)

lemma etry_bind_iff:
  "ebind (etry m) f w = (Inr x, w') \<longleftrightarrow> (\<exists>r v. m w = (r, v) \<and> f r v = (Inr x, w'))"
  by (cases "m w") (simp add: ebind_apply etry_def)

lemma fail_attempt_reports:
  assumes env: "env_ok env" "honest_faults env" and inv: "db_inv (e_pg env) (w_db w)" and guard: "w_guard w \<noteq> None"
    and run: "fail_attempt env q i f w = (Inr (), w')"
  shows "reported (e_pg env) q i w w'"
proof -
  from run obtain r v where fail: "executor_fail_run env q i f w = (r, v)"
    and fin: "finish_failure_transition env q i r v = (Inr (), w')"
    by (auto simp: fail_attempt_def etry_bind_iff)
  note rec = executor_fail_records [OF env inv fail]
  have v: "quietly env w v" by (rule effectD [OF quietly.fail_effect fail])
  note inv_v = quietly_steps(2) [OF v env(1) inv]
  note finishes = finish_reports [OF _ _ _ _ guard env(1) inv]
  show ?thesis
  proof (cases r)
    case (Inl e)
    then show ?thesis using fin rec(2,3) finishes [OF _ _ v quietly.effect_refl] lease_lost_raises
      by (cases e) (auto simp: finish_failure_transition_def esm_Inr_iff)
  next
    case (Inr x)
    then obtain sv u where sup: "client_supervise_run env q i None v = (Inr sv, u)"
      and out: "finish (if execution_outcome_from_supervision sv = Some Outcome_Cancelled then Outcome_Cancelled
        else Outcome_Failed) u = (Inr (), w')"
      using fin by (auto simp: finish_failure_transition_def persisted_execution_outcome_def ebind_Inr_iff esm_Inr_iff)
    have u: "quietly env v u" by (rule effectD [OF quietly.supervise_effect sup])
    show ?thesis
    proof (cases "execution_outcome_from_supervision sv = Some Outcome_Cancelled")
      case True
      then have "recorded q i Outcome_Cancelled (w_db u)"
        using client_supervise_records [OF env(1) inv_v sup] by simp
      then show ?thesis using finishes [OF _ _ quietly.effect_trans [OF v u] quietly.effect_refl] out True by simp
    next
      case False
      then have "recorded q i Outcome_Failed (w_db v)"
        using rec(1) Inr client_supervise_cancelled [OF env(1) inv_v _ sup] by auto
      then show ?thesis using finishes [OF _ _ v u] out False by simp
    qed
  qed
qed

lemma settle_reports:
  assumes env: "env_ok env" "honest_faults env" and inv: "db_inv (e_pg env) (w_db w)" and guard: "w_guard w \<noteq> None"
    and run: "settle env F q i result w = (Inr (), w')"
  shows "reported (e_pg env) q i w w'"
proof (cases result)
  case (Inl p)
  then show ?thesis using fail_attempt_reports [OF env inv guard] run by (simp add: settle_def)
next
  case (Inr x)
  show ?thesis
  proof (cases x)
    case (Inl e)
    show ?thesis
    proof (cases "control_error e")
      case True
      then obtain sv v where sup: "client_supervise_run env q i None w = (Inr sv, v)"
        and fin: "(case execution_outcome_from_supervision sv of Some out \<Rightarrow> finish_with out
          | None \<Rightarrow> fail_attempt env q i (serialize_error F e)) v = (Inr (), w')"
        using run \<open>result = Inr x\<close> Inl
        by (auto simp: settle_def persisted_execution_outcome_def ebind_Inr_iff esm_Inr_iff)
      have v: "quietly env w v" by (rule effectD [OF quietly.supervise_effect sup])
      show ?thesis
      proof (cases "execution_outcome_from_supervision sv")
        case None
        then have "reported (e_pg env) q i v w'"
          using fail_attempt_reports [OF env] fin quietly_steps [OF v env(1) inv] guard by simp
        then show ?thesis by (rule reported_after [OF v env(1) inv])
      next
        case (Some out)
        then show ?thesis
          using finish_with_reports [OF _ _ guard env(1) inv] client_supervise_records [OF env(1) inv sup] fin
            v quietly.effect_refl by fastforce
      qed
    next
      case False
      then show ?thesis using fail_attempt_reports [OF env inv guard] run Inl \<open>result = Inr x\<close> by (simp add: settle_def)
    qed
  next
    case (Inr response)
    then obtain r v where run: "executor_complete_run env q i (resp_output response) w = (r, v)"
      and fin: "(case r of Inr _ \<Rightarrow> finish Outcome_Completed | Inl Error_Cancelled \<Rightarrow> finish Outcome_Cancelled
        | Inl Error_LeaseLost \<Rightarrow> lease_lost | Inl err \<Rightarrow> eraise err) v = (Inr (), w')"
      using run \<open>result = Inr x\<close> by (auto simp: settle_def etry_bind_iff)
    have v: "quietly env w v" by (rule effectD [OF quietly.complete_effect run])
    note rec = executor_complete_records [OF env inv run]
    note finishes = finish_reports [OF _ _ v quietly.effect_refl guard env(1) inv]
    show ?thesis
    proof (cases r)
      case (Inl e)
      then show ?thesis using fin rec(2) finishes lease_lost_raises by (cases e) (auto simp: esm_Inr_iff)
    next
      case (Inr u)
      then show ?thesis using fin rec(1) finishes by simp
    qed
  qed
qed

lemma attempt_entry_reports:
  assumes env: "env_ok env" "honest_faults env" and inv: "db_inv (e_pg env) (w_db w)" and guard: "w_guard w \<noteq> None"
    and run: "attempt_entry env F xc task lease w = (Inr None, w')"
  shows "reported (e_pg env) (xc_queue_name xc) (claimed_run_id task) w w'"
proof -
  let ?q = "xc_queue_name xc" and ?i = "claimed_run_id task"
  obtain sv v where sup: "client_supervise_run env ?q ?i (Some lease) w = (Inr sv, v)"
    using run by (auto simp: attempt_entry_def ebind_Inr_iff esm_Inr_iff split: option.splits)
  have v: "quietly env w v" by (rule effectD [OF quietly.supervise_effect sup])
  note v' = quietly_steps [OF v env(1) inv]
  show ?thesis
  proof (cases "execution_outcome_from_supervision sv")
    case (Some out)
    then have "finish_with out v = (Inr (), w')"
      using run sup by (auto simp: attempt_entry_def ebind_Inr_iff eseq_Inr_iff esm_Inr_iff split: option.splits)
    then show ?thesis
      using finish_with_reports [OF _ _ guard env(1) inv] client_supervise_records [OF env(1) inv sup Some]
        v quietly.effect_refl by blast
  next
    case None
    obtain r u where new: "TaskContext_new env ?q task v = (r, u)" by fastforce
    have u: "quietly env v u" by (rule effectD [OF quietly.context_effect new])
    note u' = quietly_steps [OF u env(1) v'(2)]
    obtain e where "fail_attempt env ?q ?i (serialize_error F e) u = (Inr (), w')"
      using run sup None new lease_lost_raises
      by (auto simp: attempt_entry_def ebind_apply etry_def eseq_Inr_iff esm_Inr_iff
          split: option.splits sum.splits error.splits)
    then have "reported (e_pg env) ?q ?i u w'" using fail_attempt_reports [OF env u'(2)] u'(4) v'(4) guard by simp
    then show ?thesis by (rule reported_after [OF quietly.effect_trans [OF v u] env(1) inv])
  qed
qed

lemma attempt_entry_quietly:
  assumes "attempt_entry env F xc task lease w = (Inr (Some x), w')"
  shows "quietly env w w'"
proof -
  let ?q = "xc_queue_name xc" and ?i = "claimed_run_id task"
  obtain sv v where sup: "client_supervise_run env ?q ?i (Some lease) w = (Inr sv, v)"
    using assms by (auto simp: attempt_entry_def ebind_Inr_iff esm_Inr_iff split: option.splits)
  then have "\<exists>r. TaskContext_new env ?q task v = (r, w')"
    using assms
    by (cases "TaskContext_new env ?q task v")
      (auto simp: attempt_entry_def ebind_apply etry_def eseq_Inr_iff esm_Inr_iff
        split: option.splits sum.splits error.splits)
  then show ?thesis
    using effectD [OF quietly.supervise_effect sup] effectD [OF quietly.context_effect] quietly.effect_trans by blast
qed

end
