(* ===== verification/HandleProperties.thy ===== *)
theory HandleProperties
  imports ContextProperties
begin

section \<open>References, handles and the caller's transaction\<close>

text \<open>
  Properties of typed references on the wire, of the control operations of a handle, and of the
  operations that run inside a transaction the caller owns. The last are a simulation: the relation
  \<open>in_txn\<close> says that a program on the caller's connection behaves like a program on the pool of a
  database that is exactly the transaction's own state.
\<close>

subsection \<open>References on the wire\<close>

lemma map_sum_Inr_iff: "map_sum f id r = Inr x \<longleftrightarrow> r = Inr x"
  by (cases r) auto

text \<open>\<^bold>\<open>C32.\<close> References survive the wire: a reference with valid names is deserialized to itself, provided
  a UUID is parsed back from its text; and whatever JSON is accepted as a reference carries a valid
  queue and task name, serializes to a form that is accepted again as the same reference, and attaches
  to a handle.\<close>

theorem task_refs_round_trip:
  assumes uuid: "\<And>u. f_uuid_parse F (f_uuid F u) = Some u"
  shows "(validate_task_name (ref_task_name r) = Inr () \<and> validate_queue_name (ref_queue_name r) = Inr q
      \<longrightarrow> TaskRef_deserialize F (TaskRef_serialize F r) = Inr r)
    \<and> (TaskRef_deserialize F j = Inr r \<longrightarrow>
        TaskRef_deserialize F (TaskRef_serialize F r) = Inr r
      \<and> (\<exists>h. Steda_task st r = Inr h \<and> handle_ref h = r \<and> Queue_name (handle_queue h) = ref_queue_name r))"
proof -
  have round: "TaskRef_deserialize F (TaskRef_serialize F r) = Inr r"
    if "validate_task_name (ref_task_name r) = Inr ()" "validate_queue_name (ref_queue_name r) = Inr q" for q
  proof -
    have "q = ref_queue_name r" using that(2) by (simp add: validate_queue_name_Inr)
    with that uuid show ?thesis
      by (simp add: TaskRef_deserialize_def TaskRef_serialize_def wire_deserialize_def wire_fields_def
          res_bind_def del: json_insert.simps)
  qed
  moreover have "\<exists>h. Steda_task st r = Inr h \<and> handle_ref h = r \<and> Queue_name (handle_queue h) = ref_queue_name r"
    and "\<exists>q. validate_task_name (ref_task_name r) = Inr () \<and> validate_queue_name (ref_queue_name r) = Inr q"
    if j: "TaskRef_deserialize F j = Inr r"
  proof -
    obtain q where v: "validate_task_name (ref_task_name r) = Inr ()" "validate_queue_name q = Inr (ref_queue_name r)"
      using j by (auto simp: TaskRef_deserialize_def res_bind_eq_Inr map_sum_Inr_iff)
    moreover from v(2) have "q = ref_queue_name r" by (simp add: validate_queue_name_Inr)
    ultimately show "\<exists>q. validate_task_name (ref_task_name r) = Inr () \<and> validate_queue_name (ref_queue_name r) = Inr q"
      and "\<exists>h. Steda_task st r = Inr h \<and> handle_ref h = r \<and> Queue_name (handle_queue h) = ref_queue_name r"
      by (simp_all add: Steda_task_def Steda_queue_def Queue_from_parts_def res_bind_def TaskHandle_from_ref_def)
  qed
  ultimately show ?thesis by blast
qed

theorem task_refs_round_trip_witness:
  "TaskRef_deserialize demo_fmt (TaskRef_serialize demo_fmt
    \<lparr>ref_queue_name = ''q'', ref_task_name = ''mail'', ref_task_id = 3\<rparr>) =
    Inr \<lparr>ref_queue_name = ''q'', ref_task_name = ''mail'', ref_task_id = 3\<rparr>"
proof -
  let ?r = "\<lparr>ref_queue_name = ''q'', ref_task_name = ''mail'', ref_task_id = 3\<rparr>"
  have "validate_task_name (ref_task_name ?r) = Inr ()" "validate_queue_name (ref_queue_name ?r) = Inr ''q''"
    by code_simp+
  moreover have "f_uuid_parse demo_fmt (f_uuid demo_fmt u) = Some u" for u by (simp add: demo_fmt_def)
  ultimately show ?thesis using task_refs_round_trip by blast
qed

subsection \<open>Control operations check the reference\<close>

lemma ensure_refuses:
  assumes env: "env_ok env" "e_fault env (w_tick w) = None" and inv: "db_inv (e_pg env) (w_db w)"
    and q: "queue_name_ok (e_pg env) (Queue_name queue)"
    and s: "map_of (storage (e_others env (w_tick w) (w_db w))) (Queue_name queue) = Some s"
    and t: "find_row t_id tid (tasks s) = None \<or> (\<exists>t\<in>set (tasks s). t_id t = tid \<and> t_name t \<noteq> name)"
  shows "\<exists>e. ensure_task_ref_with env queue name tid Pool w = (Inl e, begin_event env w)
    \<and> (e = Error_TaskNotFound tid \<or> (\<exists>actual. e = Error_TaskNameMismatch tid name actual))"
  using t
proof
  assume "find_row t_id tid (tasks s) = None"
  then show ?thesis using fetch_row [OF env inv q s, of tid]
    by (simp add: ensure_task_ref_with_def fetch_task_result_snapshot_with_def ebind_apply map_err_apply esm_apply)
next
  assume "\<exists>t\<in>set (tasks s). t_id t = tid \<and> t_name t \<noteq> name"
  then obtain t where "t \<in> set (tasks s)" "t_id t = tid" "t_name t \<noteq> name" by blast
  then show ?thesis using fetch_found [OF env inv q s, of t name]
    by (simp add: ensure_task_ref_with_def fetch_task_result_snapshot_def ebind_apply)
qed

text \<open>\<^bold>\<open>C31.\<close> Control operations act only on the task the reference names: cancelling or retrying
  through a handle whose task does not exist, or is persisted under another definition's name, reports
  \<open>TaskNotFound\<close> or \<open>TaskNameMismatch\<close> and sends nothing that changes the database.\<close>

theorem handles_refuse_foreign_tasks:
  assumes env: "env_ok env" "e_fault env (w_tick w) = None" and inv: "db_inv (e_pg env) (w_db w)"
    and q: "queue_name_ok (e_pg env) (Queue_name (handle_queue h))"
    and s: "map_of (storage (e_others env (w_tick w) (w_db w))) (Queue_name (handle_queue h)) = Some s"
    and t: "find_row t_id (handle_task_id h) (tasks s) = None
      \<or> (\<exists>t\<in>set (tasks s). t_id t = handle_task_id h \<and> t_name t \<noteq> ref_task_name (handle_ref h))"
  shows "\<exists>e. handle_cancel env h w = (Inl e, begin_event env w)
    \<and> handle_retry env h w = (Inl e, begin_event env w)
    \<and> (e = Error_TaskNotFound (handle_task_id h)
      \<or> (\<exists>actual. e = Error_TaskNameMismatch (handle_task_id h) (ref_task_name (handle_ref h)) actual))"
  using ensure_refuses [OF assms]
  by (auto simp: handle_cancel_def handle_retry_def handle_cancel_with_def handle_retry_with_def eseq_def
      ebind_apply)

theorem handles_refuse_foreign_tasks_witness:
  "\<exists>e. handle_cancel (quiet exact_pg) (TaskHandle_new \<lparr>Queue_name = ''q'', Queue_execution = ()\<rparr>
      (Task_new ''other'') 0) (world_of demo_claimed) = (Inl e, begin_event (quiet exact_pg) (world_of demo_claimed))"
proof -
  let ?h = "TaskHandle_new \<lparr>Queue_name = ''q'', Queue_execution = ()\<rparr> (Task_new ''other'') 0"
  have "\<exists>t\<in>set (tasks demo_store). t_id t = handle_task_id ?h \<and> t_name t \<noteq> ref_task_name (handle_ref ?h)"
    by code_simp
  then show ?thesis
    using handles_refuse_foreign_tasks [of "quiet exact_pg" "world_of demo_claimed" ?h demo_store]
      quiet_ok [OF exact_pg_ok] demo_inv demo_facts
    by (auto simp: TaskHandle_new_def)
qed

subsection \<open>The caller's transaction\<close>

text \<open>Two programs at the same point of the environment, one on a transaction's view and one on a database
  equal to that view, give the same answers and keep the view and the database equal.\<close>

definition in_txn :: "env \<Rightarrow> (world, 'e, 'a) esm \<Rightarrow> (world, 'e, 'a) esm \<Rightarrow> bool" where
  "in_txn env m k \<longleftrightarrow> (\<forall>w v. w_txn w = Open (w_db v) \<and> w_tick w = w_tick v \<and> db_inv (e_pg env) (w_db v) \<longrightarrow>
     fst (m w) = fst (k v)
   \<and> (\<forall>x. fst (k v) = Inr x \<longrightarrow> w_txn (snd (m w)) = Open (w_db (snd (k v)))
       \<and> w_tick (snd (m w)) = w_tick (snd (k v)) \<and> db_inv (e_pg env) (w_db (snd (k v)))))"

lemma in_txnI:
  assumes "\<And>w v. w_txn w = Open (w_db v) \<Longrightarrow> w_tick w = w_tick v \<Longrightarrow> db_inv (e_pg env) (w_db v) \<Longrightarrow>
      fst (m w) = fst (k v)"
    and "\<And>w v x. w_txn w = Open (w_db v) \<Longrightarrow> w_tick w = w_tick v \<Longrightarrow> db_inv (e_pg env) (w_db v) \<Longrightarrow>
      fst (k v) = Inr x \<Longrightarrow> w_txn (snd (m w)) = Open (w_db (snd (k v)))
        \<and> w_tick (snd (m w)) = w_tick (snd (k v)) \<and> db_inv (e_pg env) (w_db (snd (k v)))"
  shows "in_txn env m k"
  using assms unfolding in_txn_def by blast

named_theorems txn_sim

lemma in_txn_pure [txn_sim]:
  "in_txn env (ereturn x) (ereturn x)" "in_txn env (eraise e) (eraise e)" "in_txn env (elift r) (elift r)"
  by (simp_all add: in_txn_def esm_apply)

lemma in_txn_map_err [txn_sim]: "in_txn env m k \<Longrightarrow> in_txn env (map_err f m) (map_err f k)"
  by (auto simp: in_txn_def map_err_apply map_sum_Inr_iff)

lemma in_txn_ebind [txn_sim]:
  assumes "in_txn env m k" and "\<And>x. in_txn env (f x) (g x)"
  shows "in_txn env (ebind m f) (ebind k g)"
proof (rule in_txnI)
  fix w v :: world
  assume wv: "w_txn w = Open (w_db v)" "w_tick w = w_tick v" "db_inv (e_pg env) (w_db v)"
  obtain r w1 v1 where mk: "m w = (r, w1)" "k v = (r, v1)"
    and next_txn: "\<And>x. r = Inr x \<Longrightarrow> w_txn w1 = Open (w_db v1) \<and> w_tick w1 = w_tick v1 \<and> db_inv (e_pg env) (w_db v1)"
    using assms(1) wv unfolding in_txn_def by (metis prod.collapse)
  have step: "fst (f x w1) = fst (g x v1)
      \<and> (\<forall>y. fst (g x v1) = Inr y \<longrightarrow> w_txn (snd (f x w1)) = Open (w_db (snd (g x v1)))
        \<and> w_tick (snd (f x w1)) = w_tick (snd (g x v1))
        \<and> db_inv (e_pg env) (w_db (snd (g x v1))))" if "r = Inr x" for x
    using assms(2) [of x] next_txn [OF that] unfolding in_txn_def by blast
  show "fst (ebind m f w) = fst (ebind k g v)"
    using mk step by (cases r) (simp_all add: ebind_apply)
  show "w_txn (snd (ebind m f w)) = Open (w_db (snd (ebind k g v)))
      \<and> w_tick (snd (ebind m f w)) = w_tick (snd (ebind k g v)) \<and> db_inv (e_pg env) (w_db (snd (ebind k g v)))"
    if "fst (ebind k g v) = Inr x" for x
    using that mk step by (cases r) (simp_all add: ebind_apply)
qed

lemma in_txn_eseq [txn_sim]: "in_txn env m k \<Longrightarrow> in_txn env n l \<Longrightarrow> in_txn env (eseq m n) (eseq k l)"
  unfolding eseq_def by (rule in_txn_ebind)

lemma in_txn_cases [txn_sim]:
  "in_txn env m k \<Longrightarrow> in_txn env n l \<Longrightarrow> in_txn env (if b then m else n) (if b then k else l)"
  "in_txn env m k \<Longrightarrow> (\<And>x. in_txn env (f x) (g x)) \<Longrightarrow>
    in_txn env (case o' of None \<Rightarrow> m | Some x \<Rightarrow> f x) (case o' of None \<Rightarrow> k | Some x \<Rightarrow> g x)"
  by (auto split: option.split)

lemma in_txn_execute:
  assumes env: "env_ok env" and fault: "\<And>n. e_fault env n = None"
    and keeps: "\<And>d x d'. db_inv (e_pg env) d \<Longrightarrow> stmt d = (Inr x, d') \<Longrightarrow> db_inv (e_pg env) d'"
  shows "in_txn env (execute env Connection stmt) (execute env Pool stmt)"
proof -
  have "fst (execute env Connection stmt w) = fst (execute env Pool stmt v)
      \<and> (\<forall>x. fst (execute env Pool stmt v) = Inr x \<longrightarrow>
          w_txn (snd (execute env Connection stmt w)) = Open (w_db (snd (execute env Pool stmt v)))
        \<and> w_tick (snd (execute env Connection stmt w)) = w_tick (snd (execute env Pool stmt v))
        \<and> db_inv (e_pg env) (w_db (snd (execute env Pool stmt v))))"
    if wv: "w_txn w = Open (w_db v)" "w_tick w = w_tick v" "db_inv (e_pg env) (w_db v)" for w v
  proof -
    let ?d = "e_others env (w_tick v) (w_db v)"
    have inv: "db_inv (e_pg env) ?d"
      using steps_inv [OF _ wv(3) env_steps [OF env]] env by (simp add: env_ok_def)
    obtain r d where r: "stmt ?d = (r, d)" by fastforce
    show ?thesis
    proof (cases r)
      case (Inl e)
      then have "run_txn stmt ?d = (Inl e, ?d\<lparr>seq := seq d\<rparr>)" using r by (simp add: run_txn_def)
      then show ?thesis using r Inl wv fault
        by (simp add: txn_call_def pool_call_def Let_def)
    next
      case (Inr x)
      have inv': "db_inv (e_pg env) d" using keeps [OF inv] r Inr by blast
      have "stmt ?d = (Inr x, d)" using r Inr by simp
      then have "run_txn stmt ?d = (Inr x, d)" using inv' by (rule run_txn_commits)
      then show ?thesis using r Inr wv fault inv'
        by (simp add: txn_call_def pool_call_def Let_def)
    qed
  qed
  then show ?thesis unfolding in_txn_def by blast
qed

text \<open>What a program on the caller's connection does to the committed database: nothing of its own.\<close>

definition others_only :: "env \<Rightarrow> world \<Rightarrow> world \<Rightarrow> bool" where
  "others_only env w w' \<longleftrightarrow> (\<lambda>d d'. \<exists>n. d' = e_others env n d)\<^sup>*\<^sup>* (w_db w) (w_db w')"

interpretation others_only: effect_order "others_only env" for env
  by unfold_locales (auto simp: others_only_def)

lemma others_only_connection [effects]: "effect (others_only env) (execute env Connection m)"
proof (rule effectI)
  fix w r w'
  assume "execute env Connection m w = (r, w')"
  then have "w_db w' = e_others env (w_tick w) (w_db w)"
    by (auto simp: txn_call_def Let_def split: txn.splits option.splits prod.splits sum.splits)
  then show "others_only env w w'" unfolding others_only_def by blast
qed

lemma connection_statements [txn_sim]:
  assumes "env_ok env" and "\<And>n. e_fault env n = None"
  shows "in_txn env (execute env Connection (spawn_task (e_pg env) q name params opts))
      (execute env Pool (spawn_task (e_pg env) q name params opts))"
    and "in_txn env (execute env Connection (cancel_task (e_pg env) q tid))
      (execute env Pool (cancel_task (e_pg env) q tid))"
    and "in_txn env (execute env Connection (retry_task (e_pg env) q tid))
      (execute env Pool (retry_task (e_pg env) q tid))"
    and "in_txn env (execute env Connection (get_task_result (e_pg env) q tid))
      (execute env Pool (get_task_result (e_pg env) q tid))"
proof -
  have pg: "inj (pg_uuid (e_pg env))" "pg_nonneg (e_pg env)" using assms(1) by (simp_all add: env_ok_def pg_ok_def)
  have read: "d' = d" if "get_task_result (e_pg env) q tid d = (Inr x, d')" for d x d'
    using that by (auto simp: get_task_result_def sql_steps eseq_Inr_iff esm_Inr_iff query_def
        sql_validate_queue_name_success split: option.splits)
  show "in_txn env (execute env Connection (spawn_task (e_pg env) q name params opts))
      (execute env Pool (spawn_task (e_pg env) q name params opts))"
    by (rule in_txn_execute [OF assms]) (blast intro: spawn_task_inv pg)
  show "in_txn env (execute env Connection (cancel_task (e_pg env) q tid))
      (execute env Pool (cancel_task (e_pg env) q tid))"
    by (rule in_txn_execute [OF assms]) (blast intro: cancel_task_inv)
  show "in_txn env (execute env Connection (retry_task (e_pg env) q tid))
      (execute env Pool (retry_task (e_pg env) q tid))"
    by (rule in_txn_execute [OF assms]) (blast intro: retry_task_inv pg)
  show "in_txn env (execute env Connection (get_task_result (e_pg env) q tid))
      (execute env Pool (get_task_result (e_pg env) q tid))"
    by (rule in_txn_execute [OF assms]) (auto dest: read)
qed

lemma ensure_sim [txn_sim]:
  assumes "env_ok env" and "\<And>n. e_fault env n = None"
  shows "in_txn env (ensure_task_ref_with env queue name tid Connection)
    (ensure_task_ref_with env queue name tid Pool)"
  unfolding ensure_task_ref_with_def fetch_task_result_snapshot_with_def
  by (intro txn_sim assms)

text \<open>The operations on a caller's transaction, next to their pool counterparts.\<close>

lemma transactional_sims:
  assumes "env_ok env" and "\<And>n. e_fault env n = None"
  shows "in_txn env (Spawn_submit env ser b) (Spawn_into_future env ser b)"
    and "in_txn env (handle_cancel_in env h) (handle_cancel env h)"
    and "in_txn env (handle_retry_in env h) (handle_retry env h)"
  unfolding Spawn_submit_def Spawn_into_future_def spawn_typed_with_def spawn_serialized_with_def
    handle_cancel_in_def handle_cancel_def handle_cancel_with_def cancel_task_with_def
    handle_retry_in_def handle_retry_def handle_retry_with_def retry_task_with_def
  by (intro txn_sim assms)+

lemma transactional_frames:
  "effect (others_only env) (Spawn_submit env ser b)"
  "effect (others_only env) (handle_cancel_in env h)"
  "effect (others_only env) (handle_retry_in env h)"
  unfolding Spawn_submit_def spawn_typed_with_def spawn_serialized_with_def
    handle_cancel_in_def handle_cancel_with_def cancel_task_with_def handle_retry_in_def
    handle_retry_with_def retry_task_with_def ensure_task_ref_with_def fetch_task_result_snapshot_with_def
  by (intro effects)+

definition same_in_txn :: "env \<Rightarrow> db \<Rightarrow> world \<Rightarrow> 'a rust \<Rightarrow> 'a rust \<Rightarrow> bool" where
  "same_in_txn env d w m k \<longleftrightarrow>
     fst (m w) = fst (k (w\<lparr>w_db := d\<rparr>))
   \<and> (\<forall>x. fst (m w) = Inr x \<longrightarrow> w_txn (snd (m w)) = Open (w_db (snd (k (w\<lparr>w_db := d\<rparr>)))))
   \<and> others_only env w (snd (m w))"

lemma same_in_txnI:
  assumes "in_txn env m k" and "effect (others_only env) m"
    and "w_txn w = Open d" and "db_inv (e_pg env) d"
  shows "same_in_txn env d w m k"
proof -
  have v: "w_txn w = Open (w_db (w\<lparr>w_db := d\<rparr>))" "w_tick w = w_tick (w\<lparr>w_db := d\<rparr>)"
    "db_inv (e_pg env) (w_db (w\<lparr>w_db := d\<rparr>))"
    using assms(3,4) by simp_all
  have "fst (m w) = fst (k (w\<lparr>w_db := d\<rparr>)) \<and> (\<forall>x. fst (k (w\<lparr>w_db := d\<rparr>)) = Inr x \<longrightarrow>
      w_txn (snd (m w)) = Open (w_db (snd (k (w\<lparr>w_db := d\<rparr>)))))"
    using assms(1) v unfolding in_txn_def by blast
  moreover have "others_only env w (snd (m w))"
    using assms(2) by (rule effectD) (rule prod.collapse [symmetric])
  ultimately show ?thesis by (simp add: same_in_txn_def)
qed

text \<open>\<^bold>\<open>C13.\<close> Working inside the caller's transaction is the same operation, only not yet committed:
  submitting, cancelling and retrying through an open transaction, whose statements see what other
  sessions commit in between, give exactly the answer, error or value, that the pooled operation gives
  among the same sessions on a database equal to what the transaction sees, leave the transaction seeing
  exactly the database that operation would have left, and change nothing of the committed database
  themselves: only the other sessions do.\<close>

theorem transactional_operations_refine_pooled:
  assumes "env_ok env" and "\<And>n. e_fault env n = None" and "w_txn w = Open d" and "db_inv (e_pg env) d"
  shows "same_in_txn env d w (Spawn_submit env ser b) (Spawn_into_future env ser b)
    \<and> same_in_txn env d w (handle_cancel_in env h) (handle_cancel env h)
    \<and> same_in_txn env d w (handle_retry_in env h) (handle_retry env h)"
  using transactional_sims [OF assms(1,2)] transactional_frames assms(3,4) by (blast intro: same_in_txnI)

theorem transactional_operations_refine_pooled_witness:
  "same_in_txn (quiet exact_pg) demo_created ((world_of demo_created)\<lparr>w_txn := Open demo_created\<rparr>)
    (Spawn_submit (quiet exact_pg) int_ser demo_builder) (Spawn_into_future (quiet exact_pg) int_ser demo_builder)"
  using transactional_operations_refine_pooled [of "quiet exact_pg"
      "(world_of demo_created)\<lparr>w_txn := Open demo_created\<rparr>" demo_created int_ser demo_builder
      "TaskHandle_new \<lparr>Queue_name = ''q'', Queue_execution = ()\<rparr> (Task_new ''mail'') 0"]
    quiet_ok [OF exact_pg_ok] demo_inv by simp

end
