(* ===== verification/LeaseProperties.thy ===== *)
theory LeaseProperties
  imports ClaimProperties
begin

section \<open>A live lease protects its attempt\<close>

text \<open>
  What the other sessions of \<open>sql/steda.sql\<close> can do to an attempt whose lease has not expired: they may
  cancel its task or drop its queue, but neither a claim, nor the reaping of expired leases, nor the
  control of any other run takes the attempt from its worker. Database time is assumed not to run
  backwards.
\<close>

subsection \<open>Holding a lease\<close>

definition lease_held :: "store \<Rightarrow> uuid \<Rightarrow> uuid \<Rightarrow> string \<Rightarrow> int \<Rightarrow> bool" where
  "lease_held s i tid who l \<longleftrightarrow>
     (\<exists>r t l'. running_attempt s i r t l' \<and> l \<le> l' \<and> r_task_id r = tid \<and> r_claimed_by r = Some who)"

definition task_gone :: "store \<Rightarrow> uuid \<Rightarrow> bool" where
  "task_gone s tid \<longleftrightarrow> (\<forall>t\<in>set (tasks s). t_id t = tid \<longrightarrow> t_state t = Cancelled)"

definition lease_kept :: "pg \<Rightarrow> string \<Rightarrow> uuid \<Rightarrow> uuid \<Rightarrow> string \<Rightarrow> int \<Rightarrow> db \<Rightarrow> bool" where
  "lease_kept pg q i tid who l db \<longleftrightarrow>
     l \<le> pg_clock pg (seq db) \<or> task_gone (store_at q db) tid \<or> lease_held (store_at q db) i tid who l"

text \<open>The state a proof about one call starts from and ends in.\<close>

definition lease_state :: "pg \<Rightarrow> string \<Rightarrow> uuid \<Rightarrow> uuid \<Rightarrow> string \<Rightarrow> int \<Rightarrow> db \<Rightarrow> bool" where
  "lease_state pg q i tid who l db \<longleftrightarrow>
     db_inv pg db \<and> drawn pg (seq db) tid \<and> lease_kept pg q i tid who l db"

text \<open>The rows of an attempt, unchanged.\<close>

definition rows_kept :: "run_row \<Rightarrow> task_row \<Rightarrow> store \<Rightarrow> bool" where
  "rows_kept r t s \<longleftrightarrow> r \<in> set (runs s) \<and> t \<in> set (tasks s)"

lemma store_atD: "map_of (storage db) q = Some s \<Longrightarrow> store_at q db = s"
  by (simp add: store_at_def)

lemma store_at_inv:
  assumes "db_inv pg db" and "r \<in> set (runs (store_at q db))"
  shows "store_inv pg (seq db) (store_at q db)"
proof (cases "map_of (storage db) q")
  case None
  then show ?thesis using assms(2) by (simp add: store_at_def empty_store_def)
next
  case (Some s)
  then show ?thesis using db_inv_store [OF assms(1) Some] by (simp add: store_at_def)
qed

lemma running_attempt_kept:
  assumes "store_inv pg n s'" and "running_attempt s i r t l" and "r \<in> set (runs s')" and "t \<in> set (tasks s')"
  shows "running_attempt s' i r t l"
proof -
  note a = running_attemptD [OF assms(2)]
  have "find_row r_id i (runs s') = Some r" "find_row t_id (r_task_id r) (tasks s') = Some t"
    using assms(1,3,4) a by (simp_all add: find_row_eq_Some store_inv_def store_ok_iff)
  then show ?thesis using assms(2) by (simp add: running_attempt_def)
qed

lemma task_gone_evolves:
  assumes "db_evolves pg db db'" and "drawn pg (seq db) tid" and "task_gone (store_at q db) tid"
  shows "task_gone (store_at q db') tid"
  unfolding task_gone_def
proof (intro ballI impI)
  fix t' assume t': "t' \<in> set (tasks (store_at q db'))" "t_id t' = tid"
  then obtain t where "t \<in> set (tasks (store_at q db))" "task_evolves t t'"
    using assms(1,2) unfolding db_evolves_def store_evolves_def by metis
  then show "t_state t' = Cancelled" using assms(3) t'(2) by (auto simp: task_gone_def task_evolves_def)
qed

text \<open>A call keeps the state when, of a live lease, it leaves the rows, or cancels the task, or renews.\<close>

lemma lease_state_call:
  assumes st: "lease_state pg q i tid who l db" and mono: "mono (pg_clock pg)"
    and inv: "db_inv pg db'" and ev: "db_evolves pg db db'"
    and live: "\<And>r t l'. pg_clock pg (seq db) < l \<Longrightarrow> l \<le> l' \<Longrightarrow> running_attempt (store_at q db) i r t l' \<Longrightarrow>
      r_task_id r = tid \<Longrightarrow> r_claimed_by r = Some who \<Longrightarrow>
      rows_kept r t (store_at q db') \<or> task_gone (store_at q db') tid \<or> lease_held (store_at q db') i tid who l"
  shows "lease_state pg q i tid who l db'"
proof -
  have seq: "seq db \<le> seq db'" using ev by (simp add: db_evolves_def)
  have drawn: "drawn pg (seq db') tid"
    using st seq unfolding lease_state_def drawn_def by (meson image_mono lessThan_subset_iff subsetD)
  have "lease_kept pg q i tid who l db'"
  proof (cases "l \<le> pg_clock pg (seq db) \<or> task_gone (store_at q db) tid")
    case True
    then show ?thesis using monoD [OF mono seq] task_gone_evolves [OF ev] st
      by (auto simp: lease_kept_def lease_state_def)
  next
    case False
    then obtain r t l' where a: "running_attempt (store_at q db) i r t l'" "l \<le> l'" "r_task_id r = tid"
      "r_claimed_by r = Some who"
      using st by (auto simp: lease_state_def lease_kept_def lease_held_def)
    consider "r \<in> set (runs (store_at q db'))" "t \<in> set (tasks (store_at q db'))"
      | "task_gone (store_at q db') tid \<or> lease_held (store_at q db') i tid who l"
      using live [OF _ a(2,1,3,4)] False by (force simp: rows_kept_def)
    then show ?thesis
    proof cases
      case 1
      have "running_attempt (store_at q db') i r t l'"
        by (rule running_attempt_kept [OF store_at_inv [OF inv 1(1)] a(1) 1])
      then show ?thesis using a by (auto simp: lease_kept_def lease_held_def)
    qed (simp add: lease_kept_def)
  qed
  then show ?thesis using inv drawn by (simp add: lease_state_def)
qed

lemma lease_state_same:
  assumes "lease_state pg q i tid who l db" and "mono (pg_clock pg)" and "db_inv pg db'"
    and "db_evolves pg db db'" and "store_at q db' = store_at q db"
  shows "lease_state pg q i tid who l db'"
  by (rule lease_state_call [OF assms(1-4)]) (auto simp: assms(5) rows_kept_def dest: running_attemptD)


lemma lease_seq:
  assumes st: "lease_state pg q i tid who l db" and mono: "mono (pg_clock pg)" and seq: "seq db \<le> n"
  shows "lease_state pg q i tid who l (db\<lparr>seq := n\<rparr>)"
  using db_inv_tick [of pg db n] st seq
  by (intro lease_state_same [OF st mono _ db_evolves_seq [OF seq]]) (simp_all add: lease_state_def)

lemma lease_tick: "lease_state pg q i tid who l db \<Longrightarrow> mono (pg_clock pg) \<Longrightarrow> lease_state pg q i tid who l (tick db)"
  using lease_seq [of pg q i tid who l db "Suc (seq db)"] by (simp add: tick_def)

subsection \<open>Calls of other sessions\<close>

text \<open>Rows of other attempts survive every transition of a run.\<close>

lemma kept_update: "x \<in> set xs \<Longrightarrow> \<not> P x \<Longrightarrow> x \<in> set (update_where P f xs)"
  by (force simp: update_where_def)

lemma rows_kept_cancelled:
  assumes "rows_kept r t s" "t_id t \<noteq> tid" "r_task_id r \<noteq> tid"
  shows "rows_kept r t (cancelled_store now tid s)"
  using assms by (simp add: rows_kept_def cancelled_store_def kept_update)

lemma rows_kept_transitions:
  assumes "rows_kept r t s" "t_id t \<noteq> tid" "r_task_id r \<noteq> tid" "r_id r \<noteq> j"
  shows "rows_kept r t (completed_store now j tid res s)"
    and "rows_kept r t (suspended_store wake j tid s)"
    and "rows_kept r t (exhausted_store now j reason tid a s)"
    and "rows_kept r t (retried_store now j reason tid a st avail fresh s)"
    and "rows_kept r t (failed_store now j reason s)"
    and "rows_kept r t (renewed_store j until s)"
  using assms
  by (simp_all add: rows_kept_def completed_store_def suspended_store_def exhausted_store_def
      retried_store_def failed_store_def renewed_store_def kept_update)

lemma cancelled_gone: "task_gone (cancelled_store now tid s) tid"
  unfolding task_gone_def
proof (intro ballI impI)
  fix t assume t: "t \<in> set (tasks (cancelled_store now tid s))" "t_id t = tid"
  from t(1) have "t \<in> (\<lambda>u. if t_id u = tid then mark_cancelled now u else u) ` set (tasks s)"
    by (simp add: cancelled_store_def update_where_def)
  then obtain u where u: "t = (if t_id u = tid then mark_cancelled now u else u)" by blast
  show "t_state t = Cancelled" using t(2) unfolding u by (cases "t_id u = tid") (simp_all add: mark_cancelled_def)
qed

lemma lease_cancel:
  assumes st: "lease_state pg q i tid who l db" and mono: "mono (pg_clock pg)"
    and run: "cancel_task pg p tid' db = (Inr b, db')"
  shows "lease_state pg q i tid who l db'"
proof -
  have inv: "db_inv pg db" using st by (simp add: lease_state_def)
  from run show ?thesis
  proof (rule cancel_task_found)
    fix s t
    assume a: "queue_name_ok pg p" "map_of (storage db) p = Some s" "find_row t_id tid' (tasks s) = Some t"
    have ok: "store_ok pg s" using db_inv_store [OF inv a(2)] by (simp add: store_inv_def)
    note eval = run [unfolded cancel_task_eval [OF a(1,2) ok a(3)]]
    show ?thesis
    proof (rule lease_state_call [OF st mono cancel_task_inv [OF inv run] cancel_task_evolves [OF inv run]])
      fix r t l'
      assume att: "running_attempt (store_at q db) i r t l'" "r_task_id r = tid"
      have "rows_kept r t (store_at q db')" if "p = q \<Longrightarrow> tid' \<noteq> tid"
        using eval that att(2) running_attemptD [OF att(1)] store_atD [OF a(2)] rows_kept_cancelled [of r t s tid']
        by (auto simp: store_at_put rows_kept_def split: if_splits)
      moreover have "task_gone (store_at q db') tid \<or> rows_kept r t (store_at q db')" if "p = q" "tid' = tid"
        using eval that running_attemptD [OF att(1)] cancelled_gone
        by (auto simp: store_at_put rows_kept_def split: if_splits)
      ultimately show "rows_kept r t (store_at q db') \<or> task_gone (store_at q db') tid
          \<or> lease_held (store_at q db') i tid who l"
        by blast
    qed
  qed
qed


text \<open>A call on run \<open>j\<close> of task \<open>tid'\<close> in queue \<open>p\<close>.\<close>

definition other_rows_kept :: "string \<Rightarrow> store \<Rightarrow> uuid \<Rightarrow> uuid \<Rightarrow> db \<Rightarrow> db \<Rightarrow> bool" where
  "other_rows_kept p s j tid' db db' \<longleftrightarrow>
     (\<exists>s' d. db' = put_store p s' d \<and> storage d = storage db \<and>
       (\<forall>r t. rows_kept r t s \<and> t_id t \<noteq> tid' \<and> r_task_id r \<noteq> tid' \<and> r_id r \<noteq> j \<longrightarrow> rows_kept r t s'))"

lemma other_rows_keptI:
  "storage d = storage db \<Longrightarrow> (\<And>r t. rows_kept r t s \<Longrightarrow> t_id t \<noteq> tid' \<Longrightarrow> r_task_id r \<noteq> tid' \<Longrightarrow> r_id r \<noteq> j \<Longrightarrow>
    rows_kept r t s') \<Longrightarrow> other_rows_kept p s j tid' db (put_store p s' d)"
  unfolding other_rows_kept_def by blast

lemma other_rows_kept_transitions [simp]:
  assumes "storage d = storage db"
  shows "other_rows_kept p s j tid' db (put_store p (completed_store now j tid' res s) d)"
    and "other_rows_kept p s j tid' db (put_store p (suspended_store wake j tid' s) d)"
    and "other_rows_kept p s j tid' db (put_store p (exhausted_store now j reason tid' a s) d)"
    and "other_rows_kept p s j tid' db (put_store p (retried_store now j reason tid' a st avail fresh s) d)"
    and "other_rows_kept p s j tid' db (put_store p (cancelled_store now tid' s) d)"
    and "other_rows_kept p s j tid' db (put_store p (cancelled_store now tid' (failed_store now' j reason s)) d)"
    and "other_rows_kept p s j tid' db (put_store p (renewed_store j until s) d)"
  by (intro other_rows_keptI assms rows_kept_cancelled rows_kept_transitions; assumption?)+

text \<open>Such a call leaves the other attempts their leases; it may be the reaper when the lease is not live.\<close>

lemma lease_transition:
  assumes st: "lease_state pg q i tid who l db" and mono: "mono (pg_clock pg)"
    and inv: "db_inv pg db'" and ev: "db_evolves pg db db'"
    and s: "map_of (storage db) p = Some s" and att: "running_attempt s j rj tj lj"
    and other: "p = q \<Longrightarrow> j = i \<Longrightarrow> lj \<le> pg_clock pg (seq db)"
    and kept: "other_rows_kept p s j (r_task_id rj) db db'"
  shows "lease_state pg q i tid who l db'"
proof (rule lease_state_call [OF st mono inv ev])
  fix r t l'
  assume live: "pg_clock pg (seq db) < l" "l \<le> l'" and a: "running_attempt (store_at q db) i r t l'"
  note d = running_attemptD [OF a]
  obtain s' d where db': "db' = put_store p s' d" "storage d = storage db"
    and k: "\<And>r t. rows_kept r t s \<Longrightarrow> t_id t \<noteq> r_task_id rj \<Longrightarrow> r_task_id r \<noteq> r_task_id rj \<Longrightarrow> r_id r \<noteq> j \<Longrightarrow>
      rows_kept r t s'"
    using kept unfolding other_rows_kept_def by blast
  have at: "store_at q db' = (if p = q then s' else store_at q db)"
    using db' by (simp add: store_at_put) (simp add: store_at_def)
  have "rows_kept r t (store_at q db')"
  proof (cases "p = q")
    case True
    then have sq: "store_at q db = s" using store_atD [OF s] by simp
    have "j \<noteq> i" using other True live a att sq by (auto simp: running_attempt_def)
    moreover have "r_task_id rj \<noteq> r_task_id r" using a att sq calculation by (auto simp: running_attempt_def)
    ultimately show ?thesis using k [of r t] running_attemptD [OF a] sq at True by (auto simp: rows_kept_def)
  next
    case False
    then show ?thesis using running_attemptD [OF a] at by (simp add: rows_kept_def)
  qed
  then show "rows_kept r t (store_at q db') \<or> task_gone (store_at q db') tid
      \<or> lease_held (store_at q db') i tid who l"
    by blast
qed

lemma lease_complete:
  assumes st: "lease_state pg q i tid who l db" and mono: "mono (pg_clock pg)" and j: "j \<noteq> i"
    and run: "complete_run pg p j res db = (Inr b, db')"
  shows "lease_state pg q i tid who l db'"
proof -
  have inv: "db_inv pg db" using st by (simp add: lease_state_def)
  from run obtain x d where lock: "lock_running_attempt pg p j False db = (Inr x, d)"
    by (auto simp: complete_run_def ebind_Inr_iff)
  from lock inv show ?thesis
  proof (rule attempt_success)
    fix s r t lease
    assume a: "queue_name_ok pg p" "map_of (storage db) p = Some s" "running_attempt s j r t lease"
      "False = (lease \<le> pg_clock pg (seq db))"
    have live: "pg_clock pg (seq db) < lease" using a(4) by simp
    have "other_rows_kept p s j (r_task_id r) db db'"
      using run unfolding complete_run_eval [OF inv a(1-3) live] by (auto split: sum.splits bool.splits)
    then show ?thesis
      using lease_transition [OF st mono complete_run_inv [OF inv run] complete_run_evolves [OF inv run] a(2,3)]
        j by blast
  qed
qed

lemma lease_schedule:
  assumes st: "lease_state pg q i tid who l db" and mono: "mono (pg_clock pg)" and j: "j \<noteq> i"
    and run: "schedule_run pg p j wake db = (Inr b, db')"
  shows "lease_state pg q i tid who l db'"
proof -
  have inv: "db_inv pg db" using st by (simp add: lease_state_def)
  from run obtain x d where lock: "lock_running_attempt pg p j False db = (Inr x, d)"
    by (auto simp: schedule_run_def ebind_Inr_iff)
  from lock inv show ?thesis
  proof (rule attempt_success)
    fix s r t lease
    assume a: "queue_name_ok pg p" "map_of (storage db) p = Some s" "running_attempt s j r t lease"
      "False = (lease \<le> pg_clock pg (seq db))"
    have live: "pg_clock pg (seq db) < lease" using a(4) by simp
    note ends = schedule_run_inv [OF inv run] schedule_run_evolves [OF inv run]
    show ?thesis
    proof (cases "db' = tick db")
      case True
      then show ?thesis using lease_state_same [OF st mono ends] by simp
    next
      case False
      then have "other_rows_kept p s j (r_task_id r) db db'"
        using run unfolding schedule_run_eval [OF inv a(1-3) live]
        by (auto split: sum.splits bool.splits if_splits)
      then show ?thesis using lease_transition [OF st mono ends a(2,3)] j by blast
    qed
  qed
qed

text \<open>The reaper's \<open>fail_run\<close> expects an expired lease.\<close>

lemma lease_fail:
  assumes st: "lease_state pg q i tid who l db" and mono: "mono (pg_clock pg)" and inj: "inj (pg_uuid pg)"
    and j: "j \<noteq> i \<or> expired" and run: "fail_run pg p j reason expired db = (Inr b, db')"
  shows "lease_state pg q i tid who l db'"
proof -
  have inv: "db_inv pg db" using st by (simp add: lease_state_def)
  from run obtain x d where lock: "lock_running_attempt pg p j expired db = (Inr x, d)"
    by (auto simp: fail_run_def ebind_Inr_iff)
  from lock inv show ?thesis
  proof (rule attempt_success)
    fix s r t lease
    assume a: "queue_name_ok pg p" "map_of (storage db) p = Some s" "running_attempt s j r t lease"
      "expired = (lease \<le> pg_clock pg (seq db))"
    have "other_rows_kept p s j (r_task_id r) db db'"
      using run unfolding fail_run_eval [OF inv inj a(1-4)] by (auto split: sum.splits bool.splits if_splits)
    then show ?thesis
      using lease_transition [OF st mono fail_run_inv [OF inv inj run] fail_run_evolves [OF inv inj run] a(2,3)]
        j a(4) by blast
  qed
qed


lemma lease_reap:
  assumes st: "lease_state pg q i tid who l db" and mono: "mono (pg_clock pg)" and inj: "inj (pg_uuid pg)"
    and run: "reap_expired_run pg p j db = (Inr b, db')"
  shows "lease_state pg q i tid who l db'"
proof -
  from run obtain x d where lock: "lock_attempt_context pg p j db = (Inr x, d)"
    by (auto simp: reap_expired_run_def ebind_Inr_iff)
  then have d: "d = tick db" by (rule lock_attempt_context_success)
  from run lock have "db' = d \<or> (\<exists>reason. fail_run pg p j reason True d = (Inr (), db'))"
    by (auto simp: reap_expired_run_def ebind_Inr_iff eseq_Inr_iff esm_Inr_iff split: option.splits if_splits)
  then show ?thesis using lease_tick [OF st mono] lease_fail [OF lease_tick [OF st mono] mono inj, of j True p] d
    by auto
qed

lemma lease_loop:
  assumes "\<And>x d b d'. lease_state pg q i tid who l d \<Longrightarrow> f x d = (Inr b, d') \<Longrightarrow> lease_state pg q i tid who l d'"
    and "lease_state pg q i tid who l db" and "ecount f xs db = (Inr n, db')"
  shows "lease_state pg q i tid who l db'"
proof -
  have "establishes (lease_state pg q i tid who l) (ecount f xs) (\<lambda>_. lease_state pg q i tid who l)"
    by (intro establishes_ecount establishesI) (rule assms(1))
  from establishesD [OF this assms(2,3)] show ?thesis .
qed

lemma lease_maintenance:
  assumes st: "lease_state pg q i tid who l db" and mono: "mono (pg_clock pg)" and inj: "inj (pg_uuid pg)"
    and run: "claim_maintained pg p k db d"
  shows "lease_state pg q i tid who l d"
proof -
  from run obtain n m d1 d2 where d1: "cancel_expired_tasks pg p k (tick db) = (Inr n, d1)"
    and d2: "reap_expired_runs pg p k d1 = (Inr m, d2)" and d: "d = tick d2"
    unfolding claim_maintained_def by blast
  from d1 obtain xs where "ecount (cancel_task pg p) xs (tick (tick db)) = (Inr n, d1)"
    unfolding cancel_expired_tasks_def locked_rows_def scanned_rows_def by (auto simp: sql_steps validate_step tick_def)
  with lease_loop [where f = "cancel_task pg p"] have 1: "lease_state pg q i tid who l d1"
    using lease_cancel [OF _ mono] lease_tick [OF lease_tick [OF st mono] mono] by blast
  from d2 obtain ys where "ecount (reap_expired_run pg p) ys (tick d1) = (Inr m, d2)"
    unfolding reap_expired_runs_def locked_rows_def scanned_rows_def by (auto simp: sql_steps validate_step tick_def)
  with lease_loop [where f = "reap_expired_run pg p"] have "lease_state pg q i tid who l d2"
    using lease_reap [OF _ mono inj] lease_tick [OF 1 mono] by blast
  then show ?thesis unfolding d using mono by (rule lease_tick)
qed

text \<open>A claim takes only runs that are not running.\<close>

lemma rows_kept_claimed:
  assumes inv: "store_inv pg n s" and c: "candidate_runs now k names locked scans s = Inr cs"
    and att: "running_attempt s i r t l"
  shows "rows_kept r t (claimed_store worker expires now cs s)"
proof -
  have ok: "store_ok pg s" using inv by (simp add: store_inv_def)
  note facts = candidate_runs_facts(3) [OF ok c] and a = running_attemptD [OF att]
  have st: "r_state r = Running" "t_state t = Running" using att by (simp_all add: running_attempt_def)
  have "r_id r \<notin> set (map (\<lambda>(r, t). r_id r) cs)"
  proof
    assume "r_id r \<in> set (map (\<lambda>(r, t). r_id r) cs)"
    then obtain r' t' where c: "(r', t') \<in> set cs" "r_id r' = r_id r" by auto
    then have "r' = r" using facts [OF c(1)] a(1) store_inv_run_unique [OF inv] by metis
    then show False using facts [OF c(1)] st by (simp add: claimable_def)
  qed
  moreover have "t_id t \<notin> set (map (\<lambda>(r, t). r_task_id r) cs)"
  proof
    assume "t_id t \<in> set (map (\<lambda>(r, t). r_task_id r) cs)"
    then obtain r' t' where c: "(r', t') \<in> set cs" "r_task_id r' = t_id t" by auto
    then have "t' = t" using facts [OF c(1)] a(3) store_inv_task_unique [OF inv] by metis
    then show False using facts [OF c(1)] st by (simp add: claimable_def)
  qed
  ultimately show ?thesis using a by (simp add: rows_kept_def claimed_store_def kept_update del: set_map)
qed


text \<open>A call that rewrites the tables of one queue without touching running attempts.\<close>

lemma lease_put:
  assumes st: "lease_state pg q i tid who l db" and mono: "mono (pg_clock pg)"
    and inv: "db_inv pg db'" and ev: "db_evolves pg db db'"
    and s: "map_of (storage db) p = Some s" and db': "db' = put_store p s' d" "storage d = storage db"
    and kept: "\<And>r t l'. running_attempt s i r t l' \<Longrightarrow> rows_kept r t s'"
  shows "lease_state pg q i tid who l db'"
proof (rule lease_state_call [OF st mono inv ev])
  fix r t l'
  assume a: "running_attempt (store_at q db) i r t l'"
  have at: "store_at q db' = (if p = q then s' else store_at q db)"
    using db' by (simp add: store_at_put) (simp add: store_at_def)
  show "rows_kept r t (store_at q db') \<or> task_gone (store_at q db') tid \<or> lease_held (store_at q db') i tid who l"
    using a kept running_attemptD [OF a] store_atD [OF s] at by (auto simp: rows_kept_def)
qed

lemma lease_claim:
  assumes st: "lease_state pg q i tid who l db" and mono: "mono (pg_clock pg)" and inj: "inj (pg_uuid pg)"
    and run: "claim_tasks pg p worker lease k names db = (Inr xs, db')"
  shows "lease_state pg q i tid who l db'"
  using run
proof (rule claim_tasks_success)
  fix d
  assume m: "claim_maintained pg p k db d" and w: "\<not> pg_blank pg worker"
    and c: "claim_statement pg p worker (pg_clock pg (seq d - 1) + lease * 1000000)
      (pg_clock pg (seq d - 1)) k names d = (Inr xs, db')"
  have std: "lease_state pg q i tid who l d" by (rule lease_maintenance [OF st mono inj m])
  then have inv: "db_inv pg d" by (simp add: lease_state_def)
  from c obtain s where s: "map_of (storage d) p = Some s"
    unfolding claim_statement_def locked_rows_def scanned_rows_def by (auto simp: sql_steps)
  obtain cs where cs: "candidate_runs (pg_clock pg (seq d - 1)) k names (pg_locked pg (seq d)) (pg_scans pg (seq d)) s = Inr cs"
    and db': "db' = put_store p (claimed_store worker (pg_clock pg (seq d - 1) + lease * 1000000)
      (pg_clock pg (seq d - 1)) cs s) d"
    using c unfolding claim_statement_eval [OF inv s w] by (auto split: sum.splits)
  show ?thesis
    by (rule lease_put [OF std mono claim_statement_inv [OF inv w c] claim_statement_evolves [OF inv w c] s db'])
      (use rows_kept_claimed [OF db_inv_store [OF inv s] cs] in simp_all)
qed

lemma lease_checkpoint:
  assumes st: "lease_state pg q i tid who l db" and mono: "mono (pg_clock pg)"
    and run: "set_task_checkpoint_state pg p tid' name v j db = (Inr (x, b), db')"
  shows "lease_state pg q i tid who l db'"
proof -
  have inv: "db_inv pg db" using st by (simp add: lease_state_def)
  note ends = set_checkpoint_inv [OF inv run] set_checkpoint_evolves [OF inv run]
  from inv run show ?thesis
  proof (rule checkpoint_call)
    fix s
    assume s: "map_of (storage db) p = Some s"
      "db' = (if b then put_store p (put_checkpoint (tid', name) v s) (tick db) else tick db)"
    show ?thesis
    proof (cases b)
      case True
      then show ?thesis using s
        by (intro lease_put [OF st mono ends s(1), of _ "tick db"])
          (auto simp: rows_kept_def put_checkpoint_def dest: running_attemptD)
    next
      case False
      then show ?thesis using s lease_tick [OF st mono] by simp
    qed
  qed
qed


lemma renewed_held:
  assumes att: "running_attempt s i r t l'" "l \<le> l'" "r_task_id r = tid"
    "r_claimed_by r = Some who"
  shows "lease_held (renewed_store i until s) i tid who l"
proof -
  let ?r = "renew_run until r"
  have "running_attempt (renewed_store i until s) i ?r t (max l' until)" using att(1) by (rule renewed_attempt)
  moreover have "r_task_id ?r = tid" "r_claimed_by ?r = Some who" "l \<le> max l' until"
    using att(2-4) by (auto simp: renew_run_def)
  ultimately show ?thesis unfolding lease_held_def by blast
qed


lemma lease_renew:
  assumes st: "lease_state pg q i tid who l db" and mono: "mono (pg_clock pg)"
    and inv: "db_inv pg db'" and ev: "db_evolves pg db db'"
    and s: "map_of (storage db) p = Some s" and db': "db' = put_store p (renewed_store j until s) (tick db)"
  shows "lease_state pg q i tid who l db'"
proof (rule lease_state_call [OF st mono inv ev])
  fix r t l'
  assume a: "l \<le> l'" "running_attempt (store_at q db) i r t l'" "r_task_id r = tid" "r_claimed_by r = Some who"
  note d = running_attemptD [OF a(2)]
  show "rows_kept r t (store_at q db') \<or> task_gone (store_at q db') tid \<or> lease_held (store_at q db') i tid who l"
  proof (cases "p = q")
    case False
    then show ?thesis using d db' by (simp add: store_at_put rows_kept_def)
  next
    case True
    then have sq: "store_at q db = s" "store_at q db' = renewed_store j until s"
      using store_atD [OF s] db' by (simp_all add: store_at_put)
    show ?thesis
    proof (cases "j = i")
      case True
      then show ?thesis using renewed_held a sq by simp
    next
      case False
      then have "rows_kept r t (renewed_store j until s)" using d sq(1)
        by (simp add: rows_kept_def renewed_store_def kept_update)
      then show ?thesis using sq(2) by simp
    qed
  qed
qed

lemma lease_supervise:
  assumes st: "lease_state pg q i tid who l db" and mono: "mono (pg_clock pg)" and inj: "inj (pg_uuid pg)"
    and run: "supervise_run pg p j renew db = (Inr x, db')"
  shows "lease_state pg q i tid who l db'"
proof -
  have inv: "db_inv pg db" using st by (simp add: lease_state_def)
  note ends = supervise_run_inv [OF inv inj run] supervise_run_evolves [OF inv inj run]
  note ticked = lease_tick [OF st mono]
  from run obtain u d where lock: "lock_attempt_context pg p j db = (Inr u, d)"
    unfolding supervise_run_def by (auto simp: sql_steps ebind_Inr_iff)
  from lock show ?thesis
  proof (rule lock_attempt_context_success)
    fix s
    assume s: "map_of (storage db) p = Some s" and d: "d = tick db"
    have "lease_state pg q i tid who l db'"
      if "update_runs pg p (\<lambda>r. r_id r = j) (renew_run until) d = (Inr (), db')" for until
      using that s d by (intro lease_renew [OF st mono ends s])
        (simp add: update_runs_def write_store_success renewed_store_def)
    then show ?thesis
      using supervise_run_cases [OF run lock] ticked lease_cancel [OF ticked mono] lease_reap [OF ticked mono inj] d
      by blast
  qed
qed

lemma lease_retry:
  assumes st: "lease_state pg q i tid who l db" and mono: "mono (pg_clock pg)" and inj: "inj (pg_uuid pg)"
    and run: "retry_task pg p tid' db = (Inr j, db')"
  shows "lease_state pg q i tid who l db'"
proof -
  have inv: "db_inv pg db" using st by (simp add: lease_state_def)
  from run obtain s t where a: "queue_name_ok pg p" "map_of (storage db) p = Some s"
    "find_row t_id tid' (tasks s) = Some t"
    unfolding retry_task_def statement_defs
    by (auto simp: sql_steps validate_step esm_Inr_iff split: option.splits)
  have failed: "t_state t = Failed" and db': "db' = put_store p (reopened_store (pg_clock pg (seq db)) tid'
      (t_attempts t + 1) (pg_uuid pg (Suc (seq db))) s) (tick (tick db))"
    using run unfolding retry_task_eval [OF inv inj a] by (auto split: sum.splits bool.splits if_splits)
  show ?thesis
  proof (rule lease_put [OF st mono retry_task_inv [OF inv inj run] retry_task_evolves [OF inv inj run] a(2) db'])
    fix r t' l'
    assume att: "running_attempt s i r t' l'"
    have "t_id t' \<noteq> tid'" using att a(3) failed running_attemptD [OF att] by (auto simp: running_attempt_def)
    then show "rows_kept r t' (reopened_store (pg_clock pg (seq db)) tid' (t_attempts t + 1)
        (pg_uuid pg (Suc (seq db))) s)"
      using running_attemptD [OF att] by (simp add: rows_kept_def reopened_store_def kept_update)
  qed simp
qed

lemma lease_spawn:
  assumes st: "lease_state pg q i tid who l db" and mono: "mono (pg_clock pg)" and pg: "inj (pg_uuid pg)" "pg_nonneg pg"
    and run: "spawn_task pg p name params opts db = (Inr x, db')"
  shows "lease_state pg q i tid who l db'"
  using run
proof (rule spawn_task_success)
  fix s rq
  assume a: "queue_name_ok pg p" "map_of (storage db) p = Some s" "parse_spawn_request pg name params opts = Inr rq"
  have inv: "db_inv pg db" using st by (simp add: lease_state_def)
  note ends = spawn_task_inv [OF inv pg run] spawn_task_evolves [OF inv pg run]
  consider "db' = tick3 db" | now tid' rid where "db' = put_store p (spawned_store rq tid' rid now s) (tick3 db)"
    using run unfolding spawn_task_eval [OF inv pg a] by (auto split: if_splits option.splits)
  then show ?thesis
  proof cases
    case 1
    then show ?thesis by (intro lease_state_same [OF st mono ends]) (simp add: tick3_def)
  next
    case 2
    then show ?thesis
      by (intro lease_put [OF st mono ends a(2) 2])
        (auto simp: tick3_def rows_kept_def spawned_store_def dest: running_attemptD)
  qed
qed


lemma lease_cleanup_queue:
  assumes st: "lease_state pg q i tid who l db" and mono: "mono (pg_clock pg)"
    and run: "cleanup_tasks pg p db = (Inr n, db')"
  shows "lease_state pg q i tid who l db'"
  using run
proof (rule cleanup_tasks_success)
  fix s r
  assume a: "queue_name_ok pg p" "map_of (storage db) p = Some s" "find_row q_name p (queues db) = Some r"
  have inv: "db_inv pg db" using st by (simp add: lease_state_def)
  let ?ids = "tasks_to_delete (pg_clock pg (seq db) - q_cleanup_ttl r) (q_cleanup_limit r)
    (pg_locked pg (Suc (seq db))) s"
  have db': "db' = put_store p (delete_tasks ?ids s) (tick db)"
    using run unfolding cleanup_tasks_eval [OF inv a] by simp
  have "distinct (map t_id (tasks s))" using db_inv_store [OF inv a(2)] by (simp add: store_inv_def store_ok_iff)
  note terminal = tasks_to_delete_facts(3) [OF this]
  show ?thesis
  proof (rule lease_put [OF st mono cleanup_tasks_inv [OF inv run] cleanup_tasks_evolves [OF inv run] a(2) db'])
    fix r t l'
    assume att: "running_attempt s i r t l'"
    note d = running_attemptD [OF att]
    have "t_id t \<notin> set ?ids" using terminal [OF d(3)] att by (auto simp: running_attempt_def)
    then show "rows_kept r t (delete_tasks ?ids s)"
      using d by (simp add: rows_kept_def delete_tasks_def set_delete_where)
  qed simp
qed

lemma lease_cleanup_each:
  "lease_state pg q i tid who l db \<Longrightarrow> mono (pg_clock pg) \<Longrightarrow> cleanup_each pg ps db = (Inr x, db') \<Longrightarrow>
    lease_state pg q i tid who l db'"
proof (induction ps arbitrary: db x)
  case (Cons p ps)
  then obtain n d y where d: "cleanup_tasks pg p db = (Inr n, d)" "cleanup_each pg ps d = (Inr y, db')"
    by (auto simp: ebind_Inr_iff esm_Inr_iff)
  show ?case using Cons.IH [OF lease_cleanup_queue [OF Cons.prems(1,2) d(1)] Cons.prems(2) d(2)] .
qed (simp add: esm_Inr_iff)

lemma lease_cleanup:
  assumes "lease_state pg q i tid who l db" and "mono (pg_clock pg)"
    and "cleanup_all_queues pg rq db = (Inr x, db')"
  shows "lease_state pg q i tid who l db'"
proof -
  from assms(3) obtain ps where "cleanup_each pg ps db = (Inr x, db')"
    unfolding cleanup_all_queues_def
    by (auto simp: eseq_Inr_iff ebind_Inr_iff esm_Inr_iff sql_validate_queue_name_success
        split: option.splits)
  with assms(1,2) show ?thesis by (rule lease_cleanup_each)
qed

text \<open>Creating a queue and changing its policy leave the tables; dropping it removes them.\<close>

lemma lease_lifecycle:
  assumes st: "lease_state pg q i tid who l db" and mono: "mono (pg_clock pg)"
  shows "create_queue pg p db = (Inr x, db') \<Longrightarrow> lease_state pg q i tid who l db'"
    and "set_queue_policy pg p ttl limit db = (Inr x, db') \<Longrightarrow> lease_state pg q i tid who l db'"
    and "drop_queue pg p db = (Inr y, db') \<Longrightarrow> lease_state pg q i tid who l db'"
proof -
  have inv: "db_inv pg db" using st by (simp add: lease_state_def)
  show "lease_state pg q i tid who l db'" if run: "create_queue pg p db = (Inr x, db')"
  proof (rule lease_state_same [OF st mono create_queue_inv [OF inv run] create_queue_evolves [OF inv run]])
    have p: "queue_name_ok pg p" using run by (simp add: create_queue_def validate_step)
    show "store_at q db' = store_at q db"
      using run registered_iff_stored [OF inv, of p] unfolding create_queue_eval [OF p]
      by (auto simp: store_at_def split: if_splits)
  qed
  show "lease_state pg q i tid who l db'" if run: "set_queue_policy pg p ttl limit db = (Inr x, db')"
  proof (rule lease_state_same [OF st mono set_queue_policy_inv [OF inv run] set_queue_policy_evolves [OF run]])
    have "storage db' = storage db" using run unfolding set_queue_policy_def Let_def
      by (auto simp: validate_step sql_steps esm_Inr_iff split: if_splits option.splits)
    then show "store_at q db' = store_at q db" by (simp add: store_at_def)
  qed
  show "lease_state pg q i tid who l db'" if run: "drop_queue pg p db = (Inr y, db')"
  proof (rule lease_state_call [OF st mono drop_queue_inv [OF inv run] drop_queue_evolves [OF run]])
    fix r t l'
    assume att: "running_attempt (store_at q db) i r t l'"
    have "store_at q db' = store_at q db \<or> store_at q db' = empty_store"
      using run unfolding drop_queue_def
      by (auto simp: store_at_def delete_conv' validate_step sql_steps esm_Inr_iff split: if_splits option.splits)
    then show "rows_kept r t (store_at q db') \<or> task_gone (store_at q db') tid
        \<or> lease_held (store_at q db') i tid who l"
      using running_attemptD [OF att] by (auto simp: rows_kept_def task_gone_def empty_store_def)
  qed
qed


subsection \<open>Sequences of calls\<close>

lemma lease_txn:
  assumes st: "lease_state pg q i tid who l db" and mono: "mono (pg_clock pg)" and adv: "advances m"
    and ok: "\<And>x d. m db = (Inr x, d) \<Longrightarrow> lease_state pg q i tid who l d"
    and run: "run_txn m db = (y, db')"
  shows "lease_state pg q i tid who l db'"
proof -
  obtain x d where m: "m db = (x, d)" by fastforce
  have seq: "seq db \<le> seq d" using adv m by (auto simp: advances_def)
  show ?thesis
  proof (cases x)
    case (Inl e)
    then have db': "db' = db\<lparr>seq := seq d\<rparr>" using run m by (auto simp: run_txn_def)
    show ?thesis unfolding db' using st mono seq by (rule lease_seq)
  next
    case (Inr z)
    then have "lease_state pg q i tid who l d" using ok m by simp
    then have "db_inv pg d" by (simp add: lease_state_def)
    then show ?thesis using run_txn_commits [of m db z d pg] m Inr run \<open>lease_state pg q i tid who l d\<close> by simp
  qed
qed

text \<open>Every call of any session, except the calls with which the holder of run \<open>i\<close> ends or suspends it.\<close>

inductive other_step :: "pg \<Rightarrow> uuid \<Rightarrow> db \<Rightarrow> db \<Rightarrow> bool" for pg :: pg and i :: uuid where
  other_create: "run_txn (create_queue pg p) db = (x, db') \<Longrightarrow> other_step pg i db db'"
| other_drop: "run_txn (drop_queue pg p) db = (x, db') \<Longrightarrow> other_step pg i db db'"
| other_policy: "run_txn (set_queue_policy pg p ttl limit) db = (x, db') \<Longrightarrow> other_step pg i db db'"
| other_spawn: "run_txn (spawn_task pg p name params opts) db = (y, db') \<Longrightarrow> other_step pg i db db'"
| other_claim: "run_txn (claim_tasks pg p worker lease k names) db = (cs, db') \<Longrightarrow> other_step pg i db db'"
| other_complete: "j \<noteq> i \<Longrightarrow> run_txn (complete_run pg p j res) db = (b, db') \<Longrightarrow> other_step pg i db db'"
| other_schedule: "j \<noteq> i \<Longrightarrow> run_txn (schedule_run pg p j wake) db = (w, db') \<Longrightarrow> other_step pg i db db'"
| other_fail: "j \<noteq> i \<or> expired \<Longrightarrow> run_txn (fail_run pg p j reason expired) db = (x, db') \<Longrightarrow> other_step pg i db db'"
| other_cancel: "run_txn (cancel_task pg p tid) db = (b, db') \<Longrightarrow> other_step pg i db db'"
| other_retry: "run_txn (retry_task pg p tid) db = (u, db') \<Longrightarrow> other_step pg i db db'"
| other_supervise: "run_txn (supervise_run pg p j renew) db = (w, db') \<Longrightarrow> other_step pg i db db'"
| other_checkpoint: "run_txn (set_task_checkpoint_state pg p tid name v j) db = (c, db') \<Longrightarrow> other_step pg i db db'"
| other_cleanup: "run_txn (cleanup_all_queues pg rq) db = (n, db') \<Longrightarrow> other_step pg i db db'"
| other_cleanup_queue: "run_txn (cleanup_tasks pg p) db = (n, db') \<Longrightarrow> other_step pg i db db'"
| other_draw: "seq db \<le> n \<Longrightarrow> other_step pg i db (db\<lparr>seq := n\<rparr>)"

lemma other_step_lease:
  assumes step: "other_step pg i db db'" and st: "lease_state pg q i tid who l db"
    and pg: "pg_ok pg" and mono: "mono (pg_clock pg)"
  shows "lease_state pg q i tid who l db'"
proof -
  have inj: "inj (pg_uuid pg)" and nn: "pg_nonneg pg" using pg by (simp_all add: pg_ok_def)
  note txn = lease_txn [OF st mono]
  from step show ?thesis
  proof cases
    case other_create
    show ?thesis by (rule txn [OF advances_lifecycle(1) lease_lifecycle(1) [OF st mono] other_create])
  next
    case other_drop
    show ?thesis by (rule txn [OF advances_lifecycle(2) lease_lifecycle(3) [OF st mono] other_drop])
  next
    case other_policy
    show ?thesis by (rule txn [OF advances_lifecycle(3) lease_lifecycle(2) [OF st mono] other_policy])
  next
    case other_spawn
    show ?thesis by (rule txn [OF advances_spawn lease_spawn [OF st mono inj nn] other_spawn])
  next
    case other_claim
    show ?thesis by (rule txn [OF advances_claim lease_claim [OF st mono inj] other_claim])
  next
    case other_complete
    show ?thesis by (rule txn [OF advances_run_control(1) lease_complete [OF st mono other_complete(1)] other_complete(2)])
  next
    case other_schedule
    show ?thesis by (rule txn [OF advances_run_control(2) lease_schedule [OF st mono other_schedule(1)] other_schedule(2)])
  next
    case other_fail
    show ?thesis by (rule txn [OF advances_fail lease_fail [OF st mono inj other_fail(1)] other_fail(2)])
  next
    case other_cancel
    show ?thesis by (rule txn [OF advances_cancel lease_cancel [OF st mono] other_cancel])
  next
    case other_retry
    show ?thesis by (rule txn [OF advances_run_control(3) lease_retry [OF st mono inj] other_retry])
  next
    case other_supervise
    show ?thesis by (rule txn [OF advances_supervise lease_supervise [OF st mono inj] other_supervise])
  next
    case other_checkpoint
    show ?thesis
      by (rule txn [OF advances_checkpoint _ other_checkpoint]) (metis lease_checkpoint [OF st mono] prod.exhaust)
  next
    case other_cleanup
    show ?thesis by (rule txn [OF advances_cleanup lease_cleanup [OF st mono] other_cleanup])
  next
    case other_cleanup_queue
    show ?thesis by (rule txn [OF advances_cleanup_tasks lease_cleanup_queue [OF st mono] other_cleanup_queue])
  next
    case (other_draw n)
    then show ?thesis using lease_seq [OF st mono] by simp
  qed
qed

interpretation lease_system: transition_system "lease_state pg q i tid who l" "other_step pg i"
    "\<lambda>db. pg_ok pg \<and> mono (pg_clock pg) \<longrightarrow> lease_state pg q i tid who l db" for pg q i tid who l
  by unfold_locales (auto dest: other_step_lease)

lemma lease_survives:
  assumes pg: "pg_ok pg" "mono (pg_clock pg)" and inv: "db_inv pg db"
    and held: "map_of (storage db) q = Some s" "running_attempt s i r t l" "r_claimed_by r = Some who"
    and steps: "(other_step pg i)\<^sup>*\<^sup>* db db'" and live: "pg_clock pg (seq db') < l"
  shows "task_gone (store_at q db') (t_id t) \<or> lease_held (store_at q db') i (t_id t) who l"
proof -
  note a = running_attemptD [OF held(2)]
  have "lease_held (store_at q db) i (t_id t) who l"
    using held a store_atD [OF held(1)] unfolding lease_held_def by auto
  then have "lease_state pg q i (t_id t) who l db"
    using inv drawn_task [OF inv held(1) a(3)] by (simp add: lease_state_def lease_kept_def)
  from lease_system.reachable_good [OF this steps] have "lease_kept pg q i (t_id t) who l db'"
    using pg by (simp add: lease_state_def)
  then show ?thesis using live by (auto simp: lease_kept_def)
qed

lemma lease_held_stored:
  assumes "lease_held (store_at q db) i tid who l"
  obtains s r t l' where "map_of (storage db) q = Some s" "running_attempt s i r t l'" "l \<le> l'" "r_task_id r = tid"
    "r_claimed_by r = Some who"
  using assms by (cases "map_of (storage db) q")
    (auto simp: lease_held_def store_at_def running_attempt_def empty_store_def find_row_def)

lemma lease_outcome:
  assumes pg: "pg_ok pg" "mono (pg_clock pg)" and inv: "db_inv pg db"
    and held: "map_of (storage db) q = Some s" "running_attempt s i r t l" "r_claimed_by r = Some who"
    and steps: "(other_step pg i)\<^sup>*\<^sup>* db db'" and live: "pg_clock pg (seq db') < l"
  shows "(\<exists>s' r' t' l'. map_of (storage db') q = Some s' \<and> running_attempt s' i r' t' l' \<and> l \<le> l'
      \<and> r_task_id r' = t_id t \<and> r_claimed_by r' = Some who)
    \<or> (\<forall>s' t'. map_of (storage db') q = Some s' \<and> t' \<in> set (tasks s') \<and> t_id t' = t_id t \<longrightarrow> t_state t' = Cancelled)"
proof -
  consider "task_gone (store_at q db') (t_id t)" | "lease_held (store_at q db') i (t_id t) who l"
    using lease_survives [OF assms] by blast
  then show ?thesis
  proof cases
    case 1
    then show ?thesis by (auto simp: task_gone_def store_at_def)
  next
    case 2
    then show ?thesis by (rule lease_held_stored) blast
  qed
qed


text \<open>\<^bold>\<open>C4.\<close> A live lease is exclusive: once a worker holds an attempt with a lease until \<open>l\<close>, then whatever
  calls other sessions make, in any order and number (claims, reaping, supervision, control of other
  runs, cleanup, queue administration), as long as the database clock has not reached \<open>l\<close> the same worker
  still holds that attempt as the running authoritative one, unless the task was cancelled or removed
  together with its queue.\<close>

theorem live_lease_is_exclusive:
  assumes pg: "pg_ok pg" "mono (pg_clock pg)" and inv: "db_inv pg db"
    and held: "map_of (storage db) q = Some s" "running_attempt s i r t l" "r_claimed_by r = Some who"
    and steps: "(other_step pg i)\<^sup>*\<^sup>* db db'" and live: "pg_clock pg (seq db') < l"
  shows "(\<exists>s' r' t' l'. map_of (storage db') q = Some s' \<and> running_attempt s' i r' t' l' \<and> l \<le> l'
      \<and> r_task_id r' = t_id t \<and> r_claimed_by r' = Some who)
    \<or> (\<forall>s' t'. map_of (storage db') q = Some s' \<and> t' \<in> set (tasks s') \<and> t_id t' = t_id t \<longrightarrow> t_state t' = Cancelled)"
  using assms by (rule lease_outcome)

lemma exact_pg_mono: "mono (pg_clock exact_pg)"
  by (simp add: exact_pg_def mono_def)

text \<open>A second worker claims while the first one's lease is live.\<close>

definition demo_second_claim :: db where
  "demo_second_claim = snd (run_txn (claim_tasks exact_pg ''q'' ''w2'' 60 10 [''mail'']) demo_claimed)"

theorem live_lease_is_exclusive_witness:
  "(\<exists>s' r' t' l'. map_of (storage demo_second_claim) ''q'' = Some s' \<and> running_attempt s' 1 r' t' l' \<and> 66000000 \<le> l'
      \<and> r_task_id r' = t_id demo_running \<and> r_claimed_by r' = Some ''w1'')
    \<or> (\<forall>s' t'. map_of (storage demo_second_claim) ''q'' = Some s' \<and> t' \<in> set (tasks s') \<and> t_id t' = t_id demo_running
         \<longrightarrow> t_state t' = Cancelled)"
proof (rule live_lease_is_exclusive [OF exact_pg_ok exact_pg_mono demo_inv(3) demo_facts(2,3)])
  show "r_claimed_by demo_run = Some ''w1''" by (simp add: demo_run_def)
  have "other_step exact_pg 1 demo_claimed demo_second_claim"
    unfolding demo_second_claim_def by (rule other_claim [OF prod.collapse [symmetric]])
  then show "(other_step exact_pg 1)\<^sup>*\<^sup>* demo_claimed demo_second_claim" by (rule r_into_rtranclp)
  show "pg_clock exact_pg (seq demo_second_claim) < 66000000" by code_simp
qed

end
