(* ===== verification/EndToEnd.thy ===== *)
theory EndToEnd
  imports Outcomes HandleProperties LeaseProperties
begin

section \<open>From the worker to the waiting client\<close>

text \<open>
  Properties that span the worker's execution of an attempt (\<open>src/executor.rs\<close>), the database functions
  and the client handles (\<open>src/task.rs\<close>): the output a worker reports as completed is the value every
  waiter gets, and the supervision cadence leaves a lease enough room.
\<close>

subsection \<open>Results reach their waiters\<close>

lemma fetch_completed:
  assumes env: "env_ok env" "e_fault env (w_tick c) = None" and inv: "db_inv (e_pg env) (w_db c)"
    and q: "queue_name_ok (e_pg env) q"
    and s: "map_of (storage (e_others env (w_tick c) (w_db c))) q = Some s" and t: "t \<in> set (tasks s)"
    and fin: "t_state t = Completed" "res_result (result_of s t) = Some v"
  shows "fetch_task_result_snapshot env q (t_name t) (t_id t) c = (Inr (Some (Snap_Completed v)), begin_event env c)"
  using fetch_found [OF env inv q s t, of "t_name t"] fin by (simp add: snapshot_of_text_def)


lemma await_terminal:
  assumes "fetch_task_result_snapshot env q name tid c = (Inr (Some snap), c')" and "snapshot_is_terminal snap"
  shows "await_task_result_snapshot env q name tid timeout c = Some (Inr snap, c')"
  unfolding await_task_result_snapshot_def using assms by (subst await_loop.simps) simp

text \<open>The database function that completed a run is the last word on its task.\<close>

lemma completed_output_stays:
  assumes env: "env_ok env" and inv: "db_inv (e_pg env) (w_db w)"
    and claimed: "map_of (storage (w_db w)) q = Some s0" "r0 \<in> set (runs s0)" "r_id r0 = i" "r_task_id r0 = tid"
    and run: "executor_complete_run env q i v w = (Inr (), w')"
    and later: "(db_step (e_pg env))\<^sup>*\<^sup>* (w_db w') d" "map_of (storage d) q = Some s" "t \<in> set (tasks s)"
      "t_id t = tid"
  shows "t_state t = Completed" "res_result (result_of s t) = Some v"
proof -
  have pg: "pg_ok (e_pg env)" using env by (simp add: env_ok_def)
  obtain s1 r1 t1 where c: "map_of (storage (w_db w')) q = Some s1" "r1 \<in> set (runs s1)" "r_id r1 = i"
    "r_state r1 = Completed" "r_result r1 = Some v" "t1 \<in> set (tasks s1)" "t_id t1 = r_task_id r1"
    "t_state t1 = Completed" "t_last_attempt_run t1 = i"
    using complete_success [OF env inv run] by blast
  have p: "protocol (e_pg env) w w'" by (rule effectD [OF transition_protocol(1) [OF env] run])
  then have steps: "(db_step (e_pg env))\<^sup>*\<^sup>* (w_db w) (w_db w')" using pg inv by (simp add: protocol_def)
  have inv': "db_inv (e_pg env) (w_db w')" using p pg inv by (rule protocol_inv)
  have "run_evolves r0 r1" using later_run [OF pg inv steps claimed(1) c(1) claimed(2) c(2)] c(3) claimed(3) by simp
  then have tid: "t_id t1 = tid" using c(7) claimed(4) by (simp add: run_evolves_def)
  have "r_id r1 = t_last_attempt_run t1" using c by simp
  then have "find_row r_id (t_last_attempt_run t1) (runs s1) = Some r1"
    using db_inv_store [OF inv' c(1)] c(2)
    by (subst find_row_eq_Some) (auto simp: store_inv_def store_ok_iff)
  then have res: "res_result (result_of s1 t1) = Some v" using c(5,8) by (simp add: result_of_def Let_def)
  note stays = terminal_result_stays [OF pg inv' later(1) c(1) later(2) c(6) later(3)]
  show "t_state t = Completed" "res_result (result_of s t) = Some v"
    using stays tid later(4) c(8) res by auto
qed


definition demo_handle :: "unit TaskHandle" where
  "demo_handle = TaskHandle_new \<lparr>Queue_name = ''q'', Queue_execution = ()\<rparr> (Task_new ''mail'') 0"

text \<open>A cancelled task is cancelled for every waiter.\<close>

lemma cancelled_wait:
  assumes pg: "pg_ok (e_pg cenv)" and inv: "db_inv (e_pg cenv) db"
    and cancelled: "map_of (storage db) q = Some s0" "t0 \<in> set (tasks s0)" "t_id t0 = handle_task_id self"
      "t_state t0 = Cancelled"
    and client: "env_ok cenv" "e_fault cenv (w_tick c) = None" "(db_step (e_pg cenv))\<^sup>*\<^sup>* db (w_db c)"
    and handle: "Queue_name (handle_queue self) = q" "queue_name_ok (e_pg cenv) q"
    and stored: "map_of (storage (e_others cenv (w_tick c) (w_db c))) q = Some s" "t \<in> set (tasks s)"
      "t_id t = handle_task_id self" "t_name t = ref_task_name (handle_ref self)"
  shows "result_inner cenv dec self timeout c = Some (Inl Error_Cancelled, begin_event cenv c)"
proof -
  have "t = t0"
    using terminal_result_stays(1) [OF pg inv rtranclp_trans [OF client(3) env_steps [OF client(1)]]
        cancelled(1) stored(1) cancelled(2) stored(2)] cancelled(3,4) stored(3) by simp
  moreover have "db_inv (e_pg cenv) (w_db c)" using steps_inv [OF pg inv client(3)] .
  ultimately have "fetch_task_result_snapshot cenv q (t_name t) (t_id t) c = (Inr (Some Snap_Cancelled), begin_event cenv c)"
    using fetch_found [OF client(1,2) _ handle(2) stored(1,2), of "t_name t"] cancelled(4)
    by (simp add: snapshot_of_text_def)
  then have "await_task_result_snapshot cenv q (t_name t) (t_id t) timeout c = Some (Inr Snap_Cancelled, begin_event cenv c)"
    by (rule await_terminal) simp
  then show ?thesis using stored(3,4) handle(1) by (simp add: result_inner_def)
qed

text \<open>A completion that is declined leaves the task cancelled.\<close>

lemma declined_task_cancelled:
  assumes env: "env_ok env" "honest_faults env" and inv: "db_inv (e_pg env) (w_db w)"
    and claimed: "map_of (storage (w_db w)) q = Some s0" "r0 \<in> set (runs s0)" "r_id r0 = i" "r_task_id r0 = tid"
    and run: "executor_complete_run env q i v w = (Inl Error_Cancelled, w')"
  obtains s t where "db_inv (e_pg env) (w_db w')" "map_of (storage (w_db w')) q = Some s" "t \<in> set (tasks s)"
    "t_id t = tid" "t_state t = Cancelled"
proof -
  have pg: "pg_ok (e_pg env)" using env(1) by (simp add: env_ok_def)
  have p: "protocol (e_pg env) w w'" by (rule effectD [OF transition_protocol(1) [OF env(1)] run])
  then have steps: "(db_step (e_pg env))\<^sup>*\<^sup>* (w_db w) (w_db w')" and inv': "db_inv (e_pg env) (w_db w')"
    using pg inv by (simp_all add: protocol_def)
  obtain s r t where c: "map_of (storage (w_db w')) q = Some s" "r \<in> set (runs s)" "r_id r = i" "t \<in> set (tasks s)"
    "t_id t = r_task_id r" "r_state r = Cancelled \<or> t_state t = Cancelled"
    using executor_complete_records(2) [OF env inv run] by (auto simp: recorded_def)
  have "run_evolves r0 r" using later_run [OF pg inv steps claimed(1) c(1) claimed(2) c(2)] c(3) claimed(3) by simp
  then have tid: "t_id t = tid" using c(5) claimed(4) by (simp add: run_evolves_def)
  obtain t1 where t1: "t1 \<in> set (tasks s)" "t_id t1 = r_task_id r" "authoritative t1 r \<or> superseded t1 r"
    using store_inv_run_task [OF db_inv_store [OF inv' c(1)] c(2)] by blast
  have "t1 = t"
    using db_inv_store [OF inv' c(1)] t1(1,2) c(4,5) unfolding store_inv_def store_ok_iff
    by (metis distinct_keyD)
  then have "t_state t = Cancelled" using t1(3) c(6) by (auto simp: authoritative_def superseded_def)
  then show thesis using that inv' c(1,4) tid by blast
qed

text \<open>\<^bold>\<open>C8.\<close> End to end: when a worker settles the output of a handler without error, the attempt is counted
  as completed and every later wait on the task, by any client, with or without a timeout and after any
  calls in between, returns that output decoded, at its first poll, as long as the task is stored; or it is
  counted as cancelled, the task is cancelled in the database, and every such wait reports the
  cancellation. Nothing else is possible.\<close>

theorem completed_output_reaches_waiters:
  assumes env: "env_ok env" "honest_faults env" and inv: "db_inv (e_pg env) (w_db w)"
    and guard: "w_guard w = Some started"
    and claimed: "map_of (storage (w_db w)) q = Some s0" "r0 \<in> set (runs s0)" "r_id r0 = i"
      "r_task_id r0 = handle_task_id self"
    and settled: "settle env F q i (Inr (Inr response)) w = (Inr (), w')"
    and client: "env_ok cenv" "e_pg cenv = e_pg env" "e_fault cenv (w_tick c) = None"
      "(db_step (e_pg env))\<^sup>*\<^sup>* (w_db w') (w_db c)"
    and handle: "Queue_name (handle_queue self) = q" "queue_name_ok (e_pg env) q"
    and stored: "map_of (storage (e_others cenv (w_tick c) (w_db c))) q = Some s" "t \<in> set (tasks s)"
      "t_id t = handle_task_id self" "t_name t = ref_task_name (handle_ref self)"
  shows "(\<exists>el. w_metrics w' = finish_execution (TaskExecution_start el) Outcome_Completed (w_metrics w)
      \<and> handle_result cenv dec self c = Some (serde (dec (resp_output response)), begin_event cenv c)
      \<and> handle_result_with_timeout cenv dec self d c = Some (serde (dec (resp_output response)), begin_event cenv c))
    \<or> (\<exists>el s1 t1. w_metrics w' = finish_execution (TaskExecution_start el) Outcome_Cancelled (w_metrics w)
      \<and> map_of (storage (w_db w')) q = Some s1 \<and> t1 \<in> set (tasks s1) \<and> t_id t1 = handle_task_id self
      \<and> t_state t1 = Cancelled
      \<and> handle_result cenv dec self c = Some (Inl Error_Cancelled, begin_event cenv c)
      \<and> handle_result_with_timeout cenv dec self d c = Some (Inl Error_Cancelled, begin_event cenv c))"
  using guard settled
proof (cases rule: settle_output_cases)
  case (completed v)
  let ?d = "e_others cenv (w_tick c) (w_db c)"
  have pg: "pg_ok (e_pg env)" using env by (simp add: env_ok_def)
  have "(db_step (e_pg env))\<^sup>*\<^sup>* (w_db c) ?d" using env_steps [OF client(1)] client(2) by metis
  then have later: "(db_step (e_pg env))\<^sup>*\<^sup>* (w_db v) ?d"
    using client(4) completed(2) by (simp add: rtranclp_trans)
  note out = completed_output_stays [OF env(1) inv claimed completed(1) later stored(1-3)]
  have "protocol (e_pg env) w v" by (rule effectD [OF transition_protocol(1) [OF env(1)] completed(1)])
  then have "db_inv (e_pg env) (w_db v)" using pg inv by (rule protocol_inv)
  then have "db_inv (e_pg cenv) (w_db c)"
    using steps_inv [OF pg] client(2,4) completed(2) by simp
  then have "fetch_task_result_snapshot cenv q (t_name t) (t_id t) c =
      (Inr (Some (Snap_Completed (resp_output response))), begin_event cenv c)"
    using fetch_completed [OF client(1,3) _ _ stored(1,2) out] handle(2) client(2) by simp
  then have "await_task_result_snapshot cenv q (t_name t) (t_id t) timeout c =
      Some (Inr (Snap_Completed (resp_output response)), begin_event cenv c)" for timeout
    by (rule await_terminal) simp
  then show ?thesis using completed(3) stored(3,4) handle(1)
    by (auto simp: handle_result_def handle_result_with_timeout_def result_inner_def)
next
  case (cancelled v)
  obtain s1 t1 where c: "db_inv (e_pg env) (w_db v)" "map_of (storage (w_db v)) q = Some s1" "t1 \<in> set (tasks s1)"
    "t_id t1 = handle_task_id self" "t_state t1 = Cancelled"
    using declined_task_cancelled [OF env inv claimed cancelled(1)] by blast
  have "result_inner cenv dec self timeout c = Some (Inl Error_Cancelled, begin_event cenv c)" for timeout
    using cancelled_wait [of cenv "w_db v" q s1 t1 self c s t dec] c client handle stored env(1) cancelled(2)
    by (simp add: env_ok_def)
  then show ?thesis using cancelled(2,3) c
    by (auto simp: handle_result_def handle_result_with_timeout_def)
qed

lemma handle_cancel_protocol:
  assumes "env_ok env"
  shows "effect (protocol (e_pg env)) (ensure_task_ref_with env queue name tid Pool)"
    "effect (protocol (e_pg env)) (handle_cancel env self)"
  unfolding handle_cancel_def handle_cancel_with_def ensure_task_ref_with_def cancel_task_with_def
  by (intro effects assms)+

lemma handle_cancel_success:
  assumes env: "env_ok env" and inv: "db_inv (e_pg env) (w_db w)" and run: "handle_cancel env self w = (Inr (), w')"
  obtains s t where "map_of (storage (w_db w')) (Queue_name (handle_queue self)) = Some s" "t \<in> set (tasks s)"
    "t_id t = handle_task_id self" "state_terminal (t_state t)"
proof -
  let ?q = "Queue_name (handle_queue self)" and ?tid = "handle_task_id self"
  obtain x v b where v: "ensure_task_ref_with env (handle_queue self) (ref_task_name (handle_ref self)) ?tid Pool w = (Inr x, v)"
    and call: "execute env Pool (cancel_task (e_pg env) ?q ?tid) v = (Inr b, w')"
    using run by (auto simp: handle_cancel_def handle_cancel_with_def cancel_task_with_def eseq_Inr_iff ebind_Inr_iff
        esm_Inr_iff map_err_Inr_iff simp del: execute.simps)
  let ?d = "e_others env (w_tick v) (w_db v)"
  have "protocol (e_pg env) w v" by (rule effectD [OF handle_cancel_protocol(1) [OF env] v])
  then have inv': "db_inv (e_pg env) ?d" using env inv by (intro env_inv) (auto simp: env_ok_def dest: protocol_inv)
  have run: "cancel_task (e_pg env) ?q ?tid ?d = (Inr b, w_db w')" using pool_success [OF call] by simp
  then obtain s t where t: "queue_name_ok (e_pg env) ?q" "map_of (storage ?d) ?q = Some s" "find_row t_id ?tid (tasks s) = Some t"
    by (rule cancel_task_found)
  have "store_ok (e_pg env) s" using db_inv_store [OF inv' t(2)] by (simp add: store_inv_def)
  note eval = cancel_task_eval [OF t(1,2) this t(3)]
  show thesis
  proof (cases "state_terminal (t_state t)")
    case True
    then show thesis using that [of s t] eval run t(2) find_row_SomeD [OF t(3)] by simp
  next
    case False
    let ?s = "cancelled_store (pg_clock (e_pg env) (seq ?d)) ?tid s"
    have "mark_cancelled (pg_clock (e_pg env) (seq ?d)) t \<in> set (tasks ?s)"
      using find_row_SomeD [OF t(3)] by (auto simp: cancelled_store_def set_update_where)
    then show thesis
      using that [of ?s "mark_cancelled (pg_clock (e_pg env) (seq ?d)) t"] eval run False find_row_SomeD [OF t(3)]
      by (auto simp: mark_cancelled_def)
  qed
qed

text \<open>\<^bold>\<open>C26.\<close> A cancellation reaches the waiters: when cancelling a task through its handle returns without
  error, the task has ended, and unless it had already completed or failed, every later wait on it, by any
  client, with or without a timeout and after any calls in between, reports the cancellation at its first
  poll, as long as the task is stored.\<close>

theorem cancellation_reaches_waiters:
  assumes env: "env_ok env" and inv: "db_inv (e_pg env) (w_db w)"
    and run: "handle_cancel env self w = (Inr (), w')"
    and client: "env_ok cenv" "e_pg cenv = e_pg env" "e_fault cenv (w_tick c) = None"
      "(db_step (e_pg env))\<^sup>*\<^sup>* (w_db w') (w_db c)"
    and handle: "Queue_name (handle_queue self) = q" "queue_name_ok (e_pg env) q"
    and stored: "map_of (storage (e_others cenv (w_tick c) (w_db c))) q = Some s" "t \<in> set (tasks s)"
      "t_id t = handle_task_id self" "t_name t = ref_task_name (handle_ref self)"
  shows "\<exists>s0 t0. map_of (storage (w_db w')) q = Some s0 \<and> t0 \<in> set (tasks s0) \<and> t_id t0 = handle_task_id self
    \<and> (t_state t0 = Completed \<or> t_state t0 = Failed
      \<or> t_state t0 = Cancelled
        \<and> handle_result cenv dec self c = Some (Inl Error_Cancelled, begin_event cenv c)
        \<and> handle_result_with_timeout cenv dec self d c = Some (Inl Error_Cancelled, begin_event cenv c))"
proof -
  obtain s0 t0 where t0: "map_of (storage (w_db w')) q = Some s0" "t0 \<in> set (tasks s0)"
    "t_id t0 = handle_task_id self" "state_terminal (t_state t0)"
    using handle_cancel_success [OF env inv run] handle(1) by blast
  have pg: "pg_ok (e_pg env)" using env by (simp add: env_ok_def)
  have inv': "db_inv (e_pg env) (w_db w')"
    using protocol_inv [OF effectD [OF handle_cancel_protocol(2) [OF env] run] pg inv] .
  show ?thesis
    using t0 cancelled_wait [of cenv "w_db w'" q s0 t0 self c s t dec] client pg inv' handle stored
    by (cases "t_state t0") (auto simp: handle_result_def handle_result_with_timeout_def)
qed

definition demo_cancelled :: world where
  "demo_cancelled = snd (handle_cancel (quiet exact_pg) demo_handle (world_of demo_claimed))"

lemma demo_cancel_call: "handle_cancel (quiet exact_pg) demo_handle (world_of demo_claimed) = (Inr (), demo_cancelled)"
proof -
  have "fst (handle_cancel (quiet exact_pg) demo_handle (world_of demo_claimed)) = Inr ()" by code_simp
  then show ?thesis by (simp add: demo_cancelled_def prod_eq_iff)
qed

theorem cancellation_reaches_waiters_witness:
  "\<exists>s0 t0. map_of (storage (w_db demo_cancelled)) ''q'' = Some s0 \<and> t0 \<in> set (tasks s0) \<and> t_id t0 = 0
    \<and> (t_state t0 = Completed \<or> t_state t0 = Failed
      \<or> t_state t0 = Cancelled
        \<and> handle_result (quiet exact_pg) int_dec demo_handle demo_cancelled =
          Some (Inl Error_Cancelled, begin_event (quiet exact_pg) demo_cancelled)
        \<and> handle_result_with_timeout (quiet exact_pg) int_dec demo_handle \<lparr>as_secs = 5, subsec_nanos = 0\<rparr> demo_cancelled =
          Some (Inl Error_Cancelled, begin_event (quiet exact_pg) demo_cancelled))"
proof -
  let ?s = "the (map_of (storage (w_db demo_cancelled)) ''q'')" and ?t = "hd (tasks (the (map_of (storage (w_db demo_cancelled)) ''q'')))"
  have "map_of (storage (w_db demo_cancelled)) ''q'' \<noteq> None" "tasks ?s \<noteq> []" "t_id ?t = 0" "t_name ?t = ''mail''"
    by code_simp+
  then have "map_of (storage (w_db demo_cancelled)) ''q'' = Some ?s" "?t \<in> set (tasks ?s)" "t_id ?t = 0" "t_name ?t = ''mail''"
    by auto
  then show ?thesis
    using cancellation_reaches_waiters [OF quiet_ok [OF exact_pg_ok] _ demo_cancel_call quiet_ok [OF exact_pg_ok], of demo_cancelled "''q''" ?s ?t]
      demo_inv(3) demo_facts(1)
    by (simp add: demo_handle_def TaskHandle_new_def Task_new_def TaskRef_from_parts_def)
qed

lemma demo_settled_run:
  "settle (quiet exact_pg) demo_fmt ''q'' 1 (Inr (Inr (ExecutionResponse_new (JInt 42))))
    (start_guard (world_of demo_claimed)) = (Inr (), demo_settled)"
proof -
  have "fst (settle (quiet exact_pg) demo_fmt ''q'' 1 (Inr (Inr (ExecutionResponse_new (JInt 42))))
      (start_guard (world_of demo_claimed))) = Inr ()"
    by code_simp
  then show ?thesis by (simp add: demo_settled_def prod_eq_iff)
qed

theorem completed_output_reaches_waiters_witness:
  "handle_result (quiet exact_pg) int_dec demo_handle (world_of (w_db demo_settled)) =
      Some (serde (int_dec (JInt 42)), begin_event (quiet exact_pg) (world_of (w_db demo_settled)))
    \<or> handle_result (quiet exact_pg) int_dec demo_handle (world_of (w_db demo_settled)) =
      Some (Inl Error_Cancelled, begin_event (quiet exact_pg) (world_of (w_db demo_settled)))"
proof -
  let ?s = "the (map_of (storage (w_db demo_settled)) ''q'')"
  have env: "env_ok (quiet exact_pg)" "honest_faults (quiet exact_pg)"
    using quiet_ok [OF exact_pg_ok] by (simp_all add: honest_faults_def)
  have inv: "db_inv (e_pg (quiet exact_pg)) (w_db (start_guard (world_of demo_claimed)))"
    by (simp add: start_guard_def demo_inv)
  have guard: "w_guard (start_guard (world_of demo_claimed)) = Some 0" by (simp add: start_guard_def)
  have claimed: "map_of (storage (w_db (start_guard (world_of demo_claimed)))) ''q'' = Some demo_store"
    "demo_run \<in> set (runs demo_store)" "r_id demo_run = 1" "r_task_id demo_run = handle_task_id demo_handle"
    by (simp_all add: start_guard_def demo_facts demo_store_def demo_run_def new_run_def demo_handle_def
        TaskHandle_new_def TaskRef_from_parts_def)
  have stored: "map_of (storage (e_others (quiet exact_pg) (w_tick (world_of (w_db demo_settled)))
      (w_db (world_of (w_db demo_settled))))) ''q'' = Some ?s" "hd (tasks ?s) \<in> set (tasks ?s)"
    "t_id (hd (tasks ?s)) = handle_task_id demo_handle"
    "t_name (hd (tasks ?s)) = ref_task_name (handle_ref demo_handle)"
    by code_simp+
  have handle: "Queue_name (handle_queue demo_handle) = ''q''" "queue_name_ok (e_pg (quiet exact_pg)) ''q''"
    by code_simp+
  from completed_output_reaches_waiters [where dec = int_dec and c = "world_of (w_db demo_settled)",
      OF env inv guard claimed demo_settled_run env(1) _ _ _ handle stored]
  show ?thesis by (auto simp: ExecutionResponse_new_def)
qed

subsection \<open>Leases outlive the supervision interval\<close>

lemma supervision_interval_bounds:
  assumes "duration_seconds lease_duration = Inr lease" and "lease \<noteq> 0"
  shows "0 < lease" "0 < supervision_interval lease" "2 * supervision_interval lease \<le> lease * 1000000000"
    "supervision_interval lease \<le> 1000000000"
proof -
  have "0 \<le> lease" using assms(1) by (auto simp: duration_seconds_Inr)
  then have l: "1 \<le> lease" "lease \<le> i32_max" using assms by (auto simp: duration_seconds_Inr)
  then have "u64_try_from lease = Some lease" by (simp add: u64_try_from_def)
  then have "supervision_interval lease = min (lease * 1000000000 div 2) 1000000000"
    by (simp add: supervision_interval_def MAX_SUPERVISION_INTERVAL_def)
  then show "0 < lease" "0 < supervision_interval lease" "2 * supervision_interval lease \<le> lease * 1000000000"
    "supervision_interval lease \<le> 1000000000"
    using l by (simp_all add: min_def)
qed


lemma poll_leaves_half_lease:
  assumes inv: "db_inv pg db" and inj: "inj (pg_uuid pg)" and q: "queue_name_ok pg q"
    and held: "map_of (storage db) q = Some s" "running_attempt s i r t lease"
      "pg_clock pg (seq db) < lease" "task_due t (pg_clock pg (seq db)) = Inr False"
    and n: "0 < n" and poll: "run_txn (supervise_run pg q i (Some n)) db = (x, db')"
  obtains s' r' l' where "x = Inr ''running''" "db_inv pg db'" "map_of (storage db') q = Some s'"
    "running_attempt s' i r' t l'" "r_claimed_by r' = r_claimed_by r" "pg_clock pg (seq db) + n * 500000 < l'"
proof -
  let ?now = "pg_clock pg (seq db)" and ?u = "pg_clock pg (seq db) + n * 1000000"
  define d where "d = (if lease \<le> ?now + n * 500000 then put_store q (renewed_store i ?u s) (tick db) else tick db)"
  have sup: "supervise_run pg q i (Some n) db = (Inr ''running'', d)"
    unfolding d_def by (rule supervise_run_live [OF inv q held n])
  have inv': "db_inv pg d" by (rule supervise_run_inv [OF inv inj sup])
  have x: "x = Inr ''running''" "db' = d" using run_txn_commits [of "supervise_run pg q i (Some n)", OF sup inv'] poll by simp_all
  show thesis
  proof (cases "lease \<le> ?now + n * 500000")
    case True
    then show thesis using that [OF x(1) _ _ renewed_attempt [OF held(2), of ?u]] x(2) inv' n
      by (simp add: d_def renew_run_def)
  next
    case False
    then show thesis using that [of s r lease] x inv' held by (simp add: d_def)
  qed
qed

text \<open>\<^bold>\<open>C25.\<close> The supervision cadence keeps a lease alive: for every lease a worker can be configured with,
  supervision waits a positive time of at most half the lease and at most a second between polls; and
  after a poll on a live attempt, if the next poll reaches the database no later than half a lease after
  it (the interval plus any delay that fits), then whatever other sessions did in between the worker
  still holds the attempt with a live lease, unless the task was cancelled or removed with its queue.\<close>

theorem supervised_lease_outlives_next_poll:
  assumes pg: "pg_ok pg" "mono (pg_clock pg)" and inv: "db_inv pg db" and q: "queue_name_ok pg q"
    and held: "map_of (storage db) q = Some s" "running_attempt s i r t lease" "r_claimed_by r = Some who"
      "pg_clock pg (seq db) < lease" "task_due t (pg_clock pg (seq db)) = Inr False"
    and conf: "duration_seconds lease_duration = Inr n" "n \<noteq> 0"
    and poll: "run_txn (supervise_run pg q i (Some n)) db = (x, db1)"
    and others: "(other_step pg i)\<^sup>*\<^sup>* db1 db2"
    and on_time: "1000 * (pg_clock pg (seq db2) - pg_clock pg (seq db)) \<le> supervision_interval n + delay"
    and margin: "2 * (supervision_interval n + delay) \<le> n * 1000000000"
  shows "x = Inr ''running'' \<and> 0 < supervision_interval n \<and> 2 * supervision_interval n \<le> n * 1000000000
    \<and> supervision_interval n \<le> 1000000000
    \<and> ((\<exists>s' r' t' l'. map_of (storage db2) q = Some s' \<and> running_attempt s' i r' t' l'
          \<and> r_task_id r' = t_id t \<and> r_claimed_by r' = Some who \<and> pg_clock pg (seq db2) < l')
       \<or> (\<forall>s' t'. map_of (storage db2) q = Some s' \<and> t' \<in> set (tasks s') \<and> t_id t' = t_id t \<longrightarrow>
            t_state t' = Cancelled))"
proof -
  note b = supervision_interval_bounds [OF conf]
  have inj: "inj (pg_uuid pg)" using pg(1) by (simp add: pg_ok_def)
  from poll_leaves_half_lease [OF inv inj q held(1,2,4,5) b(1) poll] obtain s1 r1 l1 where
    p: "x = Inr ''running''" "db_inv pg db1" "map_of (storage db1) q = Some s1" "running_attempt s1 i r1 t l1"
      "r_claimed_by r1 = Some who" "pg_clock pg (seq db) + n * 500000 < l1"
    using held(3) by metis
  have "2000 * (pg_clock pg (seq db2) - pg_clock pg (seq db)) \<le> n * 1000000000" using on_time margin by simp
  then have live: "pg_clock pg (seq db2) < l1" using p(6) by simp
  then have "pg_clock pg (seq db2) < l'" if "l1 \<le> l'" for l' using that by simp
  then show ?thesis using lease_outcome [OF pg p(2-5) others live] p(1) b(2-4) by blast
qed


text \<open>Another worker claims between two polls.\<close>

definition demo_polled :: db where
  "demo_polled = snd (run_txn (supervise_run exact_pg ''q'' 1 (Some 60)) demo_claimed)"

definition demo_polled_later :: db where
  "demo_polled_later = snd (run_txn (claim_tasks exact_pg ''q'' ''w2'' 60 10 [''mail'']) demo_polled)"

theorem supervised_lease_outlives_next_poll_witness:
  "fst (run_txn (supervise_run exact_pg ''q'' 1 (Some 60)) demo_claimed) = Inr ''running''
    \<and> ((\<exists>s' r' t' l'. map_of (storage demo_polled_later) ''q'' = Some s' \<and> running_attempt s' 1 r' t' l'
          \<and> r_task_id r' = t_id demo_running \<and> r_claimed_by r' = Some ''w1''
          \<and> pg_clock exact_pg (seq demo_polled_later) < l')
       \<or> (\<forall>s' t'. map_of (storage demo_polled_later) ''q'' = Some s' \<and> t' \<in> set (tasks s')
            \<and> t_id t' = t_id demo_running \<longrightarrow> t_state t' = Cancelled))"
proof -
  have "other_step exact_pg 1 demo_polled demo_polled_later"
    unfolding demo_polled_later_def by (rule other_claim [OF prod.collapse [symmetric]])
  then have steps: "(other_step exact_pg 1)\<^sup>*\<^sup>* demo_polled demo_polled_later" by (rule r_into_rtranclp)
  have poll: "run_txn (supervise_run exact_pg ''q'' 1 (Some 60)) demo_claimed =
      (fst (run_txn (supervise_run exact_pg ''q'' 1 (Some 60)) demo_claimed), demo_polled)"
    by (simp add: demo_polled_def)
  have who: "r_claimed_by demo_run = Some ''w1''" by (simp add: demo_run_def)
  have lease: "duration_seconds \<lparr>as_secs = 60, subsec_nanos = 0\<rparr> = Inr 60" by code_simp
  have "1000 * (pg_clock exact_pg (seq demo_polled_later) - pg_clock exact_pg (seq demo_claimed))
      \<le> supervision_interval 60 + 20000000000"
    "2 * (supervision_interval 60 + 20000000000) \<le> 60 * 1000000000"
    by code_simp+
  from supervised_lease_outlives_next_poll [OF exact_pg_ok exact_pg_mono demo_inv(3) demo_facts(1-3) who
      demo_facts(4,5) lease _ poll steps this]
  show ?thesis by simp
qed

end
