(* ===== verification/RaceProperties.thy ===== *)
theory RaceProperties
  imports Outcomes EndToEnd
begin

section \<open>Every interleaving of handler and supervision\<close>

text \<open>
  What holds of an attempt in every interleaving of its handler with supervision, whichever of the two
  wins: it is counted once, reports only what the database has recorded, and ends once its run is
  cancelled, even when the handler never does.
\<close>

subsection \<open>Counting\<close>

text \<open>Futures of handlers and middleware that leave the counters alone and reach the database through
  Steda's operations.\<close>

definition racing_ok :: "env \<Rightarrow> ExecutionContext \<Rightarrow> (ExecutionRequest \<Rightarrow> (stop + ExecutionResponse) future)
    \<Rightarrow> ClaimedTask \<Rightarrow> bool" where
  "racing_ok env xc call task \<longleftrightarrow> (\<forall>h ctx. map_of (xc_registry xc) (claimed_task_name task) = Some h \<longrightarrow>
     future_ok (quietly env) (call (ExecutionRequest_new ctx (claimed_params task) h)))"

lemma racing_okD:
  "racing_ok env xc call task \<Longrightarrow> map_of (xc_registry xc) (claimed_task_name task) = Some h \<Longrightarrow>
    future_ok (quietly env) (call (ExecutionRequest_new ctx (claimed_params task) h))"
  by (simp add: racing_ok_def)

text \<open>An attempt of a worker is one of these.\<close>

lemma attempt_ok_racing:
  assumes "attempt_ok env xc"
  shows "racing_ok env xc (svc_call (xc_service xc)) task"
  unfolding racing_ok_def
proof (intro allI impI)
  fix h ctx
  assume h: "map_of (xc_registry xc) (claimed_task_name task) = Some h"
  show "future_ok (quietly env) (svc_call (xc_service xc) (ExecutionRequest_new ctx (claimed_params task) h))"
    using future_ok_conj [OF attempt_ok_handler [OF assms h]]
    by (rule future_ok_mono) (simp add: quietly_def client_protocol_def)
qed

lemma quietly_guarded: "quietly env w w' \<Longrightarrow> guarded w w'"
  by (simp add: quietly_def guarded_def)

lemma attempt_run_guarded:
  assumes "attempt_run env F xc call task lease w r w'" and "racing_ok env xc call task"
  obtains v where "guarded (start_guard w) v" "w' = drop_guard v"
proof (rule guarded_attempt.attempt_run_effect [OF assms(1)])
  show "future_ok guarded (call (ExecutionRequest_new ctx (claimed_params task) h))"
    if "map_of (xc_registry xc) (claimed_task_name task) = Some h" for h ctx
    by (rule future_ok_mono [OF racing_okD [OF assms(2) that] quietly_guarded])
qed (use that in blast)

text \<open>For witnesses: a handler that never resolves, and a client that cancels its task meanwhile.\<close>

definition cancelling_env :: env where
  "cancelling_env = (quiet exact_pg)\<lparr>e_others := (\<lambda>n db.
     if n = 2 then snd (run_txn (cancel_task exact_pg ''q'' 0) db) else db)\<rparr>"

definition demo_entered :: world where
  "demo_entered = snd (attempt_entry cancelling_env demo_fmt demo_xc demo_claim_task 60
     (start_guard (world_of demo_claimed)))"

definition demo_woken :: world where
  "demo_woken = (begin_event cancelling_env demo_entered)\<lparr>w_now := w_now demo_entered + 1000000000\<rparr>"

definition demo_observed :: world where
  "demo_observed = snd (client_supervise_run cancelling_env ''q'' 1 (Some 60) demo_woken)"

definition demo_stopped :: world where
  "demo_stopped = drop_guard (snd (finish_with Outcome_Cancelled demo_observed))"

lemma cancelling_env_ok: "env_ok cancelling_env" "honest_faults cancelling_env" "e_pg cancelling_env = exact_pg"
proof -
  have "db_step exact_pg db (snd (run_txn (cancel_task exact_pg ''q'' 0) db))" for db
    by (rule do_cancel [of _ "''q''" 0 _ "fst (run_txn (cancel_task exact_pg ''q'' 0) db)"]) simp
  then show "env_ok cancelling_env" using exact_pg_ok by (auto simp: env_ok_def cancelling_env_def)
qed (simp_all add: honest_faults_def cancelling_env_def)

lemma never_quiet [simp]: "future_ok (quietly env) never"
  by (simp add: never_ok quietly.effect_refl)

lemma stuck_ok: "racing_ok env xc (\<lambda>_. never) task"
  by (simp add: racing_ok_def)

lemma demo_stuck_steps:
  "client_supervise_run cancelling_env ''q'' 1 (Some 60) demo_woken = (Inr Sup_Cancelled, demo_observed)"
  "finish_with Outcome_Cancelled demo_observed = (Inr (), snd (finish_with Outcome_Cancelled demo_observed))"
  "supervision_interval 60 = 1000000000"
proof -
  have "fst (client_supervise_run cancelling_env ''q'' 1 (Some 60) demo_woken) = Inr Sup_Cancelled" by code_simp
  then show "client_supervise_run cancelling_env ''q'' 1 (Some 60) demo_woken = (Inr Sup_Cancelled, demo_observed)"
    by (simp add: demo_observed_def prod_eq_iff)
  show "supervision_interval 60 = 1000000000" by code_simp
qed (simp add: finish_with_def finish_def ebind_apply esm_apply)

lemma demo_stuck_poll:
  "race_step cancelling_env ''q'' 1 60 \<lparr>rc_world = demo_woken, rc_handler = never, rc_supervisor = Polling\<rparr>
    \<lparr>rc_world = demo_observed, rc_handler = never, rc_supervisor = Observed (Inr Outcome_Cancelled)\<rparr>"
  using supervisor_polls [of "\<lparr>rc_world = demo_woken, rc_handler = never, rc_supervisor = Polling\<rparr>"
      cancelling_env "''q''" 1 60 "Inr Sup_Cancelled" demo_observed]
  by (simp add: demo_stuck_steps(1) [simplified] observed_def)

lemma demo_stuck_race:
  "(race_step cancelling_env ''q'' 1 60)\<^sup>*\<^sup>* (race_start 60 never demo_entered)
    \<lparr>rc_world = demo_observed, rc_handler = never, rc_supervisor = Observed (Inr Outcome_Cancelled)\<rparr>"
proof -
  have "race_step cancelling_env ''q'' 1 60 (race_start 60 never demo_entered)
      \<lparr>rc_world = demo_woken, rc_handler = never, rc_supervisor = Polling\<rparr>"
    using supervisor_wakes [of "race_start 60 never demo_entered" "w_now demo_entered + 1000000000"
        "w_now demo_entered + 1000000000" cancelling_env "''q''" 1 60]
    by (simp add: race_start_def demo_stuck_steps(3) demo_woken_def begin_event_def cancelling_env_def)
  then show ?thesis using demo_stuck_poll by (rule converse_rtranclp_into_rtranclp [OF _ r_into_rtranclp])
qed

lemma demo_stuck_won:
  "race_won \<lparr>rc_world = demo_observed, rc_handler = never, rc_supervisor = Observed (Inr Outcome_Cancelled)\<rparr>
    (Supervisor_won (Inr Outcome_Cancelled))"
  "after_race cancelling_env demo_fmt ''q'' 1 (Supervisor_won (Inr Outcome_Cancelled)) (rc_world
    \<lparr>rc_world = demo_observed, rc_handler = never, rc_supervisor = Observed (Inr Outcome_Cancelled)\<rparr>) =
    (Inr (), snd (finish_with Outcome_Cancelled demo_observed))"
proof -
  show "race_won \<lparr>rc_world = demo_observed, rc_handler = never, rc_supervisor = Observed (Inr Outcome_Cancelled)\<rparr>
      (Supervisor_won (Inr Outcome_Cancelled))"
    by (rule supervisor_won) simp
qed (simp add: after_race_def, rule demo_stuck_steps(2))

lemma demo_stuck_run:
  "attempt_run cancelling_env demo_fmt demo_xc (\<lambda>_. never) demo_claim_task 60 (world_of demo_claimed)
    (Inr ()) demo_stopped"
proof -
  let ?entry = "attempt_entry cancelling_env demo_fmt demo_xc demo_claim_task 60 (start_guard (world_of demo_claimed))"
  have "case fst ?entry of Inr (Some x) \<Rightarrow> True | _ \<Rightarrow> False" by code_simp
  then obtain h ctx where entry: "?entry = (Inr (Some (h, ctx)), demo_entered)"
    by (auto simp: demo_entered_def prod_eq_iff split: sum.splits option.splits)
  have q: "xc_queue_name demo_xc = ''q''" "claimed_run_id demo_claim_task = 1"
    by (simp_all add: demo_xc_def ExecutionContext_new_def demo_claim_task_def)
  have "run_race cancelling_env demo_fmt ''q'' 1 60 never demo_entered (Inr ())
      (snd (finish_with Outcome_Cancelled demo_observed))"
    by (rule run_race [OF demo_stuck_race demo_stuck_won])
  then show ?thesis
    unfolding demo_stopped_def by (rule raced [where call = "\<lambda>_. never", OF entry, unfolded q])
qed

text \<open>\<^bold>\<open>C15.\<close> Every attempt is counted exactly once, in every interleaving of its handler with supervision:
  whatever the handler, the middleware, the database and the network do, and whichever future wins the
  race, one run of \<open>execute_task\<close> increments the execution counter by one and exactly one of the six
  outcome counters (completed, failed, lease lost, cancelled, suspended, unhandled), so their sum stays
  equal to the number of executions until a counter saturates.\<close>

theorem raced_attempt_is_counted_once:
  assumes ok: "racing_ok env xc call task"
    and balanced: "metrics_balanced (w_metrics w)" "uint (executions (w_metrics w)) < 2 ^ 64 - 1"
    and run: "attempt_run env F xc call task lease w r w'"
  shows "metrics_balanced (w_metrics w')
    \<and> uint (executions (w_metrics w')) = uint (executions (w_metrics w)) + 1
    \<and> claimed_runs (w_metrics w') = claimed_runs (w_metrics w)"
proof -
  obtain v where "guarded (start_guard w) v" "w' = drop_guard v" using run ok by (rule attempt_run_guarded)
  then show ?thesis
    using guarded_drop [of w v] finish_execution_balanced [OF balanced] drop_execution_balanced [OF balanced] by auto
qed

theorem raced_attempt_is_counted_once_witness:
  "metrics_balanced (w_metrics demo_stopped)
    \<and> uint (executions (w_metrics demo_stopped)) = uint (executions (w_metrics (world_of demo_claimed))) + 1
    \<and> claimed_runs (w_metrics demo_stopped) = claimed_runs (w_metrics (world_of demo_claimed))"
  by (rule raced_attempt_is_counted_once [OF stuck_ok _ _ demo_stuck_run])
    (simp_all add: metrics_balanced_def ended_total_def ended_counters_def QueueMetrics_new_def)

subsection \<open>Reported outcomes\<close>

text \<open>Supervision that has resolved to an outcome has seen it recorded.\<close>

definition observation_recorded :: "env \<Rightarrow> string \<Rightarrow> uuid \<Rightarrow> world \<Rightarrow> race \<Rightarrow> bool" where
  "observation_recorded env q i w s \<longleftrightarrow>
     (\<forall>out. rc_supervisor s = Observed (Inr out) \<longrightarrow> out \<noteq> Outcome_LeaseLost \<longrightarrow>
       (\<exists>u. recorded q i out (w_db u) \<and> quietly env w u \<and> quietly env u (rc_world s)))"

lemma observed_outcome:
  "observed lease r w = Observed (Inr out) \<longleftrightarrow> (\<exists>sv. r = Inr sv \<and> execution_outcome_from_supervision sv = Some out)"
  by (auto simp: observed_def split: sum.splits option.splits)

lemma observation_moves:
  assumes "observation_recorded env q i w t" and "quietly env (rc_world t) (rc_world u)"
    and "\<And>out. rc_supervisor u = Observed (Inr out) \<Longrightarrow> rc_supervisor t = Observed (Inr out)"
  shows "observation_recorded env q i w u"
  using assms quietly.effect_trans unfolding observation_recorded_def by blast

lemma race_observes:
  assumes env: "env_ok env" and inv: "db_inv (e_pg env) (w_db (rc_world s))"
    and handler: "future_ok (quietly env) (rc_handler s)" and fresh: "observation_recorded env q i (rc_world s) s"
    and path: "(race_step env q i lease)\<^sup>*\<^sup>* s t"
  shows "observation_recorded env q i (rc_world s) t"
  using path
proof (induction rule: rtranclp_induct)
  case (step t u)
  note t = quietly.race_effect [OF step.hyps(1) handler]
  have tu: "quietly env (rc_world t) (rc_world u)" using quietly.race_step_effect [OF step.hyps(2)] t by blast
  note inv_t = quietly_steps(2) [OF conjunct1 [OF t] env inv]
  from step.hyps(2) show ?case
  proof cases
    case (supervisor_polls r w')
    then show ?thesis
      using client_supervise_records [OF env inv_t] quietly.effect_trans [OF conjunct1 [OF t] tu] quietly.effect_refl
      unfolding observation_recorded_def by (simp add: observed_outcome) blast
  qed (use observation_moves [OF step.IH tu] in auto)
qed (rule fresh)

lemma race_reports:
  assumes env: "env_ok env" "honest_faults env" and inv: "db_inv (e_pg env) (w_db (rc_world s))"
    and guard: "w_guard (rc_world s) \<noteq> None" and handler: "future_ok (quietly env) (rc_handler s)"
    and fresh: "observation_recorded env q i (rc_world s) s"
    and path: "(race_step env q i lease)\<^sup>*\<^sup>* s t" and won: "race_won t win"
    and run: "after_race env F q i win (rc_world t) = (Inr (), w')"
  shows "reported (e_pg env) q i (rc_world s) w'"
proof -
  have t: "quietly env (rc_world s) (rc_world t)" using quietly.race_effect [OF path handler] by blast
  note t' = quietly_steps [OF t env(1) inv]
  from won show ?thesis
  proof cases
    case (handler_won x)
    then have "reported (e_pg env) q i (rc_world t) w'"
      using settle_reports [OF env t'(2)] t'(4) guard run by (simp add: after_race_def)
    then show ?thesis by (rule reported_after [OF t env(1) inv])
  next
    case (supervisor_won r)
    then show ?thesis
      using race_observes [OF env(1) inv handler fresh path] run finish_with_reports [OF _ _ guard env(1) inv]
      by (cases r) (auto simp: after_race_def observation_recorded_def esm_Inr_iff)
  qed
qed

text \<open>\<^bold>\<open>C7.\<close> What an attempt reports is what the database recorded: in every interleaving of handler and
  supervision, and whatever the environment and a handler that calls Steda do meanwhile, an attempt that
  ends without error has counted one outcome, and between its start and its end the database held that
  outcome for its run: completed, failed or sleeping, or cancelled with its task.\<close>

theorem reported_outcome_is_recorded:
  assumes env: "env_ok env" "honest_faults env" and inv: "db_inv (e_pg env) (w_db w)"
    and ok: "racing_ok env xc call task" and run: "attempt_run env F xc call task lease w (Inr ()) w'"
  shows "\<exists>out el d. w_metrics w' = finish_execution (TaskExecution_start el) out (w_metrics w)
    \<and> (db_step (e_pg env))\<^sup>*\<^sup>* (w_db w) d \<and> (db_step (e_pg env))\<^sup>*\<^sup>* d (w_db w')
    \<and> recorded (xc_queue_name xc) (claimed_run_id task) out d"
proof -
  let ?q = "xc_queue_name xc" and ?i = "claimed_run_id task" and ?w = "start_guard w"
  have w: "w_db ?w = w_db w" "w_metrics ?w = w_metrics w" "w_guard ?w \<noteq> None" by (simp_all add: start_guard_def)
  note inv' = inv [folded w(1)]
  from run have "\<exists>v. reported (e_pg env) ?q ?i ?w v \<and> w' = drop_guard v"
  proof cases
    case (ended_early v)
    then show ?thesis using attempt_entry_reports [OF env inv' w(3)] by blast
  next
    case (raced h ctx v u)
    have v: "quietly env ?w v" by (rule attempt_entry_quietly [OF raced(2)])
    note v' = quietly_steps [OF v env(1) inv']
    have ok': "future_ok (quietly env) (call (ExecutionRequest_new ctx (claimed_params task) h))"
      by (rule racing_okD [OF ok guarded_attempt.attempt_entry_handler [OF raced(2)]])
    have "reported (e_pg env) ?q ?i v u"
      using raced(3) race_reports [OF env, of "race_start lease _ v"] v'(2,4) w(3) ok'
      by cases (auto simp: race_start_def observation_recorded_def)
    then show ?thesis using reported_after [OF v env(1) inv'] raced(1) by blast
  qed
  then obtain v where v: "reported (e_pg env) ?q ?i ?w v" "w' = drop_guard v" by blast
  then have "w' = v" by (simp add: reported_def drop_guard_def)
  then show ?thesis using v(1) unfolding reported_def w by blast
qed

theorem reported_outcome_is_recorded_witness:
  "\<exists>out el d. w_metrics demo_stopped = finish_execution (TaskExecution_start el) out (w_metrics (world_of demo_claimed))
    \<and> (db_step (e_pg cancelling_env))\<^sup>*\<^sup>* (w_db (world_of demo_claimed)) d
    \<and> (db_step (e_pg cancelling_env))\<^sup>*\<^sup>* d (w_db demo_stopped)
    \<and> recorded (xc_queue_name demo_xc) (claimed_run_id demo_claim_task) out d"
  using cancelling_env_ok(1,2) _ stuck_ok demo_stuck_run
  by (rule reported_outcome_is_recorded) (simp add: cancelling_env_ok(3) demo_inv)

subsection \<open>Cancellation\<close>

text \<open>\<^bold>\<open>C16.\<close> A cancelled attempt ends as cancelled: from any point of the race at which the run is
  cancelled and supervision has not resolved, every way in which the attempt ends without error, with the
  handler's output, its failure or an observation of supervision, is counted as cancelled.\<close>

theorem cancelled_attempt_ends_cancelled:
  assumes env: "env_ok env" "honest_faults env" and inv: "db_inv (e_pg env) (w_db (rc_world s))"
    and guard: "w_guard (rc_world s) = Some started" and handler: "future_ok (quietly env) (rc_handler s)"
    and supervised: "rc_supervisor s = Napping until \<or> rc_supervisor s = Polling"
    and cancelled: "run_cancelled q i (w_db (rc_world s))"
    and path: "(race_step env q i lease)\<^sup>*\<^sup>* s t" and won: "race_won t win"
    and run: "after_race env F q i win (rc_world t) = (Inr (), w')"
  shows "\<exists>el. w_metrics w' =
    finish_execution (TaskExecution_start el) Outcome_Cancelled (w_metrics (rc_world s))"
proof -
  have "observation_recorded env q i (rc_world s) s" using supervised by (auto simp: observation_recorded_def)
  then have "reported (e_pg env) q i (rc_world s) w'"
    using race_reports [OF env inv _ handler _ path won run] guard by simp
  then obtain out el d where "w_metrics w' = finish_execution (TaskExecution_start el) out (w_metrics (rc_world s))"
    "(db_step (e_pg env))\<^sup>*\<^sup>* (w_db (rc_world s)) d" "recorded q i out d"
    unfolding reported_def by blast
  then show ?thesis
    using cancelled_records_nothing_else [OF _ inv cancelled] env(1) unfolding env_ok_def by blast
qed

text \<open>The race of the stuck handler from the point at which supervision has woken.\<close>

lemma demo_cancelled_race:
  "db_inv exact_pg (w_db demo_woken)" "run_cancelled ''q'' 1 (w_db demo_woken)" "w_guard demo_woken = Some 0"
  "run_stored ''q'' 1 (e_others cancelling_env (w_tick demo_woken) (w_db demo_woken))"
  by code_simp+

theorem cancelled_attempt_ends_cancelled_witness:
  "\<exists>el. w_metrics (snd (finish_with Outcome_Cancelled demo_observed)) =
    finish_execution (TaskExecution_start el) Outcome_Cancelled (w_metrics demo_woken)"
proof (rule cancelled_attempt_ends_cancelled [of cancelling_env
      "\<lparr>rc_world = demo_woken, rc_handler = never, rc_supervisor = Polling\<rparr>" 0 0, simplified])
  show "(race_step cancelling_env ''q'' 1 60)\<^sup>*\<^sup>* \<lparr>rc_world = demo_woken, rc_handler = never, rc_supervisor = Polling\<rparr>
      \<lparr>rc_world = demo_observed, rc_handler = never, rc_supervisor = Observed (Inr Outcome_Cancelled)\<rparr>"
    using demo_stuck_poll by (rule r_into_rtranclp)
qed (use cancelling_env_ok demo_cancelled_race demo_stuck_won in \<open>simp_all\<close>)

lemma cancelled_poll:
  assumes "rc_supervisor t = Polling"
    and "fst (client_supervise_run env q i (Some lease) (rc_world t)) = Inr Sup_Cancelled"
  shows "\<exists>u. race_step env q i lease t u \<and> rc_handler u = rc_handler t
    \<and> race_won u (Supervisor_won (Inr Outcome_Cancelled))"
  by (rule exI, rule conjI, rule supervisor_polls [OF assms(1), of env q i lease "Inr Sup_Cancelled"
        "snd (client_supervise_run env q i (Some lease) (rc_world t))"])
    (use assms(2) in \<open>simp_all add: prod_eq_iff observed_def supervisor_won\<close>)

text \<open>\<^bold>\<open>C17.\<close> Cancellation stops an attempt whose handler never resolves: at any later point of the race
  the supervisor's timer can fire, its next poll that reaches the database while the run is stored
  resolves supervision with the cancellation, whatever the handler does, and that ends the race.\<close>

theorem cancellation_stops_a_stuck_handler:
  assumes env: "env_ok env" and inv: "db_inv (e_pg env) (w_db (rc_world s))"
    and handler: "future_ok (quietly env) (rc_handler s)"
    and cancelled: "run_cancelled q i (w_db (rc_world s))"
    and path: "(race_step env q i lease)\<^sup>*\<^sup>* s t"
    and queue: "queue_name_ok (e_pg env) q" and lease: "0 < lease"
    and supervised: "rc_supervisor t = Napping until \<or> rc_supervisor t = Polling"
    and reached: "e_fault env (w_tick (rc_world t)) = None"
      "run_stored q i (e_others env (w_tick (rc_world t)) (w_db (rc_world t)))"
  shows "(\<exists>u. race_step env q i lease t u \<and> rc_handler u = rc_handler t
      \<and> (if rc_supervisor t = Polling then race_won u (Supervisor_won (Inr Outcome_Cancelled))
         else rc_supervisor u = Polling))
    \<and> (\<forall>u. race_step env q i lease t u \<longrightarrow> rc_supervisor u = rc_supervisor t \<or> rc_supervisor u = Polling
         \<or> race_won u (Supervisor_won (Inr Outcome_Cancelled)))"
proof -
  have t: "quietly env (rc_world s) (rc_world t)" using quietly.race_effect [OF path handler] by blast
  note t' = quietly_steps [OF t env inv]
  have poll: "fst (client_supervise_run env q i (Some lease) (rc_world t)) = Inr Sup_Cancelled"
    using client_supervise_sees_cancelled [OF env reached(1) t'(2) queue _ cancelled inv t'(1) reached(2)] lease by simp
  have won: "race_won u (Supervisor_won (Inr Outcome_Cancelled))" if "rc_supervisor u = observed lease (Inr Sup_Cancelled) w" for u w
    using that by (simp add: observed_def supervisor_won)
  have "\<exists>u. race_step env q i lease t u \<and> rc_handler u = rc_handler t \<and> rc_supervisor u = Polling"
    if "rc_supervisor t = Napping until"
    by (rule exI, rule conjI, rule supervisor_wakes [OF that, of "max until (w_now (begin_event env (rc_world t)))"])
      simp_all
  moreover note cancelled_poll [OF _ poll]
  moreover have "rc_supervisor u = rc_supervisor t \<or> rc_supervisor u = Polling
      \<or> race_won u (Supervisor_won (Inr Outcome_Cancelled))" if "race_step env q i lease t u" for u
    using that by cases (use poll won in auto)
  ultimately show ?thesis using supervised by auto
qed

theorem cancellation_stops_a_stuck_handler_witness:
  "\<exists>u. race_step cancelling_env ''q'' 1 60 \<lparr>rc_world = demo_woken, rc_handler = never, rc_supervisor = Polling\<rparr> u
    \<and> rc_handler u = never \<and> race_won u (Supervisor_won (Inr Outcome_Cancelled))"
proof -
  let ?s = "\<lparr>rc_world = demo_woken, rc_handler = never, rc_supervisor = Polling\<rparr>"
  have "e_fault cancelling_env (w_tick demo_woken) = None" by (simp add: cancelling_env_def)
  then show ?thesis
    using cancellation_stops_a_stuck_handler [OF cancelling_env_ok(1), of ?s "''q''" 1 60 ?s 0]
      demo_cancelled_race demo_facts(1)
    by (simp add: cancelling_env_ok(3))
qed

end
