(* ===== verification/Cancellation.thy ===== *)
theory Cancellation
  imports RaceProperties Examples
begin

section \<open>The cancellation example\<close>

text \<open>
  \<open>examples/cancellation.rs\<close>: two handlers that never resolve, and the client that cancels one task by
  hand and lets the deadline of its policy cancel the other. The handlers are futures. The
  notification that the first handler has started is an argument: its sender an effect on the world, its
  receiver under \<open>tokio::time::timeout\<close> an operation that may elapse.
\<close>

subsection \<open>Handlers\<close>

definition MANUAL_CANCELLATION :: Task where "MANUAL_CANCELLATION = Task_new ''manual-cancellation''"

definition DEADLINE_CANCELLATION :: Task where "DEADLINE_CANCELLATION = Task_new ''deadline-cancellation''"

definition manual_handler :: "(world \<Rightarrow> world) \<Rightarrow> unit \<Rightarrow> TaskContext \<Rightarrow> (stop + unit) future" where
  "manual_handler notify_one input ctx = after_effect notify_one never"

definition deadline_handler :: "unit \<Rightarrow> TaskContext \<Rightarrow> (stop + unit) future" where
  "deadline_handler input ctx = never"

lemma handlers_quiet:
  assumes "\<And>w. quietly env w (notify_one w)"
  shows "future_ok (quietly env) (manual_handler notify_one input ctx)" "future_ok (quietly env) (deadline_handler input ctx)"
  using assms by (simp_all add: manual_handler_def deadline_handler_def after_effect_ok)

subsection \<open>The client\<close>

text \<open>\<open>match \<dots>\<close> on the result of a task that has to end as cancelled.\<close>

fun expect_cancelled :: "string \<Rightarrow> error + unit \<Rightarrow> error + unit" where
  "expect_cancelled unexpected (Inl Error_Cancelled) = Inr ()"
| "expect_cancelled unexpected (Inl err) = Inl err"
| "expect_cancelled unexpected (Inr _) = Inl (Error_Other unexpected)"

definition await_cancelled :: "env \<Rightarrow> string \<Rightarrow> 'svc SpawnedTask \<Rightarrow> unit async" where
  "await_cancelled env unexpected task = (\<lambda>w.
     map_option (map_prod (expect_cancelled unexpected) id)
       (spawned_result_with_timeout env unit_from_value task \<lparr>as_secs = 5, subsec_nanos = 0\<rparr> w))"

definition manual_cancellation :: "env \<Rightarrow> 'svc Queue \<Rightarrow> (world, unit, unit) esm \<Rightarrow> unit async" where
  "manual_cancellation env queue notified =
     abind (alift (Spawn_into_future env unit_to_value (Queue_spawn queue MANUAL_CANCELLATION ()))) (\<lambda>manual.
     abind (alift (map_err (\<lambda>_. Error_Timeout ''timed out waiting for manual task to start'') notified)) (\<lambda>_.
     abind (alift (spawned_cancel env manual)) (\<lambda>_.
       await_cancelled env ''cancelled task unexpectedly completed'' manual)))"

definition deadline_cancellation :: "env \<Rightarrow> 'svc Queue \<Rightarrow> unit async" where
  "deadline_cancellation env queue =
     abind (alift (Spawn_into_future env unit_to_value
       (Spawn_cancellation (with_max_duration CancellationPolicy_new \<lparr>as_secs = 1, subsec_nanos = 0\<rparr>)
         (Queue_spawn queue DEADLINE_CANCELLATION ())))) (\<lambda>deadline.
       await_cancelled env ''deadline-limited task unexpectedly completed'' deadline)"

subsection \<open>The example's promises\<close>

text \<open>Neither handler ever resolves, so only supervision ends their attempts.\<close>

lemma never_step: "never = Awaiting f \<Longrightarrow> f w = (h, w') \<Longrightarrow> h = never"
  by (metis future.inject(2) never_eq prod.inject)

lemma stuck_race:
  assumes "(race_step env q i lease)\<^sup>*\<^sup>* s t" and "rc_handler s = after_effect f never \<or> rc_handler s = never"
  shows "rc_handler t = after_effect f never \<or> rc_handler t = never"
  using assms
proof (induction rule: rtranclp_induct)
  case (step t u)
  from step.hyps(2) show ?case
  proof cases
    case (handler_runs f' h w')
    then have "h = never" using step.IH [OF step.prems] never_step [of f'] by (auto simp: after_effect_def)
    then show ?thesis using handler_runs by simp
  qed (use step in auto)
qed

lemma stuck_race_won:
  assumes "(race_step env q i lease)\<^sup>*\<^sup>* (race_start lease h w) t" and "h = after_effect f never \<or> h = never"
    and "race_won t win"
  obtains r where "win = Supervisor_won r"
proof -
  have "rc_handler t = after_effect f never \<or> rc_handler t = never"
    using stuck_race [OF assms(1), of f] assms(2) by (simp add: race_start_def)
  then have "rc_handler t \<noteq> Resolved x" for x by (metis after_effect_def future.distinct(1) never_eq)
  with assms(3) show thesis by cases (use that in auto)
qed

text \<open>A poll that finds the task's deadline due cancels it and ends the race.\<close>

lemma deadline_stops_a_stuck_handler:
  assumes env: "env_ok env" "e_fault env (w_tick (rc_world t)) = None" and inv: "db_inv (e_pg env) (w_db (rc_world t))"
    and poll: "rc_supervisor t = Polling" "0 < lease" and q: "queue_name_ok (e_pg env) q"
    and att: "map_of (storage (e_others env (w_tick (rc_world t)) (w_db (rc_world t)))) q = Some s"
      "running_attempt s i r k until"
    and due: "task_due k (pg_clock (e_pg env) (seq (e_others env (w_tick (rc_world t)) (w_db (rc_world t))))) = Inr True"
  shows "\<exists>u. race_step env q i lease t u \<and> rc_handler u = rc_handler t
    \<and> race_won u (Supervisor_won (Inr Outcome_Cancelled))"
proof (rule cancelled_poll [OF poll(1)])
  let ?d = "e_others env (w_tick (rc_world t)) (w_db (rc_world t))" and ?m = "supervise_run (e_pg env) q i (Some lease)"
  have inv': "db_inv (e_pg env) ?d" using env(1) inv by (rule env_inv)
  have rt: "find_row r_id i (runs s) = Some r" "find_row t_id (r_task_id r) (tasks s) = Some k"
    "r_state r = Running" "t_state k = Running" "t_last_attempt_run k = i"
    using att(2) by (simp_all add: running_attempt_def)
  have ok: "store_ok (e_pg env) s" using db_inv_store [OF inv' att(1)] by (simp add: store_inv_def)
  have "map_of (storage (tick ?d)) q = Some s" using att(1) by simp
  note cancel = cancel_task_eval [OF q this ok rt(2)]
  obtain d where run: "?m ?d = (Inr ''cancelled'', d)"
    using rt due poll(2) cancel lock_attempt_context_eval [OF q att(1) rt(1,2)]
    by (simp add: supervise_run_def ebind_apply esm_apply context_due_eval)
  have inj: "inj (pg_uuid (e_pg env))" using env(1) by (simp add: env_ok_def pg_ok_def)
  have "run_txn ?m ?d = (Inr ''cancelled'', d)"
    by (rule run_txn_commits [of ?m, OF run supervise_run_inv [OF inv' inj run]])
  from pool_call_ok [OF env(2) this] show "fst (client_supervise_run env q i (Some lease) (rc_world t)) = Inr Sup_Cancelled"
    by (simp add: client_supervise_run_def ebind_apply map_err_apply esm_apply supervision_of_text_def)
qed

text \<open>The client accepts the result of a task that is cancelled, whatever calls came in between.\<close>

lemma cancelled_example_succeeds:
  assumes pg: "pg_ok (e_pg env)" and inv: "db_inv (e_pg env) db"
    and cancelled: "map_of (storage db) q = Some s0" "t0 \<in> set (tasks s0)"
      "t_id t0 = handle_task_id (spawned_handle task)" "t_state t0 = Cancelled"
    and client: "env_ok env" "e_fault env (w_tick c) = None" "(db_step (e_pg env))\<^sup>*\<^sup>* db (w_db c)"
    and handle: "Queue_name (handle_queue (spawned_handle task)) = q" "queue_name_ok (e_pg env) q"
    and stored: "map_of (storage (e_others env (w_tick c) (w_db c))) q = Some s" "t \<in> set (tasks s)"
      "t_id t = handle_task_id (spawned_handle task)" "t_name t = ref_task_name (handle_ref (spawned_handle task))"
  shows "await_cancelled env unexpected task c = Some (Inr (), begin_event env c)"
  using cancelled_wait [OF assms, of unit_from_value "Some \<lparr>as_secs = 5, subsec_nanos = 0\<rparr>"]
  by (simp add: await_cancelled_def spawned_result_with_timeout_def handle_result_with_timeout_def)

end
