(* ===== verification/Spec2Isabelle.thy ===== *)
theory Spec2Isabelle
  imports Metrics DbBehaviour ClientProperties WorkerProperties ConcurrentSteps ExampleProperties Cancellation
begin

text \<open>
  \<^bold>\<open>Steda\<close>: a durable task queue on PostgreSQL. Applications submit typed tasks to named queues,
  workers claim runs of them under finite leases, execute the registered handlers and report the
  outcome; a handler's steps, sleeps and waits are checkpointed so that a later attempt replays them.
  PostgreSQL functions (\<open>sql/steda.sql\<close>) own every durable transition; the Rust crate (\<open>src/*.rs\<close>)
  validates, calls them and runs the handlers.

  \<^bold>\<open>Parts and theories.\<close>

  \<^item> \<open>Prelude\<close>: results, the error-state monad \<open>esm\<close>, rows of tables, transition systems.
    \<open>Json\<close>: \<open>serde_json::Value\<close> / \<open>jsonb\<close>. \<open>Types\<close>: \<open>src/types.rs\<close>, \<open>src/error.rs\<close>,
    \<open>src/workflow.rs\<close>. \<open>Metrics\<close>: \<open>src/metrics.rs\<close>, with 64-bit saturating counters.
  \<^item> \<open>Validation\<close>: names, durations, retry strategies and spawn options of \<open>src/queue.rs\<close>,
    \<open>src/task.rs\<close>, \<open>src/db.rs\<close> and \<open>src/context.rs\<close>; \<open>Policy\<close>: the retry and cancellation
    functions of the schema; \<open>Boundary\<close>: what Rust accepts the schema accepts.
  \<^item> The schema: \<open>Postgres\<close> (tables with their checks, keys and foreign keys, statements,
    transactions), \<open>Invariants\<close>, \<open>Submission\<close> (\<open>spawn_task\<close>, \<open>get_task_result\<close>),
    \<open>RunControl\<close> (attempt locking, completion, suspension, failure, cancellation, manual retry),
    \<open>Claiming\<close> (claims, reaping, due cancellations, supervision), \<open>Checkpoints\<close>,
    \<open>Maintenance\<close> (queues, policies, cleanup), \<open>History\<close> (the lifecycle of a task),
    \<open>DbSystem\<close> (all calls of all clients as one step relation \<open>db_step\<close>).
  \<^item> The client: \<open>Runtime\<close> (calls through the pool or the caller's transaction, lost requests and
    replies, other sessions, the clock), \<open>Client\<close> (\<open>src/db.rs\<close>, \<open>src/queue.rs\<close>, \<open>src/steda.rs\<close>),
    \<open>TaskApi\<close> (\<open>src/task.rs\<close>), \<open>TaskContext\<close> (\<open>src/context.rs\<close>), \<open>Futures\<close>, \<open>Execution\<close>
    (\<open>src/execution.rs\<close>, builder and \<open>connect\<close> of \<open>src/steda.rs\<close>, and of \<open>src/executor.rs\<close> all but the
    race), \<open>Race\<close> (\<open>execute_task\<close> with the \<open>select!\<close> between the handler's future and the supervision
    loop, two processes that interleave at their await points) and \<open>Worker\<close> (\<open>src/worker.rs\<close>).
    \<open>ConcurrentSteps\<close>: the per-name locks of \<open>TaskContext::checkpoint\<close> with calls that interleave and may
    be dropped.
  \<^item> The client code in \<open>examples/\<close>: \<open>Examples\<close>, handlers, executors, a layer and their types;
    \<open>Cancellation\<close>: \<open>examples/cancellation.rs\<close>, with handlers that never resolve.

  \<^bold>\<open>How state and operations correspond.\<close> A queue's three tables are the record \<open>store\<close>; a database is
  the queue table, the stores and the number of calls so far, from which the parameter \<open>pg\<close> supplies
  the clock and fresh identifiers. An SQL function is a definition of the same name in the monad
  \<open>'a sql\<close>, where \<open>RAISE\<close> and constraint violations are values of \<open>sql_error\<close>; a transaction that
  raises leaves the tables as they were. An \<open>async fn\<close> returning \<open>Result<T>\<close> is an \<open>'a rust\<close> over
  \<open>world\<close>; where it may poll forever it is an \<open>'a async\<close>, whose value \<open>None\<close> is a wait that never
  returns. The polling loop of the worker is the step relation \<open>worker_step\<close>, concurrent checkpoint calls
  are \<open>calls_step\<close>; a call of the latter run by itself is \<open>checkpoint\<close> (\<open>lone_call_is_checkpoint\<close>).
  Handlers and middleware are futures, a codatatype, since they need not resolve. An attempt is the
  relation \<open>execute_task\<close> (\<open>attempt_run\<close> on the queue's service): it holds of every way the attempt can
  end, in every interleaving, and of none when it never ends. Between any two calls other sessions may take any number of steps of \<open>db_step\<close>, and any call may lose its request or its
  reply: the record \<open>env\<close> decides, and the theorems hold for every \<open>env\<close> that \<open>env_ok\<close> admits.
  Rust strings are their UTF-8 bytes; integers keep their width where it matters.

  \<^bold>\<open>What is shown.\<close>

  \<^item> \<open>DbProperties\<close>, \<open>DbBehaviour\<close>, \<open>ClaimProperties\<close>: in every reachable database each task has
    exactly one authoritative run; stale attempts cannot write; tasks move along the lifecycle and
    outcomes are permanent; submissions are idempotent; completion, cancellation, retry, exhaustion,
    lease expiry and renewal; claims are exclusive, ordered and complete; the first checkpoint wins;
    cleanup and manual retry; and two defects of the schema. \<open>LeaseProperties\<close>: while a lease is live no
    calls of other sessions (\<open>other_step\<close>) take the attempt from its worker.
  \<^item> \<open>SubmissionPath\<close>, \<open>ClientProperties\<close>, \<open>HandleProperties\<close>: validated submissions create their
    task; snapshots report it; waits end by their deadline; references survive the wire; control
    operations refuse foreign tasks; operations in the caller's transaction refine the pooled ones.
  \<^item> \<open>ContextProperties\<close>, \<open>WorkflowProperties\<close>: committed steps replay without running; a value
    returned by a step is committed; suspended sleeps are durable; waits replay; workflow identities
    do not collide. \<open>ConcurrentSteps\<close>: concurrent calls of one step exclude each other, agree on one value,
    run at most one function to a value and never deadlock.
  \<^item> \<open>ExecutionProperties\<close>, \<open>WorkerProperties\<close>: each attempt that ends is counted once and keeps to the
    database protocol; application failures never pass for lost leases; what a builder builds; capacity,
    exit, drain and accounting of the worker loop.
  \<^item> \<open>Outcomes\<close>, \<open>RaceProperties\<close>: in every interleaving of handler and supervision an attempt is
    counted once, reports only what the database recorded, ends as cancelled once its run is, and is
    stopped by a cancellation even when its handler never resolves.
  \<^item> \<open>EndToEnd\<close>: the output a worker settles, and a cancellation, is what every waiter gets; the
    supervision cadence keeps a lease alive from poll to poll. \<open>ExampleProperties\<close>: the retried parent of
    \<open>examples/cross_queue_workflow.rs\<close> keeps its child; committed steps of the other workflows and
    repeated webhooks.

  \<^bold>\<open>Interfaces.\<close> \<open>transition_system\<close> carries invariants to reachable states (databases, workers,
  leases, concurrent calls); \<open>effect_order\<close> says what an operation leaves alone or moves (metrics, cache, transaction, committed
  tables, the database protocol) and is composed along the monad; \<open>call_discipline\<close> extends it by the
  calls of one attempt and \<open>attempt_discipline\<close> by its metrics guard; \<open>name_validator\<close> is the contract of the name checks. Each is interpreted
  on the definitions of the model.

  \<^bold>\<open>Bounds and fuel.\<close> No definition has fuel. The supervision loop and the worker loop are step
  relations; \<open>await_loop\<close> is a partial function, and that it returns under a timeout is proved.

  \<^bold>\<open>Parameters.\<close> \<open>pg\<close> (clock, fresh UUIDs, text and float functions of PostgreSQL, row locks held by
  other sessions, rows past a \<open>LIMIT\<close> that the plan still evaluates), \<open>env\<close> (driver and network), \<open>fmt\<close> (texts of UUIDs, JSON and driver errors), the
  \<open>serde\<close> implementations of the application's types, \<open>time_lib\<close> (the \<open>time\<close> crate and the driver's
  conversions of timestamps), opening
  a connection pool, the application's executors and \<open>tower\<close> layers. What is assumed of them is named where it is used:
  \<open>pg_ok\<close>, \<open>env_ok\<close>, \<open>honest_faults\<close> (a lost request or reply does not carry one of Steda's own
  SQLSTATEs), \<open>racing_ok\<close>, \<open>executor_ok\<close>, \<open>layers_ok\<close>, \<open>pg_reads_config\<close>.

  \<^bold>\<open>Not modelled.\<close> Log output and \<open>Debug\<close> implementations; row locking beyond
  \<open>SKIP LOCKED\<close> (calls of a session are atomic; inside the caller's transaction each statement sees what
  others have committed by then, as under \<open>READ COMMITTED\<close>); calls that hang for ever (a call through the
  pool returns an answer or an error); tables altered outside Steda, so that \<open>verify_queue_storage\<close> finds
  no column, index or key missing; the steps inside an attempt as steps of the worker loop (there an
  attempt is one step, when it ends, while \<open>Race\<close> has its steps); the migration part of the schema (roles, grants, \<open>CREATE FUNCTION\<close>); of the examples the wiring in \<open>main\<close> and the helper that runs
  a worker in the background; \<open>src/lib.rs\<close>, which only
  documents and re-exports; accessors that return a field, which are the fields of the records here;
  tests and build files. The texts of \<open>RAISE\<close> keep their \<open>%\<close> placeholders: the client tells
  database errors apart by their SQLSTATE only.
\<close>

end
